(* ===== verification/Prelude.thy ===== *)
theory Prelude
  imports Complex_Main
begin

text \<open>
  Shared vocabulary of the development: the exceptions the service can raise, the
  state-and-exception computations its coroutines are translated to, a small calculus of
  triples for them.
\<close>

section \<open>Exceptions\<close>

text \<open>
  One constructor per exception class that the modelled code raises or lets through.
  A string is kept where the code builds the message itself.
\<close>

datatype py_error =
    ValueError string
  | TypeError
  | AttributeError
  | UnicodeEncodeError
  | StructError
  | RuntimeError string
  | NotImplementedError string
  | JSONDecodeError
  | HTTPError string
  | ChainRPCError string
  | DilithiumError string
  | PoolKeyError string
  | SignatureError string
  | HTTPException int string
  | IntegrityError
  | DataError
  | MissingGreenlet
  | OperationalError

type_synonym 'a res = "py_error + 'a"

definition rbind :: "'a res \<Rightarrow> ('a \<Rightarrow> 'b res) \<Rightarrow> 'b res" where
  "rbind r f = (case r of Inl e \<Rightarrow> Inl e | Inr a \<Rightarrow> f a)"

lemma rbind_simps [simp]:
  "rbind (Inl e) f = Inl e"
  "rbind (Inr a) f = f a"
  by (simp_all add: rbind_def)

lemma rbind_eq_Inr: "rbind r f = Inr b \<longleftrightarrow> (\<exists>a. r = Inr a \<and> f a = Inr b)"
  by (cases r) auto

lemma rbind_eq_Inl: "rbind r f = Inl e \<longleftrightarrow> r = Inl e \<or> (\<exists>a. r = Inr a \<and> f a = Inl e)"
  by (cases r) auto

section \<open>Computations with state and exceptions\<close>

text \<open>
  A coroutine that works on a session is a function from the session to a result or an
  exception, and the session afterwards. The state survives an exception, as it does in
  the program: a caller that catches the exception goes on with the same session.
\<close>

type_synonym ('s, 'a) exec = "'s \<Rightarrow> 'a res \<times> 's"

definition return :: "'a \<Rightarrow> ('s, 'a) exec" where
  "return a = (\<lambda>s. (Inr a, s))"

definition raise :: "py_error \<Rightarrow> ('s, 'a) exec" where
  "raise e = (\<lambda>s. (Inl e, s))"

definition bind :: "('s, 'a) exec \<Rightarrow> ('a \<Rightarrow> ('s, 'b) exec) \<Rightarrow> ('s, 'b) exec" where
  "bind m f = (\<lambda>s. case m s of (r, s') \<Rightarrow> (case r of Inl e \<Rightarrow> (Inl e, s') | Inr a \<Rightarrow> f a s'))"

abbreviation andthen :: "('s, unit) exec \<Rightarrow> ('s, 'b) exec \<Rightarrow> ('s, 'b) exec" where
  "andthen m k \<equiv> bind m (\<lambda>_. k)"

definition lift :: "'a res \<Rightarrow> ('s, 'a) exec" where
  "lift r = (\<lambda>s. (r, s))"

definition gets :: "('s \<Rightarrow> 'a) \<Rightarrow> ('s, 'a) exec" where
  "gets f = (\<lambda>s. (Inr (f s), s))"

definition modify :: "('s \<Rightarrow> 's) \<Rightarrow> ('s, unit) exec" where
  "modify f = (\<lambda>s. (Inr (), f s))"

definition raise_unless :: "bool \<Rightarrow> py_error \<Rightarrow> ('s, unit) exec" where
  "raise_unless b e = (if b then return () else raise e)"

text \<open>\<open>try: m except e: h e\<close>; the handler re-raises what it does not catch.\<close>

definition catch :: "('s, 'a) exec \<Rightarrow> (py_error \<Rightarrow> ('s, 'a) exec) \<Rightarrow> ('s, 'a) exec" where
  "catch m h = (\<lambda>s. case m s of (r, s') \<Rightarrow> (case r of Inl e \<Rightarrow> h e s' | Inr a \<Rightarrow> (Inr a, s')))"

fun for_each :: "('x \<Rightarrow> ('s, unit) exec) \<Rightarrow> 'x list \<Rightarrow> ('s, unit) exec" where
  "for_each f [] = return ()"
| "for_each f (x # xs) = andthen (f x) (for_each f xs)"

text \<open>Running a computation step by step: the rules that symbolic execution uses.\<close>

named_theorems exec_simps

lemma return_exec [exec_simps]: "return a s = (Inr a, s)"
  by (simp add: return_def)

lemma raise_exec [exec_simps]: "raise e s = (Inl e, s)"
  by (simp add: raise_def)

lemma lift_exec [exec_simps]: "lift r s = (r, s)"
  by (simp add: lift_def)

lemma gets_exec [exec_simps]: "gets f s = (Inr (f s), s)"
  by (simp add: gets_def)

lemma modify_exec [exec_simps]: "modify f s = (Inr (), f s)"
  by (simp add: modify_def)

lemma raise_unless_exec [exec_simps]:
  "raise_unless b e s = (if b then Inr () else Inl e, s)"
  by (simp add: raise_unless_def return_def raise_def)

lemma bind_Inr_step [exec_simps]: "m s = (Inr a, s') \<Longrightarrow> bind m f s = f a s'"
  by (simp add: bind_def)

lemma bind_Inl_step [exec_simps]: "m s = (Inl e, s') \<Longrightarrow> bind m f s = (Inl e, s')"
  by (simp add: bind_def)

lemma bind_eq_Inr:
  "bind m f s = (Inr b, s'') \<longleftrightarrow> (\<exists>a s'. m s = (Inr a, s') \<and> f a s' = (Inr b, s''))"
  by (auto simp: bind_def split: prod.splits sum.splits)

lemma bind_return [simp]: "bind (return a) f = f a"
  by (simp add: bind_def return_def)

lemma bind_raise [simp]: "bind (raise e) f = raise e"
  by (simp add: bind_def raise_def)

lemma bind_gets: "bind (gets g) f s = f (g s) s"
  by (simp add: bind_def gets_def)

lemma bind_modify: "bind (modify g) f s = f () (g s)"
  by (simp add: bind_def modify_def)

lemma bind_lift: "bind (lift r) f s = (case r of Inl e \<Rightarrow> (Inl e, s) | Inr a \<Rightarrow> f a s)"
  by (simp add: bind_def lift_def)

lemma bind_raise_unless:
  "bind (raise_unless b e) f s = (if b then f () s else (Inl e, s))"
  by (simp add: bind_def raise_unless_def return_def raise_def)

lemma if_exec [exec_simps]: "(if b then m else m') s = (if b then m s else m' s)"
  by simp

lemma bind_assoc: "bind (bind m f) g = bind m (\<lambda>a. bind (f a) g)"
  by (rule ext) (simp add: bind_def split: prod.splits sum.splits)

lemma for_each_append: "for_each f (xs @ ys) = andthen (for_each f xs) (for_each f ys)"
  by (induction xs) (simp_all add: bind_assoc)

lemma for_each_snoc_Inr:
  "for_each f (xs @ [x]) s = (Inr (), s'') \<longleftrightarrow>
     (\<exists>s'. for_each f xs s = (Inr (), s') \<and> f x s' = (Inr (), s''))"
  by (auto simp: for_each_append bind_eq_Inr return_exec)

text \<open>The rules that run a straight-line computation, unconditional ones only.\<close>

lemmas exec_run = bind_gets bind_modify bind_lift bind_raise_unless return_exec raise_exec
  lift_exec gets_exec modify_exec raise_unless_exec if_exec

subsection \<open>Triples\<close>

text \<open>
  \<open>triple P m Q E\<close>: from a state with \<open>P\<close>, the computation ends with a value and a state
  in \<open>Q\<close>, or with an exception and a state in \<open>E\<close>. \<open>preserves P m\<close> is the case of an
  invariant kept on both exits.
\<close>

definition triple ::
  "('s \<Rightarrow> bool) \<Rightarrow> ('s, 'a) exec \<Rightarrow> ('a \<Rightarrow> 's \<Rightarrow> bool) \<Rightarrow> (py_error \<Rightarrow> 's \<Rightarrow> bool) \<Rightarrow> bool" where
  "triple P m Q E \<longleftrightarrow>
     (\<forall>s. P s \<longrightarrow> (case m s of (r, s') \<Rightarrow> (case r of Inl e \<Rightarrow> E e s' | Inr a \<Rightarrow> Q a s')))"

definition preserves :: "('s \<Rightarrow> bool) \<Rightarrow> ('s, 'a) exec \<Rightarrow> bool" where
  "preserves P m \<longleftrightarrow> (\<forall>s. P s \<longrightarrow> P (snd (m s)))"

named_theorems preserves_intros

lemma preserves_iff_triple: "preserves P m \<longleftrightarrow> triple P m (\<lambda>_. P) (\<lambda>_. P)"
proof -
  have "(case m s of (r, s') \<Rightarrow> (case r of Inl e \<Rightarrow> P s' | Inr a \<Rightarrow> P s')) = P (snd (m s))" for s
    by (simp split: prod.split sum.split)
  then show ?thesis by (simp add: preserves_def triple_def)
qed

lemma preservesD: "preserves P m \<Longrightarrow> P s \<Longrightarrow> P (snd (m s))"
  by (simp add: preserves_def)

lemma preserves_return [preserves_intros]: "preserves P (return a)"
  by (simp add: preserves_def return_def)

lemma preserves_raise [preserves_intros]: "preserves P (raise e)"
  by (simp add: preserves_def raise_def)

lemma preserves_lift [preserves_intros]: "preserves P (lift r)"
  by (simp add: preserves_def lift_def)

lemma preserves_gets [preserves_intros]: "preserves P (gets f)"
  by (simp add: preserves_def gets_def)

lemma preserves_raise_unless [preserves_intros]: "preserves P (raise_unless b e)"
  by (simp add: preserves_def raise_unless_def return_def raise_def)

lemma preserves_modify: "(\<And>s. P s \<Longrightarrow> P (f s)) \<Longrightarrow> preserves P (modify f)"
  by (simp add: preserves_def modify_def)

lemma preserves_bind [preserves_intros]:
  assumes "preserves P m" and "\<And>a. preserves P (f a)"
  shows "preserves P (bind m f)"
  using assms by (auto simp: preserves_def bind_def split: prod.splits sum.splits)

lemma preserves_catch [preserves_intros]:
  assumes "preserves P m" and "\<And>e. preserves P (h e)"
  shows "preserves P (catch m h)"
  using assms by (auto simp: preserves_def catch_def split: prod.splits sum.splits)

lemma preserves_if [preserves_intros]:
  "(b \<Longrightarrow> preserves P m) \<Longrightarrow> (\<not> b \<Longrightarrow> preserves P m') \<Longrightarrow> preserves P (if b then m else m')"
  by simp

lemma preserves_option [preserves_intros]:
  assumes "x = None \<Longrightarrow> preserves P m" and "\<And>a. x = Some a \<Longrightarrow> preserves P (f a)"
  shows "preserves P (case x of None \<Rightarrow> m | Some a \<Rightarrow> f a)"
  using assms by (cases x) auto

lemma preserves_for_each [preserves_intros]:
  "(\<And>x. x \<in> set xs \<Longrightarrow> preserves P (f x)) \<Longrightarrow> preserves P (for_each f xs)"
  by (induction xs) (auto intro!: preserves_intros)

lemma tripleI:
  assumes "\<And>s a s'. P s \<Longrightarrow> m s = (Inr a, s') \<Longrightarrow> Q a s'"
    and "\<And>s e s'. P s \<Longrightarrow> m s = (Inl e, s') \<Longrightarrow> E e s'"
  shows "triple P m Q E"
  using assms by (auto simp: triple_def split: prod.splits sum.splits)

lemma triple_bind:
  assumes "triple P m R E" and "\<And>a. triple (R a) (f a) Q E"
  shows "triple P (bind m f) Q E"
  using assms by (fastforce simp: triple_def bind_def split: prod.splits sum.splits)

lemma triple_conseq:
  assumes "triple P m Q E" and "\<And>s. P' s \<Longrightarrow> P s"
    and "\<And>a s. Q a s \<Longrightarrow> Q' a s" and "\<And>e s. E e s \<Longrightarrow> E' e s"
  shows "triple P' m Q' E'"
  using assms by (fastforce simp: triple_def split: prod.splits sum.splits)

lemma triple_for_each:
  assumes "\<And>x. x \<in> set xs \<Longrightarrow> triple P (f x) (\<lambda>_. P) E"
  shows "triple P (for_each f xs) (\<lambda>_. P) E"
  using assms
proof (induction xs)
  case Nil
  then show ?case by (simp add: triple_def return_def)
next
  case (Cons x xs)
  then show ?case by (auto intro!: triple_bind)
qed

end
