(* ===== verification/PyValues.thy ===== *)
theory PyValues
  imports Prelude "HOL-Library.Word"
begin

text \<open>
  The Python values and built-ins the service uses: parsed JSON values with their truth
  value, \<open>dict.get\<close> and \<open>int()\<close>; \<open>str\<close> and \<open>bytes\<close> with decimal and hexadecimal
  notation and the two encodings. A Python string is a \<^typ>\<open>string\<close>: a list of characters,
  which holds the code points 0 to 255; a byte is an 8-bit word.
\<close>

section \<open>Strings\<close>

definition startswith :: "string \<Rightarrow> string \<Rightarrow> bool" where
  "startswith s p \<longleftrightarrow> take (length p) s = p"

lemma startswith_iff: "startswith s p \<longleftrightarrow> (\<exists>r. s = p @ r)"
  unfolding startswith_def by (metis append_eq_conv_conj append_take_drop_id)

fun contains :: "string \<Rightarrow> string \<Rightarrow> bool" where
  "contains p [] = (p = [])"
| "contains p (c # s) = (startswith (c # s) p \<or> contains p s)"

definition lower_char :: "char \<Rightarrow> char" where
  "lower_char c =
     (let n = of_char c :: nat
      in if (65 \<le> n \<and> n \<le> 90) \<or> (192 \<le> n \<and> n \<le> 222 \<and> n \<noteq> 215) then char_of (n + 32) else c)"

definition lower :: "string \<Rightarrow> string" where
  "lower s = map lower_char s"

text \<open>\<open>str(n)\<close> for an integer.\<close>

definition digit_char :: "nat \<Rightarrow> char" where
  "digit_char d = char_of (48 + d)"

fun nat_str :: "nat \<Rightarrow> string" where
  "nat_str n = (if n < 10 then [digit_char n] else nat_str (n div 10) @ [digit_char (n mod 10)])"

declare nat_str.simps [simp del]

definition int_str :: "int \<Rightarrow> string" where
  "int_str n = (if n < 0 then CHR ''-'' # nat_str (nat (- n)) else nat_str (nat n))"

text \<open>Reading digits back, the inverse used to show that \<open>str\<close> is injective.\<close>

definition digit_value :: "char \<Rightarrow> nat" where
  "digit_value c = of_char c - 48"

definition digits_value :: "string \<Rightarrow> nat" where
  "digits_value s = foldl (\<lambda>v c. 10 * v + digit_value c) 0 s"

lemma digit_value_digit_char: "d < 10 \<Longrightarrow> digit_value (digit_char d) = d"
  by (simp add: digit_value_def digit_char_def)

lemma digits_value_nat_str: "digits_value (nat_str n) = n"
proof (induction n rule: nat_str.induct)
  case (1 n)
  then show ?case
    by (subst nat_str.simps) (auto simp: digits_value_def digit_value_digit_char)
qed

lemma nat_str_inject [simp]: "nat_str m = nat_str n \<longleftrightarrow> m = n"
  by (metis digits_value_nat_str)

lemma is_digit_digit_char: "d < 10 \<Longrightarrow> of_char (digit_char d) \<in> {48..57::nat}"
  by (simp add: digit_char_def)

lemma nat_str_chars: "c \<in> set (nat_str n) \<Longrightarrow> of_char c \<in> {48..57::nat}"
proof (induction n rule: nat_str.induct)
  case (1 n)
  show ?case
  proof (cases "n < 10")
    case True
    with "1.prems" show ?thesis
      by (simp add: nat_str.simps [of n] digit_char_def)
  next
    case False
    with "1.prems" have "c \<in> set (nat_str (n div 10)) \<or> c = digit_char (n mod 10)"
      by (subst (asm) nat_str.simps) auto
    with False "1.IH" show ?thesis
      using is_digit_digit_char [of "n mod 10"] by auto
  qed
qed

lemma nat_str_ne: "nat_str n \<noteq> []"
  by (subst nat_str.simps) simp

lemma length_nat_str: "0 < k \<Longrightarrow> n < 10 ^ k \<Longrightarrow> length (nat_str n) \<le> k"
proof (induction n arbitrary: k rule: nat_str.induct)
  case (1 n)
  show ?case
  proof (cases "n < 10")
    case True
    with "1.prems" show ?thesis by (simp add: nat_str.simps [of n])
  next
    case False
    with "1.prems" obtain j where k: "k = Suc j" and j: "0 < j"
      by (cases k; cases "k - 1") auto
    with "1.prems" have "n div 10 < 10 ^ j" by auto
    with "1.IH" [OF False j] show ?thesis
      using False k by (simp add: nat_str.simps [of n])
  qed
qed

lemma int_str_inject [simp]: "int_str m = int_str n \<longleftrightarrow> m = n"
proof
  assume eq: "int_str m = int_str n"
  have no_minus: "nat_str k \<noteq> CHR ''-'' # s" for k s
    using nat_str_chars [of "CHR ''-''" k] by fastforce
  show "m = n"
    using eq no_minus [THEN not_sym] no_minus
    by (auto simp: int_str_def split: if_splits)
qed simp

lemma int_str_chars: "c \<in> set (int_str n) \<Longrightarrow> c = CHR ''-'' \<or> of_char c \<in> {48..57::nat}"
  using nat_str_chars by (auto simp: int_str_def split: if_splits)

text \<open>Splitting at a separator that the first part does not contain.\<close>

lemma append_sep_inject:
  assumes "xs @ c # r = ys @ c # r'" and "c \<notin> set xs" and "c \<notin> set ys"
  shows "xs = ys \<and> r = r'"
  using assms
proof (induction xs arbitrary: ys)
  case Nil
  then show ?case by (cases ys) auto
next
  case (Cons x xs)
  then show ?case by (cases ys) auto
qed

lemma append_last_sep_inject:
  assumes eq: "r @ c # xs = r' @ c # ys" and "c \<notin> set xs" and "c \<notin> set ys"
  shows "xs = ys \<and> r = r'"
proof -
  from eq have "rev xs @ c # rev r = rev ys @ c # rev r'"
    by (metis append.assoc append_Cons append_Nil rev.simps(2) rev_append)
  with append_sep_inject [of "rev xs" c "rev r" "rev ys" "rev r'"] assms(2,3) show ?thesis by simp
qed

lemma int_str_no_bar: "CHR ''|'' \<notin> set (int_str n)"
proof
  assume "CHR ''|'' \<in> set (int_str n)"
  from int_str_chars [OF this] show False by simp
qed

section \<open>JSON values\<close>

text \<open>
  The values \<open>r.json()\<close> can return. An object is the association list of its (distinct)
  keys; a number with a fraction or exponent is the rational it denotes.
\<close>

datatype json =
    JNull
  | JBool bool
  | JInt int
  | JFloat rat
  | JStr string
  | JArr "json list"
  | JObj "(string \<times> json) list"

fun truthy :: "json \<Rightarrow> bool" where
  "truthy JNull = False"
| "truthy (JBool b) = b"
| "truthy (JInt n) = (n \<noteq> 0)"
| "truthy (JFloat q) = (q \<noteq> 0)"
| "truthy (JStr s) = (s \<noteq> [])"
| "truthy (JArr xs) = (xs \<noteq> [])"
| "truthy (JObj kvs) = (kvs \<noteq> [])"

text \<open>\<open>x or y\<close>\<close>

definition py_or :: "json \<Rightarrow> json \<Rightarrow> json" where
  "py_or x y = (if truthy x then x else y)"

text \<open>\<open>x.get(k, d)\<close>: only a dictionary has the method.\<close>

fun json_get :: "json \<Rightarrow> string \<Rightarrow> json \<Rightarrow> json res" where
  "json_get (JObj kvs) k d = Inr (case map_of kvs k of None \<Rightarrow> d | Some v \<Rightarrow> v)"
| "json_get _ k d = Inl AttributeError"

text \<open>\<open>int(s)\<close>: white space around, an optional sign, digits with single underscores. White space in ASCII:\<close>

definition is_space :: "char \<Rightarrow> bool" where
  "is_space c \<longleftrightarrow> (of_char c :: nat) \<in> {9, 10, 11, 12, 13, 32}"

text \<open>
  \<open>int()\<close> first turns the white space outside ASCII into blanks (U+0085 and U+00A0 in this range)
  and then strips as \<open>isspace\<close> of C does, which does not take the separators 0x1c to 0x1f.
\<close>

definition int_space :: "char \<Rightarrow> bool" where
  "int_space c \<longleftrightarrow> is_space c \<or> (of_char c :: nat) \<in> {133, 160}"

definition strip :: "string \<Rightarrow> string" where
  "strip s = rev (dropWhile int_space (rev (dropWhile int_space s)))"

definition is_digit :: "char \<Rightarrow> bool" where
  "is_digit c \<longleftrightarrow> 48 \<le> (of_char c :: nat) \<and> (of_char c :: nat) \<le> 57"

fun scan_digits :: "bool \<Rightarrow> nat \<Rightarrow> string \<Rightarrow> nat option" where
  "scan_digits after_digit v [] = (if after_digit then Some v else None)"
| "scan_digits after_digit v (c # s) =
     (if is_digit c then scan_digits True (10 * v + digit_value c) s
      else if c = CHR ''_'' \<and> after_digit \<and> s \<noteq> [] then scan_digits False v s
      else None)"

definition parse_int :: "string \<Rightarrow> int option" where
  "parse_int s =
     (case strip s of
        [] \<Rightarrow> None
      | c # cs \<Rightarrow>
          (if c = CHR ''-'' then map_option (\<lambda>n. - int n) (scan_digits False 0 cs)
           else if c = CHR ''+'' then map_option int (scan_digits False 0 cs)
           else map_option int (scan_digits False 0 (c # cs))))"

definition trunc_int :: "rat \<Rightarrow> int" where
  "trunc_int q = (if q < 0 then - \<lfloor>- q\<rfloor> else \<lfloor>q\<rfloor>)"

fun py_int :: "json \<Rightarrow> int res" where
  "py_int (JInt n) = Inr n"
| "py_int (JBool b) = Inr (if b then 1 else 0)"
| "py_int (JFloat q) = Inr (trunc_int q)"
| "py_int (JStr s) =
     (case parse_int s of None \<Rightarrow> Inl (ValueError ''invalid literal for int()'') | Some n \<Rightarrow> Inr n)"
| "py_int _ = Inl TypeError"

text \<open>\<open>x.lower()\<close>: only strings have the method.\<close>

fun json_lower :: "json \<Rightarrow> string res" where
  "json_lower (JStr s) = Inr (lower s)"
| "json_lower _ = Inl AttributeError"

section \<open>Bytes\<close>

type_synonym byte = "8 word"
type_synonym bytes = "byte list"

definition char_byte :: "char \<Rightarrow> byte" where
  "char_byte c = of_char c"

lemma unat_char_byte: "unat (char_byte c) = of_char c"
proof -
  have "unat (of_nat (of_char c) :: byte) = of_char c"
    by (simp add: unat_of_nat del: of_nat_of_char)
  then show ?thesis by (simp add: char_byte_def of_nat_of_char)
qed

lemma char_byte_inject [simp]: "char_byte c = char_byte d \<longleftrightarrow> c = d"
  by (metis unat_char_byte of_char_eq_iff)

lemma inj_char_byte: "inj char_byte"
  by (simp add: inj_def)

definition ascii_encode :: "string \<Rightarrow> bytes res" where
  "ascii_encode s =
     (if \<forall>c \<in> set s. (of_char c :: nat) < 128 then Inr (map char_byte s) else Inl UnicodeEncodeError)"

fun utf8_char :: "char \<Rightarrow> bytes" where
  "utf8_char c =
     (let n = of_char c :: nat
      in if n < 128 then [of_nat n] else [of_nat (192 + n div 64), of_nat (128 + n mod 64)])"

definition utf8_encode :: "string \<Rightarrow> bytes" where
  "utf8_encode s = concat (map utf8_char s)"

lemma utf8_char_cases:
  obtains (one) "utf8_char c = [of_nat (of_char c)]" "(of_char c :: nat) < 128"
  | (two) "utf8_char c = [of_nat (192 + of_char c div 64), of_nat (128 + of_char c mod 64)]"
      "128 \<le> (of_char c :: nat)" "(of_char c :: nat) < 256"
  by (cases "(of_char c :: nat) < 128") (simp_all add: Let_def del: of_nat_of_char)

declare utf8_char.simps [simp del]

lemma length_utf8_encode: "length (utf8_encode s) \<le> 2 * length s"
proof (induction s)
  case (Cons c s)
  have "length (utf8_char c) \<le> 2" by (simp add: utf8_char.simps Let_def)
  with Cons show ?case by (simp add: utf8_encode_def)
qed (simp add: utf8_encode_def)

lemma utf8_char_ne: "utf8_char c \<noteq> []"
  by (cases rule: utf8_char_cases [of c]) simp_all

lemma of_nat_byte_eq:
  assumes "m < 256" and "n < 256"
  shows "(of_nat m :: byte) = of_nat n \<longleftrightarrow> m = n"
proof
  assume "(of_nat m :: byte) = of_nat n"
  then have "unat (of_nat m :: byte) = unat (of_nat n :: byte)" by simp
  with assms show "m = n" by (simp add: unat_of_nat)
qed simp

lemma byte_bounds:
  assumes "x < 256"
  shows "192 + x div 64 < 256 \<and> 128 + x mod 64 < (256::nat)"
proof -
  have "x div 64 < 4" by (rule less_mult_imp_div_less) (use assms in simp)
  moreover have "x mod 64 < 64" by simp
  ultimately show ?thesis by linarith
qed

text \<open>Two characters whose encodings start a common byte sequence are equal.\<close>

lemma utf8_char_prefix:
  assumes eq: "utf8_char c @ xs = utf8_char d @ ys"
  shows "c = d \<and> xs = ys"
proof -
  have b1: "(of_char e :: nat) < 256" for e by (rule nat_of_char_less_256)
  have b2: "192 + (of_char e :: nat) div 64 < 256" for e
    using byte_bounds [OF b1] by (rule conjunct1)
  have b3: "128 + (of_char e :: nat) mod 64 < 256" for e
    using byte_bounds [OF b1] by (rule conjunct2)
  note bounds = b1 b2 b3
  show ?thesis
  proof (cases rule: utf8_char_cases [of c]; cases rule: utf8_char_cases [of d])
    assume "utf8_char c = [of_nat (of_char c)]" "utf8_char d = [of_nat (of_char d)]"
    with eq bounds show ?thesis by (simp add: of_nat_byte_eq del: of_nat_of_char)
  next
    assume c: "utf8_char c = [of_nat (of_char c)]" "(of_char c :: nat) < 128"
      and d: "utf8_char d = [of_nat (192 + of_char d div 64), of_nat (128 + of_char d mod 64)]"
    from eq c d have "(of_nat (of_char c) :: byte) = of_nat (192 + of_char d div 64)" by simp
    then have "(of_char c :: nat) = 192 + of_char d div 64"
      using bounds by (subst (asm) of_nat_byte_eq) simp_all
    with c show ?thesis by simp
  next
    assume d: "utf8_char d = [of_nat (of_char d)]" "(of_char d :: nat) < 128"
      and c: "utf8_char c = [of_nat (192 + of_char c div 64), of_nat (128 + of_char c mod 64)]"
    from eq c d have "(of_nat (of_char d) :: byte) = of_nat (192 + of_char c div 64)" by simp
    then have "(of_char d :: nat) = 192 + of_char c div 64"
      using bounds by (subst (asm) of_nat_byte_eq) simp_all
    with d show ?thesis by simp
  next
    assume c: "utf8_char c = [of_nat (192 + of_char c div 64), of_nat (128 + of_char c mod 64)]"
      and d: "utf8_char d = [of_nat (192 + of_char d div 64), of_nat (128 + of_char d mod 64)]"
    from eq c d have "(of_nat (192 + of_char c div 64) :: byte) = of_nat (192 + of_char d div 64)"
      "(of_nat (128 + of_char c mod 64) :: byte) = of_nat (128 + of_char d mod 64)" "xs = ys"
      by simp_all
    then have "(of_char c :: nat) div 64 = of_char d div 64" "(of_char c :: nat) mod 64 = of_char d mod 64"
      using bounds of_nat_byte_eq by (metis add_left_cancel)+
    then have "(of_char c :: nat) = of_char d" by (metis div_mult_mod_eq)
    with \<open>xs = ys\<close> show ?thesis by simp
  qed
qed

lemma utf8_encode_inject [simp]: "utf8_encode s = utf8_encode s' \<longleftrightarrow> s = s'"
proof
  show "utf8_encode s = utf8_encode s' \<Longrightarrow> s = s'"
  proof (induction s arbitrary: s')
    case Nil
    then show ?case by (cases s') (simp_all add: utf8_encode_def utf8_char_ne)
  next
    case (Cons c s)
    then obtain d r where s': "s' = d # r"
      by (cases s') (simp_all add: utf8_encode_def utf8_char_ne)
    with Cons.prems have "utf8_char c @ utf8_encode s = utf8_char d @ utf8_encode r"
      by (simp add: utf8_encode_def)
    then have "c = d \<and> utf8_encode s = utf8_encode r" by (rule utf8_char_prefix)
    with Cons.IH s' show ?case by simp
  qed
qed simp

text \<open>\<open>b.hex()\<close> and \<open>bytes.fromhex(s)\<close>, which skips white space between the pairs.\<close>

definition hex_digit :: "nat \<Rightarrow> char" where
  "hex_digit d = (if d < 10 then char_of (48 + d) else char_of (87 + d))"

definition hex :: "bytes \<Rightarrow> string" where
  "hex bs = concat (map (\<lambda>b. [hex_digit (unat b div 16), hex_digit (unat b mod 16)]) bs)"

definition hex_value :: "char \<Rightarrow> nat option" where
  "hex_value c =
     (let n = of_char c :: nat
      in if 48 \<le> n \<and> n \<le> 57 then Some (n - 48)
         else if 97 \<le> n \<and> n \<le> 102 then Some (n - 87)
         else if 65 \<le> n \<and> n \<le> 70 then Some (n - 55)
         else None)"

fun from_hex :: "string \<Rightarrow> bytes option" where
  "from_hex [] = Some []"
| "from_hex (c # s) =
     (if is_space c then from_hex s
      else case s of
          [] \<Rightarrow> None
        | d # r \<Rightarrow>
            (case (hex_value c, hex_value d) of
               (Some h, Some l) \<Rightarrow> map_option (\<lambda>bs. of_nat (16 * h + l) # bs) (from_hex r)
             | _ \<Rightarrow> None))"

lemma hex_value_hex_digit: "d < 16 \<Longrightarrow> hex_value (hex_digit d) = Some d"
  by (auto simp: hex_value_def hex_digit_def Let_def)

lemma hex_chars: "c \<in> set (hex bs) \<Longrightarrow> hex_value c \<noteq> None"
proof (induction bs)
  case (Cons b bs)
  have "unat b < 256" using unsigned_less [of b] by simp
  then have "unat b div 16 < 16" "unat b mod 16 < 16" by auto
  with Cons show ?case by (auto simp: hex_def hex_value_hex_digit)
qed (simp add: hex_def)

lemma is_space_hex_digit: "d < 16 \<Longrightarrow> \<not> is_space (hex_digit d)"
  by (auto simp: is_space_def hex_digit_def)

lemma from_hex_hex: "from_hex (hex bs) = Some bs"
proof (induction bs)
  case Nil
  then show ?case by (simp add: hex_def)
next
  case (Cons b bs)
  have "unat b < 256" using unsigned_less [of b] by simp
  then have "unat b div 16 < 16" "unat b mod 16 < 16" by auto
  moreover have "of_nat (16 * (unat b div 16) + unat b mod 16) = b"
    by (simp only: mult_div_mod_eq) simp
  ultimately show ?case
    using Cons by (simp add: hex_def hex_value_hex_digit is_space_hex_digit)
qed

lemma length_hex: "length (hex bs) = 2 * length bs"
  by (induction bs) (simp_all add: hex_def)

end
