(* ===== verification/Tables.thy ===== *)
theory Tables
  imports Prelude
begin

text \<open>
  A database table is the list of its rows in insertion order. This theory holds the
  operations the object-relational mapper performs on one table (look a row up by primary
  key, write a changed row back, insert a new one), their laws as a locale, and the sums and
  key lists the invariants of the components are about.
\<close>

section \<open>Rows by key\<close>

definition row_get :: "('r \<Rightarrow> 'k) \<Rightarrow> 'r list \<Rightarrow> 'k \<Rightarrow> 'r option" where
  "row_get key rows k = List.find (\<lambda>r. key r = k) rows"

definition row_put :: "('r \<Rightarrow> 'k) \<Rightarrow> 'r \<Rightarrow> 'r list \<Rightarrow> 'r list" where
  "row_put key r rows = map (\<lambda>x. if key x = key r then r else x) rows"

definition row_insert :: "'r \<Rightarrow> 'r list \<Rightarrow> 'r list" where
  "row_insert r rows = rows @ [r]"

lemma row_get_Nil [simp]: "row_get key [] k = None"
  by (simp add: row_get_def)

lemma row_get_Cons: "row_get key (r # rows) k = (if key r = k then Some r else row_get key rows k)"
  by (simp add: row_get_def)

lemma row_put_Nil [simp]: "row_put key r [] = []"
  by (simp add: row_put_def)

lemma row_put_Cons [simp]:
  "row_put key r (x # rows) = (if key x = key r then r else x) # row_put key r rows"
  by (simp add: row_put_def)

lemma row_get_Some: "row_get key rows k = Some r \<Longrightarrow> key r = k \<and> r \<in> set rows"
  by (auto simp: row_get_def find_Some_iff)

lemma row_get_key: "row_get key rows k = Some r \<Longrightarrow> key r = k"
  and row_get_mem: "row_get key rows k = Some r \<Longrightarrow> r \<in> set rows"
  by (auto dest: row_get_Some)

lemma row_get_None_iff: "row_get key rows k = None \<longleftrightarrow> k \<notin> key ` set rows"
  by (auto simp: row_get_def find_None_iff)

lemma row_get_unique:
  "distinct (map key rows) \<Longrightarrow> r \<in> set rows \<Longrightarrow> row_get key rows (key r) = Some r"
  by (induction rows) (auto simp: row_get_Cons image_iff)

lemma row_get_put:
  "row_get key (row_put key r rows) k =
     (if k = key r then map_option (\<lambda>_. r) (row_get key rows k) else row_get key rows k)"
  by (induction rows) (auto simp: row_get_Cons)

lemma row_get_append:
  "row_get key (xs @ ys) k = (case row_get key xs k of None \<Rightarrow> row_get key ys k | Some r \<Rightarrow> Some r)"
  by (induction xs) (auto simp: row_get_Cons)

lemma row_get_insert:
  "row_get key (row_insert r rows) k =
     (case row_get key rows k of None \<Rightarrow> (if key r = k then Some r else None) | Some x \<Rightarrow> Some x)"
  by (simp add: row_insert_def row_get_append row_get_Cons split: option.split)

lemma map_key_put [simp]: "map key (row_put key r rows) = map key rows"
  by (induction rows) auto

lemma keys_put [simp]: "key ` set (row_put key r rows) = key ` set rows"
  by (metis map_key_put set_map)

lemma map_key_insert [simp]: "map key (row_insert r rows) = map key rows @ [key r]"
  by (simp add: row_insert_def)

lemma set_row_insert [simp]: "set (row_insert r rows) = insert r (set rows)"
  by (auto simp: row_insert_def)

lemma length_put [simp]: "length (row_put key r rows) = length rows"
  by (simp add: row_put_def)

lemma set_row_put: "x \<in> set (row_put key r rows) \<Longrightarrow> x = r \<or> (x \<in> set rows \<and> key x \<noteq> key r)"
  by (auto simp: row_put_def split: if_splits)

lemma ball_row_put:
  "(\<forall>x \<in> set rows. P x) \<Longrightarrow> P r \<Longrightarrow> \<forall>x \<in> set (row_put key r rows). P x"
  by (auto dest: set_row_put)

lemma row_put_mem: "row_get key rows (key r) = Some r0 \<Longrightarrow> r \<in> set (row_put key r rows)"
  by (auto simp: row_put_def dest: row_get_Some)

lemma row_put_other: "x \<in> set rows \<Longrightarrow> key x \<noteq> key r \<Longrightarrow> x \<in> set (row_put key r rows)"
  by (auto simp: row_put_def)

section \<open>Sums over a table\<close>

lemma row_put_absent: "key r \<notin> key ` set rows \<Longrightarrow> row_put key r rows = rows"
  by (induction rows) auto

text \<open>Writing one row back changes a sum by the difference of that row.\<close>

lemma sum_row_put:
  fixes f :: "'r \<Rightarrow> int"
  assumes "distinct (map key rows)" and "row_get key rows (key r) = Some r0"
  shows "sum_list (map f (row_put key r rows)) = sum_list (map f rows) - f r0 + f r"
  using assms
proof (induction rows)
  case Nil
  then show ?case by simp
next
  case (Cons x rows)
  show ?case
  proof (cases "key x = key r")
    case True
    with Cons.prems have "key r \<notin> key ` set rows" and "x = r0"
      by (auto simp: row_get_Cons)
    with True show ?thesis by (simp add: row_put_absent)
  next
    case False
    with Cons show ?thesis by (simp add: row_get_Cons)
  qed
qed

lemma sum_row_insert [simp]:
  fixes f :: "'r \<Rightarrow> int"
  shows "sum_list (map f (row_insert r rows)) = sum_list (map f rows) + f r"
  by (simp add: row_insert_def)

lemma sum_list_map_nonneg:
  fixes f :: "'r \<Rightarrow> int"
  shows "(\<And>x. x \<in> set xs \<Longrightarrow> 0 \<le> f x) \<Longrightarrow> 0 \<le> sum_list (map f xs)"
  by (induction xs) auto

lemma member_le_sum_list_int:
  fixes f :: "'r \<Rightarrow> int"
  assumes "x \<in> set xs" and "\<And>y. y \<in> set xs \<Longrightarrow> 0 \<le> f y"
  shows "f x \<le> sum_list (map f xs)"
  using assms
proof (induction xs)
  case Nil
  then show ?case by simp
next
  case (Cons y ys)
  have "0 \<le> sum_list (map f ys)" and "0 \<le> f y"
    using Cons.prems by (auto intro: sum_list_map_nonneg)
  with Cons show ?case by fastforce
qed

section \<open>The interface of a keyed table\<close>

text \<open>
  What the components rely on when they read a row with \<open>session.get\<close>, change it and have it
  written back: the row read has the key asked for; a write is seen by the next read of that
  key and by no other; it creates and deletes no row.
\<close>

locale keyed_table =
  fixes key :: "'r \<Rightarrow> 'k"
    and get :: "'s \<Rightarrow> 'k \<Rightarrow> 'r option"
    and put :: "'r \<Rightarrow> 's \<Rightarrow> 's"
    and rows :: "'s \<Rightarrow> 'r list"
  assumes get_key: "get s k = Some r \<Longrightarrow> key r = k"
    and get_mem: "get s k = Some r \<Longrightarrow> r \<in> set (rows s)"
    and get_put: "get (put r s) k = (if k = key r then map_option (\<lambda>_. r) (get s k) else get s k)"
    and keys_after_put: "map key (rows (put r s)) = map key (rows s)"
    and mem_put: "x \<in> set (rows (put r s)) \<Longrightarrow> x = r \<or> x \<in> set (rows s)"
begin

lemma get_put_same: "get s (key r) = Some r0 \<Longrightarrow> get (put r s) (key r) = Some r"
  by (simp add: get_put)

lemma get_put_other: "k \<noteq> key r \<Longrightarrow> get (put r s) k = get s k"
  by (simp add: get_put)

lemma put_keeps_all:
  assumes "\<forall>x \<in> set (rows s). P x" and "P r"
  shows "\<forall>x \<in> set (rows (put r s)). P x"
  using assms mem_put by blast

lemma put_keeps_distinct:
  "distinct (map key (rows s)) \<Longrightarrow> distinct (map key (rows (put r s)))"
  by (simp add: keys_after_put)

text \<open>A read-modify-write: the row read at \<open>k\<close> is replaced by \<open>f\<close> of it.\<close>

lemma update_get:
  assumes "get s k = Some r" and "key (f r) = k"
  shows "get (put (f r) s) k' = (if k' = k then Some (f r) else get s k')"
  using assms by (simp add: get_put)

lemma put_put_get: "get (put r (put r' s)) k = (if key r = key r' then get (put r s) k
     else get (put r' (put r s)) k)"
  by (cases "get s k") (auto simp: get_put)

end

end
