(* ===== verification/Models.thy ===== *)
theory Models
  imports PyValues Tables
begin

text \<open>
  \<open>src/db/models.py\<close> and \<open>src/db/session.py\<close>: the rows of the tables with their column
  types and constraints, the database they make up, and the session through which every
  component reads and writes it: pending changes, flush with the constraints checked, commit
  and rollback.
\<close>

section \<open>Column types\<close>

type_synonym time = rat

definition big_integer :: "int \<Rightarrow> bool" where
  "big_integer n \<longleftrightarrow> - (2 ^ 63) \<le> n \<and> n < 2 ^ 63"

definition sql_integer :: "int \<Rightarrow> bool" where
  "sql_integer n \<longleftrightarrow> - (2 ^ 31) \<le> n \<and> n < 2 ^ 31"

text \<open>PostgreSQL keeps no text with the code point 0: a parameter that has one is refused.\<close>

definition sql_text :: "string \<Rightarrow> bool" where
  "sql_text s \<longleftrightarrow> CHR 0x00 \<notin> set s"

definition varchar :: "nat \<Rightarrow> string \<Rightarrow> bool" where
  "varchar n s \<longleftrightarrow> length s \<le> n \<and> sql_text s"

lemma sql_text_simps [simp]:
  "sql_text []" "sql_text (c # s) \<longleftrightarrow> c \<noteq> CHR 0x00 \<and> sql_text s"
  "sql_text (s @ t) \<longleftrightarrow> sql_text s \<and> sql_text t"
  by (auto simp: sql_text_def)

lemma sql_text_int_str [simp]: "sql_text (int_str n)"
  using int_str_chars by (fastforce simp: sql_text_def)

lemma sql_text_hex [simp]: "sql_text (hex bs)"
  using hex_chars [of "CHR 0x00" bs] by (auto simp: sql_text_def hex_value_def)

definition nullable :: "('a \<Rightarrow> bool) \<Rightarrow> 'a option \<Rightarrow> bool" where
  "nullable P x = (case x of None \<Rightarrow> True | Some a \<Rightarrow> P a)"

lemma nullable_simps [simp]: "nullable P None" "nullable P (Some a) = P a"
  by (simp_all add: nullable_def)

section \<open>Rows\<close>

record WatcherState =
  last_processed_height :: int
  snapshot_complete :: bool
  snapshot_started_at :: "time option"
  snapshot_finished_at :: "time option"

record Staker =
  staker_address :: string
  staked_amount :: int
  tier :: string
  first_stake_height :: "int option"
  last_activity_height :: "int option"

record StakeEvent =
  event_address :: string
  event_type :: string
  event_amount :: int
  event_block_height :: int
  event_tx_hash :: "string option"
  event_note :: "string option"

datatype unstake_status = PENDING | READY | COMPLETED | CANCELLED

record UnstakeRequest =
  request_id :: int
  request_address :: string
  request_amount :: int
  request_height :: int
  unlock_height :: int
  request_status :: unstake_status
  refund_tx_hash :: "string option"
  completed_height :: "int option"

datatype payout_state = QUEUED | SIGNING | SUBMITTED | CONFIRMED | FAILED

record PendingPayout =
  payout_id :: int
  recipient :: string
  payout_amount :: int
  payout_kind :: string
  payout_status :: payout_state
  payout_ref :: string
  payout_tx_hash :: "string option"
  submitted_height :: "int option"
  confirmed_height :: "int option"
  error_message :: "string option"
  attempts :: int
  payout_created_at :: time

record ValidatorReward =
  reward_address :: string
  pending_rewards :: int
  total_claimed :: int
  last_credited_height :: "int option"
  last_claimed_height :: "int option"

record RewardPoolInflow =
  inflow_block_height :: int
  inflow_amount :: int
  distributed_to_count :: int
  dust_remaining :: int

text \<open>The column types of each table: what a flush checks of a row before it is stored.\<close>

definition staker_columns :: "Staker \<Rightarrow> bool" where
  "staker_columns r \<longleftrightarrow> varchar 64 (staker_address r) \<and> big_integer (staked_amount r) \<and>
     varchar 16 (tier r) \<and> nullable big_integer (first_stake_height r) \<and>
     nullable big_integer (last_activity_height r)"

definition event_columns :: "StakeEvent \<Rightarrow> bool" where
  "event_columns r \<longleftrightarrow> varchar 64 (event_address r) \<and> varchar 32 (event_type r) \<and>
     big_integer (event_amount r) \<and> big_integer (event_block_height r) \<and>
     nullable (varchar 128) (event_tx_hash r) \<and> nullable (varchar 256) (event_note r)"

definition request_columns :: "UnstakeRequest \<Rightarrow> bool" where
  "request_columns r \<longleftrightarrow> big_integer (request_id r) \<and> varchar 64 (request_address r) \<and>
     big_integer (request_amount r) \<and> big_integer (request_height r) \<and>
     big_integer (unlock_height r) \<and> nullable (varchar 128) (refund_tx_hash r) \<and>
     nullable big_integer (completed_height r)"

definition payout_columns :: "PendingPayout \<Rightarrow> bool" where
  "payout_columns r \<longleftrightarrow> big_integer (payout_id r) \<and> varchar 64 (recipient r) \<and>
     big_integer (payout_amount r) \<and> varchar 32 (payout_kind r) \<and> varchar 128 (payout_ref r) \<and>
     nullable (varchar 128) (payout_tx_hash r) \<and> nullable (varchar 512) (error_message r) \<and>
     sql_integer (attempts r)"

definition reward_columns :: "ValidatorReward \<Rightarrow> bool" where
  "reward_columns r \<longleftrightarrow> varchar 64 (reward_address r) \<and> big_integer (pending_rewards r) \<and>
     big_integer (total_claimed r) \<and> nullable big_integer (last_credited_height r) \<and>
     nullable big_integer (last_claimed_height r)"

definition inflow_columns :: "RewardPoolInflow \<Rightarrow> bool" where
  "inflow_columns r \<longleftrightarrow> big_integer (inflow_block_height r) \<and> big_integer (inflow_amount r) \<and>
     sql_integer (distributed_to_count r) \<and> big_integer (dust_remaining r)"

lemmas columns_defs = staker_columns_def event_columns_def request_columns_def
  payout_columns_def reward_columns_def inflow_columns_def

section \<open>The database\<close>

text \<open>
  One list of rows per table, and the next value of the two identity sequences whose ids are
  used outside their row. \<open>watcher\<close> is the row of \<open>watcher_state\<close> with id 1.
\<close>

record db =
  watcher :: "WatcherState option"
  stakers :: "Staker list"
  stake_events :: "StakeEvent list"
  unstake_requests :: "UnstakeRequest list"
  pending_payouts :: "PendingPayout list"
  validator_rewards :: "ValidatorReward list"
  reward_pool_inflows :: "RewardPoolInflow list"
  next_request_id :: int
  next_payout_id :: int

definition empty_db :: db where
  "empty_db = \<lparr>watcher = None, stakers = [], stake_events = [], unstake_requests = [],
     pending_payouts = [], validator_rewards = [], reward_pool_inflows = [],
     next_request_id = 1, next_payout_id = 1\<rparr>"

definition get_staker :: "db \<Rightarrow> string \<Rightarrow> Staker option" where
  "get_staker d a = row_get staker_address (stakers d) a"

definition put_staker :: "Staker \<Rightarrow> db \<Rightarrow> db" where
  "put_staker r d = d\<lparr>stakers := row_put staker_address r (stakers d)\<rparr>"

definition get_request :: "db \<Rightarrow> int \<Rightarrow> UnstakeRequest option" where
  "get_request d i = row_get request_id (unstake_requests d) i"

definition put_request :: "UnstakeRequest \<Rightarrow> db \<Rightarrow> db" where
  "put_request r d = d\<lparr>unstake_requests := row_put request_id r (unstake_requests d)\<rparr>"

definition get_payout :: "db \<Rightarrow> int \<Rightarrow> PendingPayout option" where
  "get_payout d i = row_get payout_id (pending_payouts d) i"

definition put_payout :: "PendingPayout \<Rightarrow> db \<Rightarrow> db" where
  "put_payout r d = d\<lparr>pending_payouts := row_put payout_id r (pending_payouts d)\<rparr>"

definition get_reward :: "db \<Rightarrow> string \<Rightarrow> ValidatorReward option" where
  "get_reward d a = row_get reward_address (validator_rewards d) a"

definition put_reward :: "ValidatorReward \<Rightarrow> db \<Rightarrow> db" where
  "put_reward r d = d\<lparr>validator_rewards := row_put reward_address r (validator_rewards d)\<rparr>"

interpretation staker_table: keyed_table staker_address get_staker put_staker stakers
  by unfold_locales
    (auto simp: get_staker_def put_staker_def row_get_put dest: row_get_Some set_row_put)

interpretation request_table: keyed_table request_id get_request put_request unstake_requests
  by unfold_locales
    (auto simp: get_request_def put_request_def row_get_put dest: row_get_Some set_row_put)

interpretation payout_table: keyed_table payout_id get_payout put_payout pending_payouts
  by unfold_locales
    (auto simp: get_payout_def put_payout_def row_get_put dest: row_get_Some set_row_put)

interpretation reward_table: keyed_table reward_address get_reward put_reward validator_rewards
  by unfold_locales
    (auto simp: get_reward_def put_reward_def row_get_put dest: row_get_Some set_row_put)

text \<open>The unique key \<open>uq_stake_event_tx\<close>; a null \<open>tx_hash\<close> never clashes.\<close>

definition event_key :: "StakeEvent \<Rightarrow> string \<times> string option \<times> string" where
  "event_key e = (event_address e, event_tx_hash e, event_type e)"

definition event_clash :: "StakeEvent \<Rightarrow> db \<Rightarrow> bool" where
  "event_clash e d \<longleftrightarrow> event_tx_hash e \<noteq> None \<and> event_key e \<in> event_key ` set (stake_events d)"

section \<open>Sessions\<close>

text \<open>
  A session sees the database with its own pending changes (\<open>working\<close>); the other sessions
  see \<open>committed\<close>. A rollback drops the pending changes and expires every object loaded
  before it: \<open>epoch\<close> counts rollbacks, and reading an attribute of an object of an earlier
  epoch raises. Identity sequences are not rolled back.
\<close>

record session =
  committed :: db
  working :: db
  epoch :: nat
  clock :: time

definition begin_session :: "time \<Rightarrow> db \<Rightarrow> session" where
  "begin_session t d = \<lparr>committed = d, working = d, epoch = 0, clock = t\<rparr>"

lemma begin_session_fields [simp]:
  "committed (begin_session t d) = d" "working (begin_session t d) = d"
  "epoch (begin_session t d) = 0" "clock (begin_session t d) = t"
  by (simp_all add: begin_session_def)

definition keep_sequences :: "db \<Rightarrow> db \<Rightarrow> db" where
  "keep_sequences w c =
     c\<lparr>next_request_id := next_request_id w, next_payout_id := next_payout_id w\<rparr>"

definition commit :: "(session, unit) exec" where
  "commit = modify (\<lambda>s. s\<lparr>committed := working s\<rparr>)"

definition rolled_back :: "session \<Rightarrow> session" where
  "rolled_back s = s\<lparr>working := keep_sequences (working s) (committed s),
     committed := keep_sequences (working s) (committed s), epoch := Suc (epoch s)\<rparr>"

definition rollback :: "(session, unit) exec" where
  "rollback = modify rolled_back"

lemma rolled_back_idem: "working (rolled_back (rolled_back s)) = working (rolled_back s)"
  "committed (rolled_back (rolled_back s)) = committed (rolled_back s)"
  by (simp_all add: rolled_back_def keep_sequences_def)

definition loaded_attribute :: "nat \<Rightarrow> (session, unit) exec" where
  "loaded_attribute ep = bind (gets epoch) (\<lambda>e. raise_unless (e = ep) MissingGreenlet)"

definition update_db :: "(db \<Rightarrow> db) \<Rightarrow> (session, unit) exec" where
  "update_db f = modify (\<lambda>s. s\<lparr>working := f (working s)\<rparr>)"

text \<open>
  \<open>session_scope\<close>: commit after the body, roll back and re-raise on an exception. The result
  is the body's and the database the next session sees.
\<close>

definition session_scope :: "(session, 'a) exec \<Rightarrow> time \<Rightarrow> db \<Rightarrow> 'a res \<times> db" where
  "session_scope body t d =
     (case bind body (\<lambda>a. andthen commit (return a)) (begin_session t d) of
        (Inl e, s) \<Rightarrow> (Inl e, committed (rolled_back s))
      | (Inr a, s) \<Rightarrow> (Inr a, committed s))"

text \<open>\<open>get_session\<close>: the handler commits itself; closing the session drops what it did not.\<close>

definition get_session :: "(session, 'a) exec \<Rightarrow> time \<Rightarrow> db \<Rightarrow> 'a res \<times> db" where
  "get_session handler t d =
     (case handler (begin_session t d) of (r, s) \<Rightarrow> (r, committed (rolled_back s)))"

text \<open>
  A flush that fails rolls the transaction back before it raises. Writing rows: the column
  types are checked, then the table's unique keys.
\<close>

definition flush_unless :: "bool \<Rightarrow> py_error \<Rightarrow> (session, unit) exec" where
  "flush_unless ok e = (if ok then return () else andthen rollback (raise e))"

lemma flush_unless_exec: "flush_unless ok e s = (if ok then (Inr (), s) else (Inl e, rolled_back s))"
  by (simp add: flush_unless_def rollback_def exec_run)

lemma bind_flush_unless:
  "bind (flush_unless ok e) f s = (if ok then f () s else (Inl e, rolled_back s))"
  by (simp add: bind_def flush_unless_exec)

definition write_staker :: "Staker \<Rightarrow> (session, unit) exec" where
  "write_staker r =
     andthen (flush_unless (staker_columns r) DataError) (update_db (put_staker r))"

definition insert_staker :: "Staker \<Rightarrow> (session, unit) exec" where
  "insert_staker r =
     andthen (flush_unless (staker_columns r) DataError)
    (bind (gets (\<lambda>s. get_staker (working s) (staker_address r))) (\<lambda>old.
     andthen (flush_unless (old = None) IntegrityError)
             (update_db (\<lambda>d. d\<lparr>stakers := row_insert r (stakers d)\<rparr>))))"

definition insert_event :: "StakeEvent \<Rightarrow> (session, unit) exec" where
  "insert_event r =
     andthen (flush_unless (event_columns r) DataError)
    (bind (gets (\<lambda>s. event_clash r (working s))) (\<lambda>clash.
     andthen (flush_unless (\<not> clash) IntegrityError)
             (update_db (\<lambda>d. d\<lparr>stake_events := row_insert r (stake_events d)\<rparr>))))"

definition write_request :: "UnstakeRequest \<Rightarrow> (session, unit) exec" where
  "write_request r =
     andthen (flush_unless (request_columns r) DataError) (update_db (put_request r))"

definition insert_request :: "(int \<Rightarrow> UnstakeRequest) \<Rightarrow> (session, UnstakeRequest) exec" where
  "insert_request mk =
     bind (gets (\<lambda>s. mk (next_request_id (working s)))) (\<lambda>r.
     andthen (flush_unless (request_columns r) DataError)
    (andthen (update_db (\<lambda>d. d\<lparr>unstake_requests := row_insert r (unstake_requests d),
                               next_request_id := next_request_id d + 1\<rparr>))
             (return r)))"

definition write_payout :: "PendingPayout \<Rightarrow> (session, unit) exec" where
  "write_payout r =
     andthen (flush_unless (payout_columns r) DataError) (update_db (put_payout r))"

text \<open>A clash on \<open>ref\<close> is found by the server, after the sequence has given out an id.\<close>

definition insert_payout :: "(int \<Rightarrow> PendingPayout) \<Rightarrow> (session, PendingPayout) exec" where
  "insert_payout mk =
     bind (gets (\<lambda>s. mk (next_payout_id (working s)))) (\<lambda>r.
     andthen (flush_unless (payout_columns r) DataError)
    (andthen (update_db (\<lambda>d. d\<lparr>next_payout_id := next_payout_id d + 1\<rparr>))
    (bind (gets (\<lambda>s. row_get payout_ref (pending_payouts (working s)) (payout_ref r))) (\<lambda>old.
     andthen (flush_unless (old = None) IntegrityError)
    (andthen (update_db (\<lambda>d. d\<lparr>pending_payouts := row_insert r (pending_payouts d)\<rparr>))
             (return r))))))"

definition write_reward :: "ValidatorReward \<Rightarrow> (session, unit) exec" where
  "write_reward r =
     andthen (flush_unless (reward_columns r) DataError) (update_db (put_reward r))"

definition insert_reward :: "ValidatorReward \<Rightarrow> (session, unit) exec" where
  "insert_reward r =
     andthen (flush_unless (reward_columns r) DataError)
    (bind (gets (\<lambda>s. get_reward (working s) (reward_address r))) (\<lambda>old.
     andthen (flush_unless (old = None) IntegrityError)
             (update_db (\<lambda>d. d\<lparr>validator_rewards := row_insert r (validator_rewards d)\<rparr>))))"

definition insert_inflow :: "RewardPoolInflow \<Rightarrow> (session, unit) exec" where
  "insert_inflow r =
     andthen (flush_unless (inflow_columns r) DataError)
    (bind (gets (\<lambda>s. row_get inflow_block_height (reward_pool_inflows (working s))
                      (inflow_block_height r))) (\<lambda>old.
     andthen (flush_unless (old = None) IntegrityError)
             (update_db (\<lambda>d. d\<lparr>reward_pool_inflows := row_insert r (reward_pool_inflows d)\<rparr>))))"

lemmas session_defs = commit_def rollback_def loaded_attribute_def update_db_def
  write_staker_def insert_staker_def insert_event_def write_request_def insert_request_def
  write_payout_def insert_payout_def write_reward_def insert_reward_def insert_inflow_def

end
