(* ===== verification/Migrations.thy ===== *)
theory Migrations
  imports PyValues
begin

text \<open>
  \<open>src/migrations.py\<close>: the table of address migrations and \<open>canonicalize\<close>, which resolves
  any address read from the chain to its current form.
\<close>

definition ADDRESS_MIGRATIONS :: "(string \<times> string) list" where
  "ADDRESS_MIGRATIONS =
    [(''NPC7b9c59d7'', ''NPCd1dc48f99a3ee0afb0c6187b90034f1a657cac35''),
     (''NPCc88de245a93687d360e86f398babee49b3ab416d'', ''NPCd1dc48f99a3ee0afb0c6187b90034f1a657cac35''),
     (''NPC5e5c9828'', ''NPC22647be6''),
     (''NPC5a4fd8bd'', ''NPCe38925ff''),
     (''NPC166ed712'', ''NPCe4c1bc79''),
     (''NPC786f678a'', ''NPCe785e36d'')]"

text \<open>The loop over \<open>ADDRESS_MIGRATIONS.items()\<close>: the first key that is a prefix decides.\<close>

fun prefix_match :: "(string \<times> string) list \<Rightarrow> string \<Rightarrow> string option" where
  "prefix_match [] addr = None"
| "prefix_match ((old_prefix, new_addr) # rest) addr =
     (if startswith addr old_prefix then Some new_addr else prefix_match rest addr)"

definition canonicalize :: "string \<Rightarrow> string" where
  "canonicalize addr =
     (if addr = [] then addr
      else case map_of ADDRESS_MIGRATIONS addr of
          Some new_addr \<Rightarrow> new_addr
        | None \<Rightarrow>
            (case prefix_match ADDRESS_MIGRATIONS addr of
               Some new_addr \<Rightarrow> new_addr
             | None \<Rightarrow> addr))"

text \<open>
  The ledger applies \<open>canonicalize\<close> to whatever JSON value a transaction holds: a falsy value
  is returned as it is, a string is resolved; a truthy list or object is not hashable and any
  other value has no \<open>startswith\<close>.
\<close>

fun canonicalize_value :: "json \<Rightarrow> json res" where
  "canonicalize_value v =
     (if \<not> truthy v then Inr v
      else case v of
          JStr s \<Rightarrow> Inr (JStr (canonicalize s))
        | JArr _ \<Rightarrow> Inl TypeError
        | JObj _ \<Rightarrow> Inl TypeError
        | _ \<Rightarrow> Inl AttributeError)"

section \<open>Facts about the table\<close>

lemma prefix_match_Some:
  "prefix_match m addr = Some new \<Longrightarrow> \<exists>old. (old, new) \<in> set m \<and> startswith addr old"
  by (induction m addr rule: prefix_match.induct) (auto split: if_splits)

lemma prefix_match_None:
  "prefix_match m addr = None \<longleftrightarrow> (\<forall>(old, new) \<in> set m. \<not> startswith addr old)"
  by (induction m addr rule: prefix_match.induct) auto

lemma map_of_is_prefix_match:
  assumes "map_of m addr = Some new"
  shows "prefix_match m addr \<noteq> None"
proof
  assume "prefix_match m addr = None"
  then have "\<not> startswith addr addr"
    using map_of_SomeD [OF assms] prefix_match_None [of m addr] by auto
  then show False by (simp add: startswith_def)
qed

definition migration_targets :: "string list" where
  "migration_targets = map snd ADDRESS_MIGRATIONS"

lemma target_cases:
  "t \<in> set migration_targets \<Longrightarrow>
   t = ''NPCd1dc48f99a3ee0afb0c6187b90034f1a657cac35'' \<or> t = ''NPC22647be6'' \<or>
   t = ''NPCe38925ff'' \<or> t = ''NPCe4c1bc79'' \<or> t = ''NPCe785e36d''"
  by (auto simp: migration_targets_def ADDRESS_MIGRATIONS_def)

text \<open>No target is itself an address that migrates: the multi-hop entries are flattened.\<close>

lemma targets_are_final:
  assumes "t \<in> set migration_targets"
  shows "prefix_match ADDRESS_MIGRATIONS t = None"
proof -
  have "list_all (\<lambda>t. prefix_match ADDRESS_MIGRATIONS t = None) migration_targets"
    by (simp add: migration_targets_def ADDRESS_MIGRATIONS_def startswith_def)
  with assms show ?thesis by (simp add: list_all_iff)
qed

lemma canonicalize_Some_cases:
  "canonicalize addr = addr \<or> canonicalize addr \<in> set migration_targets"
proof (cases "map_of ADDRESS_MIGRATIONS addr")
  case (Some new)
  then show ?thesis
    by (force simp: canonicalize_def migration_targets_def dest: map_of_SomeD)
next
  case None
  then show ?thesis
    by (force simp: canonicalize_def migration_targets_def dest: prefix_match_Some
        split: option.splits)
qed

lemma canonicalize_unmatched:
  "prefix_match ADDRESS_MIGRATIONS addr = None \<Longrightarrow> canonicalize addr = addr"
  using map_of_is_prefix_match [of ADDRESS_MIGRATIONS addr]
  by (auto simp: canonicalize_def split: option.splits)

lemma canonicalize_target: "t \<in> set migration_targets \<Longrightarrow> canonicalize t = t"
  by (rule canonicalize_unmatched) (rule targets_are_final)

lemma canonicalize_ne: "addr \<noteq> [] \<Longrightarrow> canonicalize addr \<noteq> []"
  using canonicalize_Some_cases [of addr] target_cases by fastforce

text \<open>The dictionary key and prefix lookups agree, so the loop alone decides.\<close>

lemma map_of_agrees:
  assumes "map_of ADDRESS_MIGRATIONS addr = Some new"
  shows "prefix_match ADDRESS_MIGRATIONS addr = Some new"
proof -
  have "list_all (\<lambda>(old, new). prefix_match ADDRESS_MIGRATIONS old = Some new) ADDRESS_MIGRATIONS"
    by (simp add: ADDRESS_MIGRATIONS_def startswith_def)
  with assms show ?thesis by (auto simp: list_all_iff dest: map_of_SomeD)
qed

lemma canonicalize_by_prefix:
  "canonicalize addr =
     (case prefix_match ADDRESS_MIGRATIONS addr of Some new \<Rightarrow> new | None \<Rightarrow> addr)"
proof (cases "addr = []")
  case True
  then show ?thesis
    by (simp add: canonicalize_def ADDRESS_MIGRATIONS_def startswith_def)
next
  case False
  then show ?thesis
    using map_of_agrees [of addr] by (auto simp: canonicalize_def split: option.splits)
qed

lemma canonicalize_value_JStr [simp]: "canonicalize_value (JStr s) = Inr (JStr (canonicalize s))"
  by (cases "s = []") (simp_all add: canonicalize_def)

declare canonicalize_value.simps [simp del]

text \<open>
  Canonicalisation is idempotent: resolving an already resolved address changes nothing, so the
  ledger, which resolves every address of every transaction, and the read API, which resolves
  again what a wallet asks for, agree on one row per user. An address that stays is not migrated.
\<close>

lemma canonicalize_idempotent [simp]: "canonicalize (canonicalize addr) = canonicalize addr"
  using canonicalize_Some_cases [of addr] canonicalize_target by auto

lemma canonical_not_migrated:
  "canonicalize addr = addr \<longleftrightarrow> prefix_match ADDRESS_MIGRATIONS addr = None"
proof
  assume same: "canonicalize addr = addr"
  show "prefix_match ADDRESS_MIGRATIONS addr = None"
  proof (cases "prefix_match ADDRESS_MIGRATIONS addr")
    case (Some new)
    then obtain old where "(old, new) \<in> set ADDRESS_MIGRATIONS" using prefix_match_Some by blast
    then have "new \<in> set migration_targets" by (force simp: migration_targets_def)
    moreover have "new = addr" using same Some by (simp add: canonicalize_by_prefix)
    ultimately show ?thesis using targets_are_final by simp
  qed simp
qed (simp add: canonicalize_unmatched)

lemma canonicalize_value_canonical: "canonicalize_value v = Inr (JStr a) \<Longrightarrow> canonicalize a = a"
proof (cases v)
  case (JStr s)
  then show "canonicalize_value v = Inr (JStr a) \<Longrightarrow> canonicalize a = a" by auto
qed (auto simp: canonicalize_value.simps split: if_splits)

end
