(* ===== verification/Tiers.thy ===== *)
theory Tiers
  imports PyValues
begin

text \<open>
  \<open>src/config.py\<close> (the settings, at their defaults) and \<open>src/staking/tiers.py\<close> (the tier of a
  stake). Amounts are base units: Python integers, so unbounded.
\<close>

section \<open>Settings\<close>

definition pool_address :: string where
  "pool_address = ''NPC1006639349b6aceb65fc78be92a404e41edb7019''"

definition stake_address :: string where
  "stake_address = ''NPC1006639349b6aceb65fc78be92a404e41edb7019''"

definition snapshot_batch_size :: int where
  "snapshot_batch_size = 100"

definition unstake_cooldown_blocks :: int where
  "unstake_cooldown_blocks = 10080"

definition tier_bronze_min :: int where
  "tier_bronze_min = 1000000 * 100000000"

definition tier_silver_min :: int where
  "tier_silver_min = 10000000 * 100000000"

definition tier_gold_min :: int where
  "tier_gold_min = 100000000 * 100000000"

definition tier_diamond_min :: int where
  "tier_diamond_min = 500000000 * 100000000"

lemmas tier_mins = tier_bronze_min_def tier_silver_min_def tier_gold_min_def tier_diamond_min_def

section \<open>Tiers\<close>

record Tier =
  tier_name :: string
  min_stake :: int

definition TIERS :: "Tier list" where
  "TIERS =
    [\<lparr>tier_name = ''Diamond'', min_stake = tier_diamond_min\<rparr>,
     \<lparr>tier_name = ''Gold'', min_stake = tier_gold_min\<rparr>,
     \<lparr>tier_name = ''Silver'', min_stake = tier_silver_min\<rparr>,
     \<lparr>tier_name = ''Bronze'', min_stake = tier_bronze_min\<rparr>]"

definition NONE_TIER :: Tier where
  "NONE_TIER = \<lparr>tier_name = ''None'', min_stake = 0\<rparr>"

fun tier_loop :: "Tier list \<Rightarrow> int \<Rightarrow> Tier" where
  "tier_loop [] staked = NONE_TIER"
| "tier_loop (t # ts) staked = (if min_stake t \<le> staked then t else tier_loop ts staked)"

definition tier_for :: "int \<Rightarrow> Tier" where
  "tier_for staked_amount_base =
     (if staked_amount_base \<le> 0 then NONE_TIER else tier_loop TIERS staked_amount_base)"

section \<open>Facts\<close>

lemma tier_loop_mem: "tier_loop ts n \<in> insert NONE_TIER (set ts)"
  by (induction ts) auto

lemma tier_loop_min: "0 \<le> n \<Longrightarrow> min_stake (tier_loop ts n) \<le> n"
  by (induction ts) (auto simp: NONE_TIER_def)

lemma tier_loop_best:
  "sorted_wrt (\<lambda>a b. min_stake b \<le> min_stake a) ts \<Longrightarrow> t \<in> set ts \<Longrightarrow> min_stake t \<le> n \<Longrightarrow>
   min_stake t \<le> min_stake (tier_loop ts n)"
  by (induction ts) auto

lemma TIERS_descending: "sorted_wrt (\<lambda>a b. min_stake b \<le> min_stake a) TIERS"
  by (simp add: TIERS_def tier_mins)

lemma tier_for_cases:
  "tier_for n = NONE_TIER \<or> tier_for n \<in> set TIERS"
  using tier_loop_mem [of TIERS n] by (auto simp: tier_for_def)

lemma tier_min_pos: "t \<in> set TIERS \<Longrightarrow> 0 < min_stake t"
  by (auto simp: TIERS_def tier_mins)

text \<open>
  The tier of a stake is the highest one whose threshold the stake reaches: its own
  threshold is reached, and every tier whose threshold is reached is no higher. A stake
  below every threshold (negative ones included) has the tier ``None''.
\<close>

theorem tier_for_is_best:
  "(0 \<le> n \<longrightarrow> min_stake (tier_for n) \<le> n) \<and>
   (\<forall>t \<in> set TIERS. min_stake t \<le> n \<longrightarrow> min_stake t \<le> min_stake (tier_for n)) \<and>
   (tier_for n = NONE_TIER \<longleftrightarrow> n < tier_bronze_min)"
proof -
  have best: "\<forall>t \<in> set TIERS. min_stake t \<le> n \<longrightarrow> min_stake t \<le> min_stake (tier_for n)"
    using tier_min_pos by (fastforce simp: tier_for_def intro: tier_loop_best TIERS_descending)
  have low: "0 \<le> n \<longrightarrow> min_stake (tier_for n) \<le> n"
    by (auto simp: tier_for_def tier_loop_min NONE_TIER_def)
  have none: "tier_for n = NONE_TIER \<longleftrightarrow> n < tier_bronze_min"
    by (auto simp: tier_for_def TIERS_def NONE_TIER_def tier_mins)
  from best low none show ?thesis by blast
qed

lemma tier_for_is_best_witness:
  "min_stake (tier_for 1500000000000000) = tier_silver_min"
proof -
  have "(0 \<le> (1500000000000000::int) \<longrightarrow> min_stake (tier_for 1500000000000000) \<le> 1500000000000000)"
    using tier_for_is_best [of 1500000000000000] by blast
  then show ?thesis by (simp add: tier_for_def TIERS_def tier_mins)
qed

end
