(* ===== verification/Ledger.thy ===== *)
theory Ledger
  imports Models Migrations Tiers
begin

text \<open>
  \<open>src/staking/ledger.py\<close>: \<open>apply_block_transactions\<close>, called for every block by the snapshot
  and by the watcher, with the recording of stake events, the tier cache and the distribution
  of the validator rewards pool.
\<close>

definition VALIDATOR_REWARDS_ADDRESS :: string where
  "VALIDATOR_REWARDS_ADDRESS = ''NPCREWARDSWALLET000000000000000000000000000''"

section \<open>Stakers and stake events\<close>

definition new_staker :: "string \<Rightarrow> Staker" where
  "new_staker a = \<lparr>staker_address = a, staked_amount = 0, tier = ''None'',
     first_stake_height = None, last_activity_height = None\<rparr>"

definition get_or_create_staker :: "string \<Rightarrow> (session, Staker) exec" where
  "get_or_create_staker a =
     bind (gets (\<lambda>s. get_staker (working s) a)) (\<lambda>found.
       case found of
         Some staker \<Rightarrow> return staker
       | None \<Rightarrow> andthen (insert_staker (new_staker a)) (return (new_staker a)))"

text \<open>
  A key of the ORM that is not a string never reaches the table: a null address violates the
  primary key, any other value is refused by the driver.
\<close>

fun address_column :: "json \<Rightarrow> string res" where
  "address_column (JStr s) = Inr s"
| "address_column JNull = Inl IntegrityError"
| "address_column _ = Inl DataError"

text \<open>The nullable \<open>tx_hash\<close> parameter: \<open>None\<close>, a string, or a value the driver refuses.\<close>

fun hash_column :: "json \<Rightarrow> string option res" where
  "hash_column JNull = Inr None"
| "hash_column (JStr s) = Inr (Some s)"
| "hash_column _ = Inl DataError"

definition record_event ::
  "string \<Rightarrow> string \<Rightarrow> int \<Rightarrow> int \<Rightarrow> json \<Rightarrow> string \<Rightarrow> (session, bool) exec" where
  "record_event a etype n height tx_hash note =
     bind (lift (hash_column tx_hash)) (\<lambda>txh.
       if txh = None then return False
       else catch
         (andthen (insert_event \<lparr>event_address = a, event_type = etype, event_amount = n,
             event_block_height = height, event_tx_hash = txh, event_note = Some note\<rparr>)
           (return True))
         (\<lambda>e. if e = IntegrityError then andthen rollback (return False) else raise e))"

definition refresh_tier_cache :: "Staker \<Rightarrow> Staker" where
  "refresh_tier_cache st = st\<lparr>tier := tier_name (tier_for (staked_amount st))\<rparr>"

text \<open>
  The assignments to a staker after its event was inserted: the body of \<open>if inserted\<close> in the
  stake cases, and in the refund case, where the amount is clamped at 0.
\<close>

definition staker_credit :: "int \<Rightarrow> int \<Rightarrow> Staker \<Rightarrow> Staker" where
  "staker_credit n height st =
     refresh_tier_cache
       (st\<lparr>staked_amount := staked_amount st + n,
           last_activity_height := Some height,
           first_stake_height :=
             (case first_stake_height st of None \<Rightarrow> Some height | Some h \<Rightarrow> Some h)\<rparr>)"

definition staker_debit :: "int \<Rightarrow> int \<Rightarrow> Staker \<Rightarrow> Staker" where
  "staker_debit n height st =
     refresh_tier_cache
       (st\<lparr>staked_amount := max 0 (staked_amount st - n), last_activity_height := Some height\<rparr>)"

definition apply_stake_event ::
  "string \<Rightarrow> (Staker \<Rightarrow> Staker) \<Rightarrow> json \<Rightarrow> int \<Rightarrow> int \<Rightarrow> json \<Rightarrow> string \<Rightarrow> (session, unit) exec" where
  "apply_stake_event etype assign addr n height tx_hash note =
     bind (lift (address_column addr)) (\<lambda>a.
     bind (get_or_create_staker a) (\<lambda>staker.
     bind (record_event a etype n height tx_hash note) (\<lambda>inserted.
       if inserted then write_staker (assign staker) else return ())))"

section \<open>The validator rewards pool\<close>

definition get_active_stakers :: "(session, Staker list) exec" where
  "get_active_stakers = gets (\<lambda>s. filter (\<lambda>st. 0 < staked_amount st) (stakers (working s)))"

definition reward_share :: "int \<Rightarrow> int \<Rightarrow> Staker \<Rightarrow> int" where
  "reward_share n total_stake st = (n * staked_amount st) div total_stake"

text \<open>The upsert of one validator's row.\<close>

definition credit_reward :: "string \<Rightarrow> int \<Rightarrow> int \<Rightarrow> (session, unit) exec" where
  "credit_reward a share height =
     bind (gets (\<lambda>s. get_reward (working s) a)) (\<lambda>existing.
       case existing of
         None \<Rightarrow> insert_reward \<lparr>reward_address = a, pending_rewards = share, total_claimed = 0,
                   last_credited_height = Some height, last_claimed_height = None\<rparr>
       | Some r \<Rightarrow> write_reward (r\<lparr>pending_rewards := pending_rewards r + share,
                   last_credited_height := Some height\<rparr>))"

fun distribute :: "int \<Rightarrow> int \<Rightarrow> int \<Rightarrow> Staker list \<Rightarrow> int \<Rightarrow> int \<Rightarrow> (session, int \<times> int) exec" where
  "distribute n total_stake height [] distributed paid_count = return (distributed, paid_count)"
| "distribute n total_stake height (st # sts) distributed paid_count =
     (let share = reward_share n total_stake st
      in if share \<le> 0 then distribute n total_stake height sts distributed paid_count
         else andthen (credit_reward (staker_address st) share height)
               (distribute n total_stake height sts (distributed + share) (paid_count + 1)))"

definition credit_validator_rewards_pool :: "int \<Rightarrow> int \<Rightarrow> (session, unit) exec" where
  "credit_validator_rewards_pool n height =
     (if n \<le> 0 then return ()
      else
        bind (gets (\<lambda>s. row_get inflow_block_height (reward_pool_inflows (working s)) height))
          (\<lambda>existing.
        if existing \<noteq> None then return ()
        else
          bind get_active_stakers (\<lambda>active.
          let total_stake = sum_list (map staked_amount active)
          in if total_stake = 0 then
               insert_inflow \<lparr>inflow_block_height = height, inflow_amount = n,
                 distributed_to_count = 0, dust_remaining = n\<rparr>
             else
               bind (distribute n total_stake height active 0 0) (\<lambda>(distributed, paid_count).
               insert_inflow \<lparr>inflow_block_height = height, inflow_amount = n,
                 distributed_to_count = paid_count, dust_remaining = n - distributed\<rparr>))))"

section \<open>Transactions and blocks\<close>

definition apply_single_tx :: "json \<Rightarrow> int \<Rightarrow> (session, unit) exec" where
  "apply_single_tx tx height =
     bind (lift (rbind (json_get tx ''type'' JNull) (\<lambda>v. json_lower (py_or v (JStr []))))) (\<lambda>tx_type.
     bind (lift (rbind (json_get tx ''tx_hash'' JNull) (\<lambda>h.
                 rbind (json_get tx ''hash'' JNull) (\<lambda>h'. Inr (py_or h h'))))) (\<lambda>tx_hash.
     bind (lift (json_get tx ''from'' (JStr []))) (\<lambda>raw_from.
     bind (lift (json_get tx ''to'' (JStr []))) (\<lambda>raw_to.
     bind (lift (rbind (json_get tx ''amount'' (JInt 0)) py_int)) (\<lambda>n.
       if n \<le> 0 then return ()
       else
         bind (lift (canonicalize_value raw_from)) (\<lambda>addr_from.
         bind (lift (canonicalize_value raw_to)) (\<lambda>addr_to.
         let is_to_escrow = (addr_to = JStr stake_address);
             is_from_escrow = (addr_from = JStr stake_address)
         in if tx_type = ''transfer'' \<and> raw_to = JStr VALIDATOR_REWARDS_ADDRESS then
              credit_validator_rewards_pool n height
            else if tx_type \<in> {''transfer'', ''stake''} \<and> is_to_escrow \<and> \<not> is_from_escrow then
              apply_stake_event ''STAKE'' (staker_credit n height) addr_from n height tx_hash
                ''transfer_to_escrow''
            else if tx_type \<in> {''transfer'', ''unstake''} \<and> is_from_escrow \<and> \<not> is_to_escrow then
              apply_stake_event ''UNSTAKE'' (staker_debit n height) addr_to n height tx_hash
                ''refund_from_escrow''
            else if tx_type = ''stake'' \<and> \<not> is_to_escrow then
              apply_stake_event ''STAKE'' (staker_credit n height) addr_from n height tx_hash
                ''legacy_stake_tx''
            else return ())))))))"

text \<open>Iterating a JSON value: a list gives its elements, a string its characters, a
  dictionary its keys; a number or a boolean is not iterable.\<close>

fun json_iter :: "json \<Rightarrow> json list res" where
  "json_iter (JArr xs) = Inr xs"
| "json_iter (JStr s) = Inr (map (\<lambda>c. JStr [c]) s)"
| "json_iter (JObj kvs) = Inr (map (\<lambda>(k, v). JStr k) kvs)"
| "json_iter _ = Inl TypeError"

definition apply_block_transactions :: "json \<Rightarrow> (session, unit) exec" where
  "apply_block_transactions block =
     bind (lift (rbind (json_get block ''height'' (JInt 0)) py_int)) (\<lambda>height.
     bind (lift (json_get block ''transactions'' (JArr []))) (\<lambda>v.
     let txs = py_or v (JArr [])
     in if \<not> truthy txs then return ()
        else bind (lift (json_iter txs)) (\<lambda>ts. for_each (\<lambda>tx. apply_single_tx tx height) ts)))"

end
