(* ===== verification/Dilithium.thy ===== *)
theory Dilithium
  imports PyValues
begin

unbundle bit_operations_syntax

text \<open>
  \<open>src/signing/dilithium.py\<close> over \<open>native/dilithium3_capi.cpp\<close>. The primitives behind the C
  wrapper (SHA3-256 and the pq-crystals reference implementation) are not part of the
  repository: they are the fields of a record \<open>crypto\<close> that every definition which needs
  them takes as an argument. The return codes, size checks and buffers of the wrapper, and
  the exceptions of the Python module, are the code's.
\<close>

section \<open>The vendored primitives\<close>

record crypto =
  sha3_256 :: "bytes \<Rightarrow> 256 word"
  ref_keypair :: "nat \<Rightarrow> (bytes \<times> bytes) option"
  ref_signature :: "bytes \<Rightarrow> bytes \<Rightarrow> bytes option"
  ml_dsa_verify :: "bytes \<Rightarrow> bytes \<Rightarrow> bytes \<Rightarrow> bool"

text \<open>
  \<open>ref_keypair\<close> takes the random seed it draws; \<open>ref_signature msg sk\<close> signs with the empty
  context; \<open>ml_dsa_verify sig msg pk\<close>. A digest is its 32 bytes, most significant first.
\<close>

definition digest :: "256 word \<Rightarrow> bytes" where
  "digest w = map (\<lambda>i. ucast (drop_bit (8 * (31 - i)) w)) [0..<32]"

lemma length_digest [simp]: "length (digest w) = 32"
  by (simp add: digest_def)

definition PK_SIZE :: nat where "PK_SIZE = 1952"
definition SK_SIZE :: nat where "SK_SIZE = 4032"
definition SIG_SIZE :: nat where "SIG_SIZE = 3309"
definition ADDR_LEN :: nat where "ADDR_LEN = 43"

lemmas dilithium_sizes = PK_SIZE_def SK_SIZE_def SIG_SIZE_def ADDR_LEN_def

section \<open>The C wrapper\<close>

text \<open>Each function returns \<open>None\<close> for the code 0 and \<open>Some\<close> of its outputs for the code 1.\<close>

definition npc_dil3_keygen :: "crypto \<Rightarrow> nat \<Rightarrow> nat \<Rightarrow> nat \<Rightarrow> (bytes \<times> bytes) option" where
  "npc_dil3_keygen c seed pk_len sk_len =
     (if pk_len \<noteq> PK_SIZE then None
      else if sk_len \<noteq> SK_SIZE then None
      else ref_keypair c seed)"

definition npc_dil3_derive_address :: "crypto \<Rightarrow> bytes \<Rightarrow> nat \<Rightarrow> string option" where
  "npc_dil3_derive_address c pk out_len =
     (if length pk \<noteq> PK_SIZE then None
      else if out_len < 44 then None
      else Some (''NPC'' @ hex (take 20 (digest (sha3_256 c pk)))))"

definition npc_dil3_sign :: "crypto \<Rightarrow> bytes \<Rightarrow> bytes \<Rightarrow> bytes \<Rightarrow> nat \<Rightarrow> bytes option" where
  "npc_dil3_sign c msg pk sk out_len =
     (if length pk \<noteq> PK_SIZE then None
      else if length sk \<noteq> SK_SIZE then None
      else if out_len < SIG_SIZE then None
      else ref_signature c msg sk)"

definition npc_dil3_verify :: "crypto \<Rightarrow> bytes \<Rightarrow> bytes \<Rightarrow> bytes \<Rightarrow> int" where
  "npc_dil3_verify c msg sig pk = (if ml_dsa_verify c sig msg pk then 1 else 0)"

definition npc_dil3_self_test :: "crypto \<Rightarrow> nat \<Rightarrow> int" where
  "npc_dil3_self_test c seed =
     (case npc_dil3_keygen c seed PK_SIZE SK_SIZE of
        None \<Rightarrow> 0
      | Some (pk, sk) \<Rightarrow>
          let msg = map char_byte ''npchain self test''
          in case npc_dil3_sign c msg pk sk SIG_SIZE of
               None \<Rightarrow> 0
             | Some sig \<Rightarrow> npc_dil3_verify c msg sig pk)"

section \<open>The Python module\<close>

definition load_lib :: "bool \<Rightarrow> nat \<Rightarrow> nat \<Rightarrow> nat \<Rightarrow> unit res" where
  "load_lib lib_exists lib_pk_size lib_sk_size lib_sig_size =
     (if \<not> lib_exists then Inl (DilithiumError ''shared library not found'')
      else if lib_pk_size \<noteq> PK_SIZE then Inl (DilithiumError ''PK_SIZE mismatch'')
      else if lib_sk_size \<noteq> SK_SIZE then Inl (DilithiumError ''SK_SIZE mismatch'')
      else if lib_sig_size \<noteq> SIG_SIZE then Inl (DilithiumError ''SIG_SIZE mismatch'')
      else Inr ())"

definition keygen :: "crypto \<Rightarrow> nat \<Rightarrow> (bytes \<times> bytes) res" where
  "keygen c seed =
     (case npc_dil3_keygen c seed PK_SIZE SK_SIZE of
        None \<Rightarrow> Inl (DilithiumError ''keygen failed'')
      | Some (pk, sk) \<Rightarrow> Inr (take PK_SIZE pk, take SK_SIZE sk))"

definition derive_address :: "crypto \<Rightarrow> bytes \<Rightarrow> string res" where
  "derive_address c pk =
     (if length pk \<noteq> PK_SIZE then
        Inl (DilithiumError (''pk must be 1952 bytes (got '' @ nat_str (length pk) @ '')''))
      else case npc_dil3_derive_address c pk 48 of
          None \<Rightarrow> Inl (DilithiumError ''derive_address failed'')
        | Some a \<Rightarrow> Inr a)"

definition sign :: "crypto \<Rightarrow> bytes \<Rightarrow> bytes \<Rightarrow> bytes \<Rightarrow> bytes res" where
  "sign c msg pk sk =
     (if length pk \<noteq> PK_SIZE then
        Inl (DilithiumError (''pk must be 1952 bytes (got '' @ nat_str (length pk) @ '')''))
      else if length sk \<noteq> SK_SIZE then
        Inl (DilithiumError (''sk must be 4032 bytes (got '' @ nat_str (length sk) @ '')''))
      else case npc_dil3_sign c msg pk sk SIG_SIZE of
          None \<Rightarrow> Inl (DilithiumError ''sign failed'')
        | Some sig \<Rightarrow> Inr sig)"

definition verify :: "crypto \<Rightarrow> bytes \<Rightarrow> bytes \<Rightarrow> bytes \<Rightarrow> bool" where
  "verify c msg sig pk =
     (if length pk \<noteq> PK_SIZE then False else npc_dil3_verify c msg sig pk = 1)"

definition self_test :: "crypto \<Rightarrow> nat \<Rightarrow> bool" where
  "self_test c seed = (npc_dil3_self_test c seed = 1)"

section \<open>Facts\<close>

lemma derive_address_total:
  "length pk = PK_SIZE \<Longrightarrow>
   derive_address c pk = Inr (''NPC'' @ hex (take 20 (digest (sha3_256 c pk))))"
  by (simp add: derive_address_def npc_dil3_derive_address_def)

lemma derive_address_Inr:
  "derive_address c pk = Inr a \<Longrightarrow>
   length pk = PK_SIZE \<and> a = ''NPC'' @ hex (take 20 (digest (sha3_256 c pk)))"
  by (auto simp: derive_address_def npc_dil3_derive_address_def split: if_splits)

text \<open>The form of an address that is derived from a key.\<close>

definition npc_address :: "string \<Rightarrow> bool" where
  "npc_address a \<longleftrightarrow> length a = 43 \<and> take 3 a = ''NPC'' \<and> set (drop 3 a) \<subseteq> set ''0123456789abcdef''"

lemma hex_alphabet: "set (hex bs) \<subseteq> set ''0123456789abcdef''"
proof -
  define digits where "digits = set ''0123456789abcdef''"
  have "list_all (\<lambda>d. hex_digit d \<in> set ''0123456789abcdef'') [0..<16]" by code_simp
  then have digit: "hex_digit d \<in> digits" if "d < 16" for d
    using that unfolding digits_def by (simp add: list_all_iff del: list.set)
  have "set (hex bs) \<subseteq> digits"
  proof (induction bs)
    case (Cons b bs)
    have "unat b < 256" using unsigned_less [of b] by simp
    then have "unat b div 16 < 16" "unat b mod 16 < 16" by auto
    with digit Cons show ?case by (simp add: hex_def)
  qed (simp add: hex_def)
  then show ?thesis by (simp only: digits_def)
qed

lemma npc_address_derived: "npc_address (''NPC'' @ hex (take 20 (digest w)))"
  using hex_alphabet [of "take 20 (digest w)"] by (simp add: npc_address_def length_hex)

lemma npc_address_ascii: "npc_address a \<Longrightarrow> \<forall>c \<in> set a. (of_char c :: nat) < 128"
proof
  fix c assume a: "npc_address a" and "c \<in> set a"
  then have "c \<in> set (take 3 a) \<or> c \<in> set (drop 3 a)" by (metis append_take_drop_id set_append Un_iff)
  with a show "(of_char c :: nat) < 128" by (auto simp: npc_address_def)
qed

lemma derive_address_length: "derive_address c pk = Inr a \<Longrightarrow> length a = ADDR_LEN"
  by (auto simp: ADDR_LEN_def length_hex dest!: derive_address_Inr)

lemma hex_digit_chars: "d < 16 \<Longrightarrow> hex_digit d \<noteq> CHR ''|''"
proof
  assume "d < 16" and "hex_digit d = CHR ''|''"
  then have "of_char (hex_digit d) = (124 :: nat)" by simp
  with \<open>d < 16\<close> show False by (auto simp: hex_digit_def split: if_splits)
qed

lemma hex_no_bar: "CHR ''|'' \<notin> set (hex bs)"
proof (induction bs)
  case Nil
  then show ?case by (simp add: hex_def)
next
  case (Cons b bs)
  have "unat b < 256" using unsigned_less [of b] by simp
  then have "unat b div 16 < 16" "unat b mod 16 < 16" by auto
  then have "hex_digit (unat b div 16) \<noteq> CHR ''|''" "hex_digit (unat b mod 16) \<noteq> CHR ''|''"
    by (simp_all add: hex_digit_chars)
  with Cons show ?case by (simp add: hex_def)
qed

lemma derive_address_no_bar: "derive_address c pk = Inr a \<Longrightarrow> CHR ''|'' \<notin> set a"
  by (auto simp: hex_no_bar dest!: derive_address_Inr)

text \<open>
  The documented contract of the signature scheme: keys and signatures have the FIPS 204
  sizes, and a signature made with a generated secret key verifies under its public key.
\<close>

definition signature_scheme :: "crypto \<Rightarrow> bool" where
  "signature_scheme c \<longleftrightarrow>
     (\<forall>seed pk sk. ref_keypair c seed = Some (pk, sk) \<longrightarrow>
        length pk = PK_SIZE \<and> length sk = SK_SIZE \<and>
        (\<forall>msg sig. ref_signature c msg sk = Some sig \<longrightarrow>
           length sig = SIG_SIZE \<and> ml_dsa_verify c sig msg pk))"

lemma keygen_sign_verify:
  assumes "signature_scheme c" and "keygen c seed = Inr (pk, sk)" and "sign c msg pk sk = Inr sig"
  shows "verify c msg sig pk" and "length sig = SIG_SIZE"
  using assms
  by (auto simp: signature_scheme_def keygen_def sign_def verify_def npc_dil3_keygen_def
      npc_dil3_sign_def npc_dil3_verify_def split: option.splits if_splits)

end
