(* ===== verification/Auth.thy ===== *)
theory Auth
  imports Dilithium Models
begin

text \<open>
  \<open>src/staking/auth.py\<close>: the replay cache, the canonical message and the verification of a
  signed write request. The clock is read by the code itself; each definition takes the
  readings it makes as arguments, in order.
\<close>

section \<open>The nonce cache\<close>

definition TIMESTAMP_WINDOW_SECONDS :: int where
  "TIMESTAMP_WINDOW_SECONDS = 300"

type_synonym nonce_cache = "string \<rightharpoonup> time"

definition purge_old_nonces :: "time \<Rightarrow> nonce_cache \<Rightarrow> nonce_cache" where
  "purge_old_nonces now seen =
     (let cutoff = now - of_int TIMESTAMP_WINDOW_SECONDS - 60
      in (\<lambda>n. case seen n of None \<Rightarrow> None | Some t \<Rightarrow> if t < cutoff then None else Some t))"

definition check_replay :: "time \<Rightarrow> time \<Rightarrow> string \<Rightarrow> int \<Rightarrow> (nonce_cache, unit) exec" where
  "check_replay t t' nonce timestamp =
     (let now = trunc_int t
      in if \<bar>now - timestamp\<bar> > TIMESTAMP_WINDOW_SECONDS then
           raise (SignatureError (''timestamp_outside_window (got '' @ int_str timestamp @
             '', server now '' @ int_str now @ '', max drift 300s)''))
         else
           andthen (modify (purge_old_nonces t'))
          (bind (gets (\<lambda>seen. seen nonce)) (\<lambda>entry.
             if entry \<noteq> None then raise (SignatureError ''nonce_already_used'')
             else modify (\<lambda>seen. seen(nonce \<mapsto> of_int now)))))"

section \<open>Messages and signatures\<close>

definition canonical_message :: "string \<Rightarrow> string \<Rightarrow> int \<Rightarrow> string \<Rightarrow> int \<Rightarrow> bytes" where
  "canonical_message action address n nonce timestamp =
     utf8_encode (action @ ''|'' @ address @ ''|'' @ int_str n @ ''|'' @ nonce @ ''|'' @ int_str timestamp)"

definition verify_dilithium_real :: "crypto \<Rightarrow> string \<Rightarrow> bytes \<Rightarrow> string \<Rightarrow> bool" where
  "verify_dilithium_real c pubkey_hex message signature_hex =
     (if length signature_hex < 10 then False
      else if length pubkey_hex < 10 then False
      else case from_hex signature_hex of
          None \<Rightarrow> False
        | Some sig \<Rightarrow>
            (case from_hex pubkey_hex of
               None \<Rightarrow> False
             | Some pk \<Rightarrow>
                 if length pk \<noteq> 1952 then False
                 else if length sig \<noteq> 3309 then False
                 else verify c message sig pk))"

definition derive_address_real :: "crypto \<Rightarrow> string \<Rightarrow> string" where
  "derive_address_real c pubkey_hex =
     (if length pubkey_hex < 10 then []
      else case from_hex pubkey_hex of
          None \<Rightarrow> []
        | Some pk \<Rightarrow>
            if length pk \<noteq> 1952 then []
            else (case derive_address c pk of Inl _ \<Rightarrow> [] | Inr a \<Rightarrow> a))"

definition verify_signed_request ::
  "crypto \<Rightarrow> time \<Rightarrow> time \<Rightarrow> string \<Rightarrow> string \<Rightarrow> int \<Rightarrow> string \<Rightarrow> int \<Rightarrow> string \<Rightarrow> string
     \<Rightarrow> (nonce_cache, unit) exec" where
  "verify_signed_request c t t' action address n nonce timestamp signature pubkey =
     andthen (check_replay t t' nonce timestamp)
       (let msg = canonical_message action address n nonce timestamp;
            derived = derive_address_real c pubkey
        in if \<not> verify_dilithium_real c pubkey msg signature then
             raise (SignatureError ''signature_invalid'')
           else if derived = [] then
             raise (SignatureError ''could_not_derive_address_from_pubkey'')
           else if derived \<noteq> address then
             raise (SignatureError (''address_mismatch (pubkey derives to '' @ derived @
               '', request claims '' @ address @ '')''))
           else return ())"

section \<open>Replay protection\<close>

lemma trunc_int_nonneg: "0 \<le> t \<Longrightarrow> trunc_int t = \<lfloor>t\<rfloor>"
  by (simp add: trunc_int_def)

lemma trunc_int_le: "0 \<le> t \<Longrightarrow> of_int (trunc_int t) \<le> t"
  by (simp add: trunc_int_nonneg)

lemma check_replay_cases:
  obtains (window) "\<bar>trunc_int t - timestamp\<bar> > 300"
      "\<exists>e. check_replay t t' nonce timestamp seen = (Inl (SignatureError e), seen)"
  | (used) "\<bar>trunc_int t - timestamp\<bar> \<le> 300" "purge_old_nonces t' seen nonce \<noteq> None"
      "check_replay t t' nonce timestamp seen =
         (Inl (SignatureError ''nonce_already_used''), purge_old_nonces t' seen)"
  | (fresh) "\<bar>trunc_int t - timestamp\<bar> \<le> 300" "purge_old_nonces t' seen nonce = None"
      "check_replay t t' nonce timestamp seen =
         (Inr (), (purge_old_nonces t' seen)(nonce \<mapsto> of_int (trunc_int t)))"
proof -
  have "check_replay t t' nonce timestamp seen =
      (if \<bar>trunc_int t - timestamp\<bar> > 300
       then (Inl (SignatureError (''timestamp_outside_window (got '' @ int_str timestamp @
             '', server now '' @ int_str (trunc_int t) @ '', max drift 300s)'')), seen)
       else if purge_old_nonces t' seen nonce \<noteq> None
       then (Inl (SignatureError ''nonce_already_used''), purge_old_nonces t' seen)
       else (Inr (), (purge_old_nonces t' seen)(nonce \<mapsto> of_int (trunc_int t))))"
    by (simp add: check_replay_def TIMESTAMP_WINDOW_SECONDS_def Let_def exec_run)
  with that show thesis by (cases "\<bar>trunc_int t - timestamp\<bar> > 300") (auto split: if_splits)
qed

lemma check_replay_accepts:
  "check_replay t t' nonce timestamp seen = (Inr (), seen') \<longleftrightarrow>
     \<bar>trunc_int t - timestamp\<bar> \<le> 300 \<and> purge_old_nonces t' seen nonce = None \<and>
     seen' = (purge_old_nonces t' seen)(nonce \<mapsto> of_int (trunc_int t))"
  by (cases rule: check_replay_cases [of t timestamp t' nonce seen]) auto

text \<open>A run of requests as the cache sees them: clock readings, nonce and timestamp of each.\<close>

fun run_checks :: "(time \<times> time \<times> string \<times> int) list \<Rightarrow> nonce_cache \<Rightarrow> nonce_cache" where
  "run_checks [] seen = seen"
| "run_checks ((t, t', n, ts) # rest) seen =
     run_checks rest (snd (check_replay t t' n ts seen))"

text \<open>
  The entry of a nonce either stays as it was or was dropped by a purge at a clock reading
  more than 360 seconds after it.
\<close>

definition remembered :: "string \<Rightarrow> time \<Rightarrow> time \<Rightarrow> nonce_cache \<Rightarrow> bool" where
  "remembered n t0 tmax seen \<longleftrightarrow> seen n = Some t0 \<or> t0 < tmax - 360"

lemma purge_remembered:
  "remembered n t0 tmax seen \<Longrightarrow> t' \<le> tmax \<Longrightarrow> remembered n t0 tmax (purge_old_nonces t' seen)"
  by (auto simp: remembered_def purge_old_nonces_def TIMESTAMP_WINDOW_SECONDS_def Let_def)

lemma check_remembered:
  assumes "remembered n t0 tmax seen" and "t' \<le> tmax"
  shows "remembered n t0 tmax (snd (check_replay t t' n' ts seen))"
proof (cases rule: check_replay_cases [of t ts t' n' seen])
  case window
  with assms show ?thesis by auto
next
  case used
  with purge_remembered [OF assms] show ?thesis by simp
next
  case fresh
  with purge_remembered [OF assms] show ?thesis by (auto simp: remembered_def)
qed

lemma run_remembered:
  "remembered n t0 tmax seen \<Longrightarrow> (\<forall>(t, t', n', ts) \<in> set calls. t' \<le> tmax) \<Longrightarrow>
   remembered n t0 tmax (run_checks calls seen)"
proof (induction calls seen rule: run_checks.induct)
  case (2 t t' n' ts rest seen)
  then show ?case by (simp add: check_remembered)
qed simp

text \<open>
  C35. Replay protection. Once a nonce was accepted at server time \<open>t\<close>, then after any further
  requests it is refused again whenever the same timestamp comes with it, provided that
  timestamp was at most 58 seconds ahead of the server clock (and the two clock readings of
  a check are at most a second apart): by the time the purge drops the nonce, the timestamp
  has left the window.
\<close>

theorem nonce_not_replayed:
  assumes accepted: "check_replay t t' nonce timestamp seen = (Inr (), seen1)"
    and clocks: "0 \<le> t" "0 \<le> u" "\<forall>(v, v', n, ts) \<in> set calls. v' \<le> u" "u' \<le> u + 1"
    and ahead: "timestamp \<le> trunc_int t + 58"
  shows "\<exists>e seen2. check_replay u u' nonce timestamp (run_checks calls seen1) =
           (Inl (SignatureError e), seen2)"
proof (cases "\<bar>trunc_int u - timestamp\<bar> \<le> 300")
  case False
  then show ?thesis
    by (cases rule: check_replay_cases [of u timestamp u' nonce "run_checks calls seen1"]) auto
next
  case True
  let ?t0 = "of_int (trunc_int t) :: rat"
  from True ahead have "trunc_int u + 1 \<le> trunc_int t + 359" by simp
  then have "(of_int (trunc_int u + 1) :: rat) \<le> of_int (trunc_int t + 359)"
    by (simp only: of_int_le_iff)
  then have "of_int (trunc_int u) + 1 \<le> ?t0 + 359" by simp
  moreover have "u < of_int (trunc_int u) + 1"
    using \<open>0 \<le> u\<close> by (simp add: trunc_int_nonneg) linarith
  ultimately have "u < ?t0 + 359" by linarith
  from accepted have "remembered nonce ?t0 u seen1"
    by (simp add: check_replay_accepts remembered_def)
  then have "remembered nonce ?t0 u (run_checks calls seen1)"
    using clocks(3) by (rule run_remembered)
  with \<open>u < ?t0 + 359\<close> have "run_checks calls seen1 nonce = Some ?t0"
    by (auto simp: remembered_def)
  with \<open>u < ?t0 + 359\<close> clocks(4)
  have "purge_old_nonces u' (run_checks calls seen1) nonce \<noteq> None"
    by (simp add: purge_old_nonces_def TIMESTAMP_WINDOW_SECONDS_def Let_def)
  then show ?thesis
    by (cases rule: check_replay_cases [of u timestamp u' nonce "run_checks calls seen1"]) auto
qed

lemma nonce_not_replayed_witness:
  "check_replay 1000 1000 ''nonce-01'' 1050 Map.empty = (Inr (), [''nonce-01'' \<mapsto> 1000]) \<and>
   (\<exists>e seen2. check_replay 1200 1200 ''nonce-01'' 1050
      (run_checks [(1100, 1100, ''nonce-02'', 1100)] [''nonce-01'' \<mapsto> 1000]) =
      (Inl (SignatureError e), seen2))"
proof -
  have acc: "check_replay 1000 1000 ''nonce-01'' 1050 Map.empty = (Inr (), [''nonce-01'' \<mapsto> 1000])"
    by (simp add: check_replay_accepts purge_old_nonces_def trunc_int_def)
  have "\<exists>e seen2. check_replay 1200 1200 ''nonce-01'' 1050
      (run_checks [(1100, 1100, ''nonce-02'', 1100)] [''nonce-01'' \<mapsto> 1000]) =
      (Inl (SignatureError e), seen2)"
    by (rule nonce_not_replayed [OF acc]) (simp_all add: trunc_int_def)
  with acc show ?thesis by blast
qed

text \<open>What follows the replay check depends on the request only, not on the cache.\<close>

lemma verified_again:
  assumes "verify_signed_request c t t' action a n nonce ts sg pk seen = (Inr (), seen')"
    and "check_replay t2 t2' nonce ts seen2 = (Inr (), seen2')"
  shows "verify_signed_request c t2 t2' action a n nonce ts sg pk seen2 = (Inr (), seen2')"
  using assms(1)
  by (auto simp: verify_signed_request_def bind_def assms(2) Let_def raise_exec return_exec
      split: if_splits prod.splits sum.splits)

text \<open>Requests with other nonces leave the entry of a nonce alone, or a purge drops it.\<close>

lemma run_other_nonces:
  assumes "\<forall>(t, t', n', ts) \<in> set calls. n' \<noteq> nonce" and "seen nonce \<in> {None, Some x}"
  shows "run_checks calls seen nonce \<in> {None, Some x}"
  using assms
proof (induction calls seen rule: run_checks.induct)
  case (2 t t' n' ts rest seen)
  have "purge_old_nonces t' seen nonce \<in> {None, Some x}"
    using 2(3) by (auto simp: purge_old_nonces_def Let_def split: if_splits)
  then have "snd (check_replay t t' n' ts seen) nonce \<in> {None, Some x}"
    using 2(2,3) by (cases rule: check_replay_cases [of t ts t' n' seen]) auto
  with 2 show ?case by simp
qed simp

text \<open>
  C36. The window that is left to a replay. A request whose timestamp lies ahead of the server clock is
  accepted a second time, with the same nonce and signature and by the same process, at every time
  from 361 seconds after it was accepted until 300 seconds after its timestamp, whatever requests with
  other nonces come in between. There is such a time for each timestamp that is 61 to 300 seconds ahead:
  the purge drops nonces by the time they were seen, while the window is counted from the timestamp.
\<close>

theorem nonce_replayed_after_purge:
  assumes "verify_signed_request c t t' action a n nonce timestamp sg pk seen = (Inr (), seen1)" and "0 \<le> t"
    and "\<forall>(t2, t2', nonce2, timestamp2) \<in> set calls. nonce2 \<noteq> nonce"
    and "trunc_int t + 361 \<le> u" and "u \<le> timestamp + 300"
  shows "fst (verify_signed_request c (of_int u) (of_int u) action a n nonce timestamp sg pk
    (run_checks calls seen1)) = Inr ()"
proof -
  have "0 \<le> trunc_int t" using assms(2) by (simp add: trunc_int_nonneg)
  then have u: "trunc_int (of_int u) = u" using assms(4) by (subst trunc_int_nonneg) simp_all
  have "check_replay t t' nonce timestamp seen = (Inr (), seen1)"
    using assms(1) by (auto simp: verify_signed_request_def bind_eq_Inr Let_def exec_run split: if_splits)
  then have "\<bar>trunc_int t - timestamp\<bar> \<le> 300" and first: "seen1 nonce = Some (of_int (trunc_int t))"
    by (simp_all add: check_replay_accepts)
  then have window: "\<bar>trunc_int (of_int u) - timestamp\<bar> \<le> 300" using assms(4,5) by (simp add: u)
  have "(of_int (trunc_int t + 361) :: rat) \<le> of_int u" using assms(4) by (simp only: of_int_le_iff)
  then have "purge_old_nonces (of_int u) (run_checks calls seen1) nonce = None"
    using run_other_nonces [OF assms(3), of seen1 "of_int (trunc_int t)"] first
    by (auto simp: purge_old_nonces_def TIMESTAMP_WINDOW_SECONDS_def Let_def)
  with window have "check_replay (of_int u) (of_int u) nonce timestamp (run_checks calls seen1) =
      (Inr (), (purge_old_nonces (of_int u) (run_checks calls seen1))(nonce \<mapsto> of_int u))"
    by (simp add: check_replay_accepts u)
  from verified_again [OF assms(1) this] show ?thesis by simp
qed

section \<open>What a signature authorises\<close>

text \<open>
  The canonical message determines the request: two requests with the same signed bytes
  have the same action, address, amount, nonce and timestamp. Only the action (a constant)
  and the address (checked against the derived one) must be free of the separator; a nonce
  may contain it.
\<close>

theorem canonical_message_injective:
  assumes "canonical_message action address n nonce timestamp =
           canonical_message action' address' n' nonce' timestamp'"
    and "CHR ''|'' \<notin> set action" "CHR ''|'' \<notin> set action'"
    and "CHR ''|'' \<notin> set address" "CHR ''|'' \<notin> set address'"
  shows "action = action' \<and> address = address' \<and> n = n' \<and> nonce = nonce' \<and> timestamp = timestamp'"
proof -
  let ?m = "\<lambda>a b k m z. a @ CHR ''|'' # b @ CHR ''|'' # int_str k @ CHR ''|'' # m @ CHR ''|'' # int_str z"
  from assms(1) have "?m action address n nonce timestamp = ?m action' address' n' nonce' timestamp'"
    by (simp add: canonical_message_def)
  with assms(2,3) have "action = action'" and
    "address @ CHR ''|'' # int_str n @ CHR ''|'' # nonce @ CHR ''|'' # int_str timestamp =
     address' @ CHR ''|'' # int_str n' @ CHR ''|'' # nonce' @ CHR ''|'' # int_str timestamp'"
    by (auto dest: append_sep_inject)
  with assms(4,5) have "address = address'" and
    "int_str n @ CHR ''|'' # nonce @ CHR ''|'' # int_str timestamp =
     int_str n' @ CHR ''|'' # nonce' @ CHR ''|'' # int_str timestamp'"
    by (auto dest: append_sep_inject)
  moreover from this(2) have "int_str n = int_str n'" and
    "nonce @ CHR ''|'' # int_str timestamp = nonce' @ CHR ''|'' # int_str timestamp'"
    by (auto dest: append_sep_inject simp: int_str_no_bar)
  moreover from this(2) have "int_str timestamp = int_str timestamp' \<and> nonce = nonce'"
    by (rule append_last_sep_inject) (simp_all add: int_str_no_bar)
  ultimately show ?thesis using \<open>action = action'\<close> by simp
qed

lemma canonical_message_injective_witness:
  "canonical_message ''UNSTAKE'' ''NPCab'' 5 ''n|7'' 9 = canonical_message ''UNSTAKE'' ''NPCab'' 5 ''n|7'' 9
   \<and> (''n|7'' = ''n|7'' \<and> (5::int) = 5)"
  using canonical_message_injective [of "''UNSTAKE''" "''NPCab''" 5 "''n|7''" 9
      "''UNSTAKE''" "''NPCab''" 5 "''n|7''" 9] by simp

lemma verify_dilithium_real_iff:
  "verify_dilithium_real c pubkey msg signature \<longleftrightarrow>
     (\<exists>pk sig. from_hex pubkey = Some pk \<and> from_hex signature = Some sig \<and>
        10 \<le> length pubkey \<and> 10 \<le> length signature \<and>
        length pk = PK_SIZE \<and> length sig = SIG_SIZE \<and> ml_dsa_verify c sig msg pk)"
  by (auto simp: verify_dilithium_real_def verify_def npc_dil3_verify_def dilithium_sizes
      split: option.splits if_splits)

lemma verified_npc_address:
  assumes "verify_signed_request c t t' action address n nonce timestamp signature pubkey seen = (Inr u, seen')"
  shows "npc_address address"
proof -
  have "derive_address_real c pubkey = [] \<or> npc_address (derive_address_real c pubkey)"
    using npc_address_derived by (auto simp: derive_address_real_def dest!: derive_address_Inr split: option.split sum.split)
  with assms show ?thesis
    by (auto simp: verify_signed_request_def bind_eq_Inr Let_def exec_run split: if_splits)
qed

lemma derive_address_real_eq:
  "10 \<le> length pubkey \<Longrightarrow> from_hex pubkey = Some pk \<Longrightarrow> length pk = PK_SIZE \<Longrightarrow>
   derive_address_real c pubkey = ''NPC'' @ hex (take 20 (digest (sha3_256 c pk)))"
  by (simp add: derive_address_real_def derive_address_total PK_SIZE_def)

text \<open>
  C33. A write request is accepted exactly when its timestamp is in the window, its nonce is
  not in the (purged) cache, key and signature are hexadecimal of the FIPS 204 sizes, the
  signature verifies over the canonical message of this very request, and the address is the
  one derived from the key.
\<close>

theorem verify_signed_request_iff:
  "fst (verify_signed_request c t t' action address n nonce timestamp signature pubkey seen) = Inr ()
   \<longleftrightarrow>
   \<bar>trunc_int t - timestamp\<bar> \<le> 300 \<and> purge_old_nonces t' seen nonce = None \<and>
   (\<exists>pk sig. from_hex pubkey = Some pk \<and> from_hex signature = Some sig \<and>
      10 \<le> length pubkey \<and> 10 \<le> length signature \<and>
      length pk = PK_SIZE \<and> length sig = SIG_SIZE \<and>
      ml_dsa_verify c sig (canonical_message action address n nonce timestamp) pk \<and>
      address = ''NPC'' @ hex (take 20 (digest (sha3_256 c pk))))"
  (is "?lhs = (?fresh \<and> ?unused \<and> ?signed)")
proof (cases rule: check_replay_cases [of t timestamp t' nonce seen])
  case fresh
  let ?msg = "canonical_message action address n nonce timestamp"
  have "?lhs \<longleftrightarrow> verify_dilithium_real c pubkey ?msg signature \<and>
      derive_address_real c pubkey \<noteq> [] \<and> derive_address_real c pubkey = address"
    using fresh by (simp add: verify_signed_request_def bind_Inr_step Let_def exec_run)
  also have "\<dots> \<longleftrightarrow> ?signed"
    by (auto simp: verify_dilithium_real_iff derive_address_real_eq)
  finally show ?thesis using fresh by simp
next
  case used
  then show ?thesis by (simp add: verify_signed_request_def bind_Inl_step)
next
  case window
  then show ?thesis by (auto simp: verify_signed_request_def bind_Inl_step)
qed

text \<open>
  C34. An honest request is accepted. A client that generated its key pair, uses the address
  derived from the public key, signs the canonical message of its request and sends key and
  signature in hexadecimal is accepted, when its clock is within the window and its nonce is
  new; the nonce is then remembered.
\<close>

theorem honest_request_accepted:
  assumes scheme: "signature_scheme c" and key: "keygen c seed = Inr (pk, sk)"
    and addr: "derive_address c pk = Inr address"
    and sig: "sign c (canonical_message action address n nonce timestamp) pk sk = Inr sig"
    and window: "\<bar>trunc_int t - timestamp\<bar> \<le> 300" and fresh: "purge_old_nonces t' seen nonce = None"
  shows "verify_signed_request c t t' action address n nonce timestamp (hex sig) (hex pk) seen =
    (Inr (), (purge_old_nonces t' seen)(nonce \<mapsto> of_int (trunc_int t)))"
proof -
  let ?msg = "canonical_message action address n nonce timestamp"
  have size: "length pk = PK_SIZE" and "length sig = SIG_SIZE" and ok: "verify c ?msg sig pk"
    using derive_address_Inr [OF addr] keygen_sign_verify [OF scheme key sig] by simp_all
  then have long: "10 \<le> length (hex pk)" "10 \<le> length (hex sig)" by (simp_all add: length_hex dilithium_sizes)
  have "verify_dilithium_real c (hex pk) ?msg (hex sig)"
    using size \<open>length sig = SIG_SIZE\<close> ok long
    by (simp add: verify_dilithium_real_def from_hex_hex dilithium_sizes)
  moreover have "derive_address_real c (hex pk) = address" "address \<noteq> []"
    using derive_address_real_eq [OF long(1) from_hex_hex size] derive_address_Inr [OF addr] by simp_all
  moreover have "check_replay t t' nonce timestamp seen =
      (Inr (), (purge_old_nonces t' seen)(nonce \<mapsto> of_int (trunc_int t)))"
    using window fresh by (simp add: check_replay_accepts)
  ultimately show ?thesis
    by (simp add: verify_signed_request_def bind_Inr_step Let_def exec_run)
qed

end
