(* ===== verification/Queue.thy ===== *)
theory Queue
  imports Models
begin

text \<open>
  \<open>src/signing/queue.py\<close>: the \<open>PayoutSigner\<close> protocol, the \<open>NullSigner\<close>, and
  \<open>enqueue_payout\<close>, which inserts a payout at most once per \<open>ref\<close>.
\<close>

section \<open>The signer protocol\<close>

text \<open>
  A signer works on a world of its own (the key and the L1 node for the hot key signer). What
  the runner relies on: a signer that succeeds returns the hexadecimal form of a 32-byte
  transaction hash, which is what the column \<open>tx_hash\<close> has to hold.
\<close>

locale payout_signer =
  fixes sign_and_submit :: "PendingPayout \<Rightarrow> ('w, string) exec"
  assumes returns_hash: "sign_and_submit p w = (Inr h, w') \<Longrightarrow> \<exists>bs. length bs = 32 \<and> h = hex bs"
begin

lemma hash_length: "sign_and_submit p w = (Inr h, w') \<Longrightarrow> length h = 64"
  by (auto dest!: returns_hash simp: length_hex)

lemma hash_fits_column: "sign_and_submit p w = (Inr h, w') \<Longrightarrow> varchar 128 h"
  by (auto dest!: returns_hash simp: varchar_def length_hex)

end

definition null_signer :: "PendingPayout \<Rightarrow> ('w, string) exec" where
  "null_signer payout =
     raise (NotImplementedError ''NullSigner cannot actually sign - Phase C wiring required'')"

interpretation null: payout_signer "null_signer :: PendingPayout \<Rightarrow> ('w, string) exec"
  by unfold_locales (simp add: null_signer_def raise_def)

section \<open>Enqueueing\<close>

definition new_payout :: "string \<Rightarrow> int \<Rightarrow> string \<Rightarrow> string \<Rightarrow> time \<Rightarrow> int \<Rightarrow> PendingPayout" where
  "new_payout to n kind ref t i = \<lparr>payout_id = i, recipient = to, payout_amount = n,
     payout_kind = kind, payout_status = QUEUED, payout_ref = ref, payout_tx_hash = None,
     submitted_height = None, confirmed_height = None, error_message = None, attempts = 0,
     payout_created_at = t\<rparr>"

definition enqueue_payout :: "string \<Rightarrow> int \<Rightarrow> string \<Rightarrow> string \<Rightarrow> (session, int) exec" where
  "enqueue_payout to n kind ref =
     (if n \<le> 0 then
        raise (ValueError (''payout_amount_must_be_positive (got '' @ int_str n @ '')''))
      else if kind \<noteq> ''UNSTAKE_REFUND'' then
        raise (ValueError (''unknown_payout_kind: '' @ kind @ '' (only UNSTAKE_REFUND is supported)''))
      else
        bind (gets clock) (\<lambda>t.
        catch
          (bind (insert_payout (new_payout to n kind ref t)) (\<lambda>p. return (payout_id p)))
          (\<lambda>e. if e \<noteq> IntegrityError then raise e
               else andthen rollback
                 (bind (gets (\<lambda>s. row_get payout_ref (pending_payouts (working s)) ref))
                   (\<lambda>existing. case existing of
                        None \<Rightarrow> raise IntegrityError
                      | Some p \<Rightarrow> return (payout_id p))))))"

end
