(* ===== verification/UnstakeProcessor.thy ===== *)
theory UnstakeProcessor
  imports Queue
begin

text \<open>
  \<open>src/signing/unstake_processor.py\<close>: at every block, each pending unstake request whose
  cooldown is over becomes READY and its refund is queued. The request objects were loaded by
  the query before the loop; after a rollback inside \<open>enqueue_payout\<close> they are expired, and
  reading \<open>u.id\<close> for the log raises in the success path and again in the handler. The query has
  no \<open>ORDER BY\<close>: its rows come in the order of insertion here, one of the orders that the server
  may choose. A height that is no BIGINT is refused by the driver as a parameter.
\<close>

definition unlocked_requests :: "int \<Rightarrow> db \<Rightarrow> UnstakeRequest list" where
  "unlocked_requests height d =
     filter (\<lambda>u. request_status u = PENDING \<and> unlock_height u \<le> height) (unstake_requests d)"

definition unstake_ref :: "int \<Rightarrow> string" where
  "unstake_ref i = ''unstake:'' @ int_str i"

definition process_unlocked :: "nat \<Rightarrow> UnstakeRequest \<Rightarrow> (session, unit) exec" where
  "process_unlocked ep u =
     andthen (write_request (u\<lparr>request_status := READY\<rparr>))
       (catch
          (bind (enqueue_payout (request_address u) (request_amount u) ''UNSTAKE_REFUND''
                   (unstake_ref (request_id u))) (\<lambda>_. loaded_attribute ep))
          (\<lambda>e. loaded_attribute ep))"

definition process_unlocked_unstakes :: "int \<Rightarrow> (session, int) exec" where
  "process_unlocked_unstakes current_height =
     andthen (raise_unless (big_integer current_height) DataError)
    (bind (gets (\<lambda>s. unlocked_requests current_height (working s))) (\<lambda>unlocked.
     bind (gets epoch) (\<lambda>ep.
       if unlocked = [] then return 0
       else andthen (for_each (process_unlocked ep) unlocked) (return (int (length unlocked))))))"

end
