(* ===== verification/PyFloat.thy ===== *)
theory PyFloat
  imports PyValues
begin

text \<open>
  The one place where the service leaves the integers: amounts are shown to people as
  \<open>f"{base_units / 100_000_000:.4f}"\<close>. Python divides two integers to the nearest double
  (53 significant bits, ties to even) and formats the exact value of that double with four
  decimals, again to nearest with ties to even. Both roundings are written out over the
  rationals; the amounts are far from the subnormal and overflow ranges.
\<close>

definition round_half_even :: "rat \<Rightarrow> int" where
  "round_half_even q =
     (let f = \<lfloor>q\<rfloor>; d = q - of_int f
      in if d < 1 / 2 then f else if 1 / 2 < d then f + 1 else if even f then f else f + 1)"

fun bit_length :: "nat \<Rightarrow> nat" where
  "bit_length n = (if n = 0 then 0 else Suc (bit_length (n div 2)))"

declare bit_length.simps [simp del]

text \<open>The step of the doubles around a positive \<open>n / d\<close>, as a power of two.\<close>

definition ulp_exponent :: "nat \<Rightarrow> nat \<Rightarrow> int" where
  "ulp_exponent n d =
     (let e = int (bit_length n) - int (bit_length d) - 53; q = of_nat n / of_nat d :: rat
      in if q < 2 ^ 52 * (2 powi e) then e - 1
         else if 2 ^ 53 * (2 powi e) \<le> q then e + 1 else e)"

definition float_div_pos :: "nat \<Rightarrow> nat \<Rightarrow> rat" where
  "float_div_pos n d =
     (let e = ulp_exponent n d
      in of_int (round_half_even (of_nat n / of_nat d / (2 powi e))) * (2 powi e))"

definition float_div :: "int \<Rightarrow> nat \<Rightarrow> rat" where
  "float_div n d =
     (if n = 0 then 0 else if n < 0 then - float_div_pos (nat (- n)) d else float_div_pos (nat n) d)"

definition pad4 :: "string \<Rightarrow> string" where
  "pad4 s = replicate (4 - length s) CHR ''0'' @ s"

definition format_4f :: "rat \<Rightarrow> string" where
  "format_4f q =
     (let m = nat \<bar>round_half_even (q * 10000)\<bar>;
          body = nat_str (m div 10000) @ ''.'' @ pad4 (nat_str (m mod 10000))
      in if q < 0 then CHR ''-'' # body else body)"

definition to_npc :: "int \<Rightarrow> string" where
  "to_npc base_units = format_4f (float_div base_units 100000000)"

section \<open>Accuracy\<close>

lemma round_half_even_error: "\<bar>of_int (round_half_even q) - q\<bar> \<le> 1 / 2"
proof -
  have "of_int \<lfloor>q\<rfloor> \<le> q" "q < of_int \<lfloor>q\<rfloor> + 1" by linarith+
  then show ?thesis by (auto simp: round_half_even_def Let_def)
qed

lemma round_half_even_of_int: "round_half_even (of_int n) = n"
  by (simp add: round_half_even_def Let_def)

lemma round_half_even_nonneg: "0 \<le> q \<Longrightarrow> 0 \<le> round_half_even q"
  by (auto simp: round_half_even_def Let_def)


lemma bit_length_bounds: "0 < n \<Longrightarrow> 2 ^ (bit_length n - 1) \<le> n \<and> n < 2 ^ bit_length n \<and> 0 < bit_length n"
proof (induction n rule: bit_length.induct)
  case (1 n)
  show ?case
  proof (cases "n div 2 = 0")
    case True
    with 1 have "n = 1" by simp
    then show ?thesis by (simp add: bit_length.simps)
  next
    case False
    with 1 have ih: "2 ^ (bit_length (n div 2) - 1) \<le> n div 2" "n div 2 < 2 ^ bit_length (n div 2)"
      "0 < bit_length (n div 2)" by simp_all
    have b: "bit_length n = Suc (bit_length (n div 2))" using 1 by (simp add: bit_length.simps [of n])
    have "(2::nat) ^ bit_length (n div 2) = 2 * 2 ^ (bit_length (n div 2) - 1)"
      using ih(3) by (simp flip: power_Suc)
    then have "2 ^ bit_length (n div 2) \<le> n" using ih(1) by linarith
    moreover have "n < 2 * 2 ^ bit_length (n div 2)" using ih(2) by linarith
    ultimately show ?thesis by (simp add: b)
  qed
qed

text \<open>The chosen step is at most \<open>2 ^ -52\<close> of the quotient, so the quotient is met within half of it.\<close>

lemma ulp_exponent_bound:
  assumes "0 < n" "0 < d"
  shows "2 ^ 52 * 2 powi ulp_exponent n d \<le> (of_nat n / of_nat d :: rat)"
proof -
  let ?q = "of_nat n / of_nat d :: rat" and ?e = "int (bit_length n) - int (bit_length d) - 53"
  note n = bit_length_bounds [OF assms(1)] and d = bit_length_bounds [OF assms(2)]
  have split: "(2::rat) ^ k * 2 powi e = 2 powi (int k + e)" for k e
    by (simp add: power_int_add)
  have "(2::rat) powi (int 52 + ?e) = 2 ^ (bit_length n - 1) / 2 ^ bit_length d"
    using n by (simp add: power_int_diff power_int_add of_nat_diff flip: power_int_of_nat)
  also have "\<dots> \<le> of_nat n / of_nat d"
  proof (rule frac_le)
    show "(2::rat) ^ (bit_length n - 1) \<le> of_nat n" using n by (metis of_nat_le_iff of_nat_numeral of_nat_power)
    show "(of_nat d::rat) \<le> 2 ^ bit_length d" using d by (metis less_imp_le of_nat_le_iff of_nat_numeral of_nat_power)
  qed (use assms in simp_all)
  finally have low: "2 ^ 52 * 2 powi ?e \<le> ?q" by (simp only: split)
  have "(2::rat) ^ 52 * 2 powi (?e + 1) = 2 ^ 53 * 2 powi ?e" by (simp only: split) (simp add: algebra_simps)
  with low show ?thesis by (auto simp: ulp_exponent_def Let_def)
qed

lemma float_div_pos_error:
  assumes "0 < n" "0 < d"
  shows "\<bar>float_div_pos n d - of_nat n / of_nat d\<bar> \<le> of_nat n / of_nat d / 2 ^ 53"
proof -
  let ?q = "of_nat n / of_nat d :: rat" and ?u = "2 powi ulp_exponent n d :: rat"
  have u: "0 < ?u" by simp
  have "float_div_pos n d - ?q = (of_int (round_half_even (?q / ?u)) - ?q / ?u) * ?u"
    using u by (simp add: float_div_pos_def Let_def algebra_simps)
  then have "\<bar>float_div_pos n d - ?q\<bar> = \<bar>of_int (round_half_even (?q / ?u)) - ?q / ?u\<bar> * ?u"
    using u by (simp add: abs_mult)
  also have "\<dots> \<le> 1 / 2 * ?u" using u by (intro mult_right_mono round_half_even_error) simp
  also have "\<dots> \<le> ?q / 2 ^ 53" using ulp_exponent_bound [OF assms] by (simp add: field_simps)
  finally show ?thesis .
qed

lemma float_div_error:
  assumes "0 < d"
  shows "\<bar>float_div n d - of_int n / of_nat d\<bar> \<le> \<bar>of_int n\<bar> / of_nat d / 2 ^ 53"
proof (cases n "0 :: int" rule: linorder_cases)
  case less
  have "float_div n d - of_int n / of_nat d = - (float_div_pos (nat (- n)) d - of_nat (nat (- n)) / of_nat d)"
    using less by (simp add: float_div_def)
  then show ?thesis using float_div_pos_error [of "nat (- n)" d] less assms by (simp only: abs_minus_cancel) simp
next
  case greater
  then show ?thesis using float_div_pos_error [of "nat n" d] assms by (simp add: float_div_def)
qed (simp add: float_div_def)

lemma float_div_sign:
  assumes "0 < d"
  shows "(float_div n d < 0) = (n < 0)"
proof -
  have close: "(f < 0) = (q < 0)" if "\<bar>f - q\<bar> \<le> \<bar>q\<bar> / 2 ^ 53" for f q :: rat
  proof (cases "q < 0")
    case True
    with that have "f \<le> q + (- q) / 2 ^ 53" by (simp only: abs_le_iff abs_of_neg) linarith
    with True show ?thesis by simp
  next
    case False
    with that have "q - q / 2 ^ 53 \<le> f" by (simp only: abs_le_iff abs_of_nonneg not_less) linarith
    moreover have "0 \<le> q - q / 2 ^ 53" using False by simp
    ultimately show ?thesis using False by linarith
  qed
  have "\<bar>float_div n d - of_int n / of_nat d\<bar> \<le> \<bar>of_int n / of_nat d\<bar> / 2 ^ 53"
    using float_div_error [OF assms, of n] by (simp add: abs_divide)
  from close [OF this] assms show ?thesis by (simp add: divide_less_0_iff)
qed

text \<open>The number of ten-thousandths that a formatted amount shows.\<close>

definition shown :: "rat \<Rightarrow> int" where
  "shown q = round_half_even (q * 10000)"

lemma to_npc_shows:
  assumes "\<bar>n\<bar> < 2 ^ 63"
  shows "\<bar>of_int (shown (float_div n 100000000)) / 10000 - of_int n / 100000000\<bar> < (61 / 1000000 :: rat)"
    and "10000 dvd n \<Longrightarrow> shown (float_div n 100000000) = n div 10000"
proof -
  let ?q = "of_int n / 100000000 :: rat" and ?f = "float_div n 100000000"
  have "\<bar>of_int n\<bar> \<le> (2 ^ 63 :: rat)" using assms by (metis less_imp_le of_int_abs of_int_le_iff of_int_numeral of_int_power)
  with float_div_error [of 100000000 n] have err: "\<bar>?f - ?q\<bar> \<le> 1024 / 100000000" by (simp add: field_simps)
  have round: "\<bar>of_int (shown ?f) - ?f * 10000\<bar> \<le> 1 / 2" unfolding shown_def by (rule round_half_even_error)
  have bounds: "?f \<le> ?q + 1024 / 100000000" "?q - 1024 / 100000000 \<le> ?f"
    "of_int (shown ?f) \<le> ?f * 10000 + 1 / 2" "?f * 10000 - 1 / 2 \<le> of_int (shown ?f)"
    using err round by (simp_all only: abs_le_iff) linarith+
  show "\<bar>of_int (shown ?f) / 10000 - ?q\<bar> < 61 / 1000000"
    using bounds by linarith
  show "shown ?f = n div 10000" if dvd: "10000 dvd n"
  proof -
    obtain k where k: "n = 10000 * k" using dvd by (rule dvdE)
    then have "?q * 10000 = of_int k" by simp
    with bounds have "of_int (shown ?f) < (of_int (k + 1) :: rat)" "of_int (k - 1) < (of_int (shown ?f) :: rat)"
      unfolding of_int_add of_int_diff of_int_1 by linarith+
    then have "shown ?f < k + 1" "k - 1 < shown ?f" by (simp_all only: of_int_less_iff)
    with k show ?thesis by simp
  qed
qed

text \<open>
  An amount that fits its column and has at most four decimals is shown exactly; any other is
  shown with an error below 0.000061, half a unit of the last place and what the division loses.
\<close>

theorem to_npc_accurate:
  assumes "\<bar>n\<bar> < 2 ^ 63"
  shows "\<exists>m. to_npc n = (if n < 0 then ''-'' else []) @ nat_str (m div 10000) @ ''.'' @ pad4 (nat_str (m mod 10000)) \<and>
    \<bar>of_nat m / 10000 - of_int \<bar>n\<bar> / 100000000\<bar> < (61 / 1000000 :: rat) \<and>
    (10000 dvd n \<longrightarrow> int m = \<bar>n\<bar> div 10000)"
proof (intro exI conjI impI)
  let ?f = "float_div n 100000000"
  have sign: "0 \<le> shown ?f" if "0 \<le> n"
    using that float_div_sign [of 100000000 n] by (simp add: shown_def round_half_even_nonneg)
  have sign': "shown ?f \<le> 0" if "n < 0"
  proof -
    have "of_int (shown ?f) \<le> ?f * 10000 + (1 / 2 :: rat)"
      using round_half_even_error [of "?f * 10000"] unfolding shown_def by linarith
    then have "of_int (shown ?f) < (1 :: rat)" using that float_div_sign [of 100000000 n] by linarith
    then show ?thesis by simp
  qed
  show "to_npc n = (if n < 0 then ''-'' else []) @ nat_str (nat \<bar>shown ?f\<bar> div 10000) @ ''.'' @
      pad4 (nat_str (nat \<bar>shown ?f\<bar> mod 10000))"
    using float_div_sign [of 100000000 n] by (simp add: to_npc_def format_4f_def shown_def Let_def)
  show "\<bar>of_nat (nat \<bar>shown ?f\<bar>) / 10000 - of_int \<bar>n\<bar> / 100000000\<bar> < (61 / 1000000 :: rat)"
    using to_npc_shows(1) [OF assms] sign sign' by (cases "n < 0") (simp_all add: abs_minus_commute)
  show "int (nat \<bar>shown ?f\<bar>) = \<bar>n\<bar> div 10000" if "10000 dvd n"
    using to_npc_shows(2) [OF assms that] that sign sign' by (cases "n < 0") (auto elim!: dvdE)
qed

lemma to_npc_accurate_witness: "to_npc 12345000000 = ''123.4500''"
proof -
  obtain m where m: "to_npc 12345000000 = nat_str (m div 10000) @ ''.'' @ pad4 (nat_str (m mod 10000))"
    "int m = 1234500"
    using to_npc_accurate [of 12345000000] by auto
  then have "m = 1234500" by simp
  then have "m div 10000 = 123" "m mod 10000 = 4500" by simp_all
  moreover have "nat_str 123 = ''123''" "pad4 (nat_str 4500) = ''4500''" by code_simp+
  ultimately show ?thesis by (simp only: m(1) append.simps)
qed

end
