(* ===== verification/WriteApi.thy ===== *)
theory WriteApi
  imports Auth UnstakeProcessor Tiers PyFloat
begin

text \<open>
  \<open>src/api/schemas.py\<close> and \<open>src/api/write.py\<close>: the three signed endpoints that change state.
  The state is the process's nonce cache and the database. A request record holds the fields
  after parsing; the constraints of the schema are checked first and answered with 422.
\<close>

section \<open>Schemas\<close>

record SignedRequest =
  req_address :: string
  req_nonce :: string
  req_timestamp :: int
  req_signature :: string
  req_pubkey :: string

record RequestUnstake = SignedRequest +
  req_amount :: int

record CancelUnstake = SignedRequest +
  req_request_id :: int

definition signed_fields_valid :: "'a SignedRequest_scheme \<Rightarrow> bool" where
  "signed_fields_valid r \<longleftrightarrow>
     43 \<le> length (req_address r) \<and> length (req_address r) \<le> 64 \<and>
     8 \<le> length (req_nonce r) \<and> length (req_nonce r) \<le> 64 \<and>
     0 < req_timestamp r \<and> 10 \<le> length (req_signature r) \<and> 10 \<le> length (req_pubkey r)"

definition request_unstake_valid :: "RequestUnstake \<Rightarrow> bool" where
  "request_unstake_valid r \<longleftrightarrow> signed_fields_valid r \<and> 0 < req_amount r"

definition cancel_unstake_valid :: "CancelUnstake \<Rightarrow> bool" where
  "cancel_unstake_valid r \<longleftrightarrow> signed_fields_valid r \<and> 0 < req_request_id r"

section \<open>The frame of a handler\<close>

record app =
  nonces :: nonce_cache
  database :: db

text \<open>Three readings of the clock: two by the replay check, one for the rows written.\<close>

record readings =
  clock1 :: time
  clock2 :: time
  clock3 :: time

fun unauthorized :: "py_error \<Rightarrow> py_error" where
  "unauthorized (SignatureError m) = HTTPException 401 (''signature_error: '' @ m)"
| "unauthorized e = e"

definition validation_error :: py_error where
  "validation_error = HTTPException 422 ''validation_error''"

definition endpoint ::
  "bool \<Rightarrow> crypto \<Rightarrow> readings \<Rightarrow> string \<Rightarrow> int \<Rightarrow> 'r SignedRequest_scheme \<Rightarrow> (session, 'a) exec \<Rightarrow>
     (app, 'a) exec" where
  "endpoint valid c k action n req body = (\<lambda>s.
     if \<not> valid then (Inl validation_error, s)
     else case verify_signed_request c (clock1 k) (clock2 k) action (req_address req) n
              (req_nonce req) (req_timestamp req) (req_signature req) (req_pubkey req) (nonces s) of
         (Inl e, seen) \<Rightarrow> (Inl (unauthorized e), s\<lparr>nonces := seen\<rparr>)
       | (Inr _, seen) \<Rightarrow>
           (case get_session body (clock3 k) (database s) of (r, d) \<Rightarrow>
             (r, s\<lparr>nonces := seen, database := d\<rparr>)))"

definition current_height :: "(session, int) exec" where
  "current_height =
     bind (gets (\<lambda>s. watcher (working s))) (\<lambda>state.
       case state of
         None \<Rightarrow> raise (HTTPException 503 ''service_uninitialized'')
       | Some w \<Rightarrow>
           if \<not> snapshot_complete w then raise (HTTPException 503 ''snapshot_in_progress'')
           else return (last_processed_height w))"

section \<open>POST /request-unstake\<close>

record unstake_response =
  ur_status :: string
  ur_request_id :: int
  ur_amount :: int
  ur_amount_npc :: string
  ur_request_height :: int
  ur_unlock_height :: int
  ur_blocks_until_unlock :: int
  ur_new_staked_amount :: int
  ur_new_tier :: string

definition new_request :: "string \<Rightarrow> int \<Rightarrow> int \<Rightarrow> int \<Rightarrow> int \<Rightarrow> UnstakeRequest" where
  "new_request a n height unlock i = \<lparr>request_id = i, request_address = a, request_amount = n,
     request_height = height, unlock_height = unlock, request_status = PENDING,
     refund_tx_hash = None, completed_height = None\<rparr>"

definition set_stake :: "int \<Rightarrow> int \<Rightarrow> Staker \<Rightarrow> Staker" where
  "set_stake new_staked height st = st\<lparr>staked_amount := new_staked,
     tier := tier_name (tier_for new_staked), last_activity_height := Some height\<rparr>"

definition request_unstake_body :: "string \<Rightarrow> int \<Rightarrow> (session, unstake_response) exec" where
  "request_unstake_body a n =
     bind (gets (\<lambda>s. get_staker (working s) a)) (\<lambda>found.
     case found of
       None \<Rightarrow> raise (HTTPException 404 ''staker_not_found'')
     | Some staker \<Rightarrow>
         if staked_amount staker < n then
           raise (HTTPException 400 (''insufficient_stake (have '' @ int_str (staked_amount staker) @
             '', requested '' @ int_str n @ '')''))
         else
           bind current_height (\<lambda>height.
           let unlock = height + unstake_cooldown_blocks;
               new_staked = staked_amount staker - n
           in andthen (write_staker (set_stake new_staked height staker))
             (bind (insert_request (new_request a n height unlock)) (\<lambda>u.
              andthen commit
                (return \<lparr>ur_status = ''queued'', ur_request_id = request_id u, ur_amount = n,
                   ur_amount_npc = to_npc n, ur_request_height = height,
                   ur_unlock_height = unlock, ur_blocks_until_unlock = unlock - height,
                   ur_new_staked_amount = new_staked,
                   ur_new_tier = tier_name (tier_for new_staked)\<rparr>)))))"

definition request_unstake ::
  "crypto \<Rightarrow> readings \<Rightarrow> RequestUnstake \<Rightarrow> (app, unstake_response) exec" where
  "request_unstake c k req =
     endpoint (request_unstake_valid req) c k ''UNSTAKE'' (req_amount req) req
       (request_unstake_body (req_address req) (req_amount req))"

section \<open>POST /cancel-unstake\<close>

record cancel_response =
  cr_status :: string
  cr_request_id :: int
  cr_amount_restored :: int
  cr_amount_restored_npc :: string
  cr_new_staked_amount :: int
  cr_new_tier :: string

definition status_name :: "unstake_status \<Rightarrow> string" where
  "status_name st = (case st of PENDING \<Rightarrow> ''PENDING'' | READY \<Rightarrow> ''READY''
     | COMPLETED \<Rightarrow> ''COMPLETED'' | CANCELLED \<Rightarrow> ''CANCELLED'')"

text \<open>
  \<open>request_id\<close> has no upper bound in the schema of the request: the driver refuses one that is no
  BIGINT as the parameter of \<open>session.get\<close>.
\<close>

definition cancel_unstake_body :: "string \<Rightarrow> int \<Rightarrow> (session, cancel_response) exec" where
  "cancel_unstake_body a i =
     andthen (raise_unless (big_integer i) DataError)
    (bind (gets (\<lambda>s. get_request (working s) i)) (\<lambda>found.
     case found of
       None \<Rightarrow> raise (HTTPException 404 ''request_not_found'')
     | Some u \<Rightarrow>
         if request_address u \<noteq> a then raise (HTTPException 403 ''not_your_request'')
         else if request_status u \<notin> {PENDING, READY} then
           raise (HTTPException 400 (''cannot_cancel (status='' @ status_name (request_status u) @ '')''))
         else
           bind (gets (\<lambda>s. get_staker (working s) a)) (\<lambda>owner.
           case owner of
             None \<Rightarrow> raise (HTTPException 404 ''staker_not_found'')
           | Some staker \<Rightarrow>
               bind current_height (\<lambda>height.
               let new_staked = staked_amount staker + request_amount u
               in andthen (write_staker (set_stake new_staked height staker))
                 (andthen (write_request
                    (u\<lparr>request_status := CANCELLED, completed_height := Some height\<rparr>))
                 (andthen commit
                    (return \<lparr>cr_status = ''cancelled'', cr_request_id = i,
                       cr_amount_restored = request_amount u,
                       cr_amount_restored_npc = to_npc (request_amount u),
                       cr_new_staked_amount = new_staked,
                       cr_new_tier = tier_name (tier_for new_staked)\<rparr>)))))))"

definition cancel_unstake :: "crypto \<Rightarrow> readings \<Rightarrow> CancelUnstake \<Rightarrow> (app, cancel_response) exec" where
  "cancel_unstake c k req =
     endpoint (cancel_unstake_valid req) c k ''CANCEL_UNSTAKE'' (req_request_id req) req
       (cancel_unstake_body (req_address req) (req_request_id req))"

section \<open>POST /claim-rewards\<close>

record claim_response =
  cl_status :: string
  cl_amount :: int
  cl_amount_npc :: string
  cl_payout_id :: "int option"
  cl_ref :: string
  cl_claimed_at_height :: int

definition drain_reward :: "int \<Rightarrow> ValidatorReward \<Rightarrow> ValidatorReward" where
  "drain_reward height r = r\<lparr>pending_rewards := 0,
     total_claimed := total_claimed r + pending_rewards r, last_claimed_height := Some height\<rparr>"

text \<open>
  \<open>payout.id if payout else None\<close>, evaluated for the log after the commit: what
  \<open>enqueue_payout\<close> returns is the id itself, an integer without that attribute.
\<close>

definition payout_id_attribute :: "int \<Rightarrow> (session, int option) exec" where
  "payout_id_attribute payout = (if payout \<noteq> 0 then raise AttributeError else return None)"

definition claim_ref :: "string \<Rightarrow> int \<Rightarrow> string \<Rightarrow> string" where
  "claim_ref a height nonce = ''reward_claim:'' @ a @ '':'' @ int_str height @ '':'' @ nonce"

definition claim_rewards_body :: "string \<Rightarrow> string \<Rightarrow> (session, claim_response) exec" where
  "claim_rewards_body a nonce =
     bind (gets (\<lambda>s. get_reward (working s) a)) (\<lambda>found.
     case found of
       None \<Rightarrow> raise (HTTPException 400 ''no_pending_rewards'')
     | Some r \<Rightarrow>
         if pending_rewards r \<le> 0 then raise (HTTPException 400 ''no_pending_rewards'')
         else
           bind current_height (\<lambda>height.
           let n = pending_rewards r;
               ref = claim_ref a height nonce
           in andthen (write_reward (drain_reward height r))
             (bind (enqueue_payout a n ''REWARD_CLAIM'' ref) (\<lambda>payout.
              andthen commit
             (bind (payout_id_attribute payout) (\<lambda>pid.
                return \<lparr>cl_status = ''queued'', cl_amount = n, cl_amount_npc = to_npc n,
                  cl_payout_id = pid, cl_ref = ref, cl_claimed_at_height = height\<rparr>)))))) "

definition claim_rewards :: "crypto \<Rightarrow> readings \<Rightarrow> SignedRequest \<Rightarrow> (app, claim_response) exec" where
  "claim_rewards c k req =
     endpoint (signed_fields_valid req) c k ''CLAIM_REWARDS'' 0 req
       (claim_rewards_body (req_address req) (req_nonce req))"

end
