(* ===== verification/Runner.thy ===== *)
theory Runner
  imports Queue
begin

text \<open>
  \<open>src/signing/runner.py\<close>: the loop that claims queued payouts, hands each to the signer and
  records the outcome. The signer is any \<open>payout_signer\<close>; \<open>exc_str\<close> renders an exception of
  the signer as \<open>str(e)\<close> does.

  The query of \<open>_claim_batch\<close> locks its rows and skips those that another transaction has locked
  (\<open>FOR UPDATE SKIP LOCKED\<close>). Transactions are atomic here and there is one runner, whose batches are
  claimed and processed one after another, so no row is locked when the query runs. Payouts of the
  same \<open>created_at\<close>, which \<open>ORDER BY\<close> leaves tied, come in insertion order.
\<close>

definition MAX_ATTEMPTS :: int where "MAX_ATTEMPTS = 5"
definition BATCH_SIZE :: nat where "BATCH_SIZE = 10"

section \<open>Claiming a batch\<close>

definition claimable :: "PendingPayout \<Rightarrow> bool" where
  "claimable p \<longleftrightarrow> payout_status p = QUEUED \<and> attempts p < MAX_ATTEMPTS"

definition batch_query :: "db \<Rightarrow> PendingPayout list" where
  "batch_query d =
     take BATCH_SIZE (sort_key payout_created_at (filter claimable (pending_payouts d)))"

definition claim_batch :: "(session, PendingPayout list) exec" where
  "claim_batch =
     bind (gets (\<lambda>s. batch_query (working s))) (\<lambda>payouts.
     andthen (for_each (\<lambda>p. write_payout (p\<lparr>payout_status := SIGNING\<rparr>)) payouts)
    (andthen commit
      (return (map (\<lambda>p. p\<lparr>payout_status := SIGNING\<rparr>) payouts))))"

section \<open>Processing one payout\<close>

definition payout_outcome :: "(py_error \<Rightarrow> string) \<Rightarrow> string res \<Rightarrow> PendingPayout \<Rightarrow> PendingPayout" where
  "payout_outcome exc_str r p =
     (case r of
        Inr tx_hash \<Rightarrow>
          p\<lparr>payout_status := SUBMITTED, payout_tx_hash := Some tx_hash, attempts := attempts p + 1\<rparr>
      | Inl (NotImplementedError m) \<Rightarrow>
          p\<lparr>payout_status := QUEUED, attempts := attempts p + 1,
            error_message := Some (take 512 (''signer_not_wired: '' @ m))\<rparr>
      | Inl e \<Rightarrow>
          p\<lparr>attempts := attempts p + 1, error_message := Some (take 512 (exc_str e)),
            payout_status := (if MAX_ATTEMPTS \<le> attempts p + 1 then FAILED else QUEUED)\<rparr>)"

text \<open>
  \<open>_process_one\<close>: in its own session, it re-reads the row, calls the signer and writes the
  outcome; the session commits it. The signer's world changes even when the commit fails.
\<close>

definition process_one ::
  "(PendingPayout \<Rightarrow> ('w, string) exec) \<Rightarrow> (py_error \<Rightarrow> string) \<Rightarrow> time \<Rightarrow> int \<Rightarrow>
     db \<times> 'w \<Rightarrow> unit res \<times> db \<times> 'w" where
  "process_one signer exc_str t i = (\<lambda>(d, w).
     case get_payout d i of
       None \<Rightarrow> (Inr (), d, w)
     | Some p \<Rightarrow>
         if payout_status p \<noteq> SIGNING then (Inr (), d, w)
         else (case signer p w of (r, w') \<Rightarrow>
           (case session_scope (write_payout (payout_outcome exc_str r p)) t d of (r', d') \<Rightarrow>
             (r', d', w'))))"

section \<open>One round of the loop\<close>

definition runner_tick ::
  "(PendingPayout \<Rightarrow> ('w, string) exec) \<Rightarrow> (py_error \<Rightarrow> string) \<Rightarrow> time \<Rightarrow>
     (db \<times> 'w, int) exec" where
  "runner_tick signer exc_str t = (\<lambda>(d, w).
     case session_scope claim_batch t d of
       (Inl e, d') \<Rightarrow> (Inl e, d', w)
     | (Inr payouts, d') \<Rightarrow>
         (if payouts = [] then return 0
          else andthen (for_each (\<lambda>p. process_one signer exc_str t (payout_id p)) payouts)
                 (return (int (length payouts)))) (d', w))"

end
