(* ===== verification/Client.thy ===== *)
theory Client
  imports PyValues
begin

text \<open>
  \<open>src/chain/client.py\<close>: the retry loops around the L1 node's HTTP API. The network is a
  parameter: \<open>answer k req\<close> is what the \<open>k\<close>-th request of the process gets back. The state is
  the number of requests sent and the seconds slept.
\<close>

datatype http_request = GET string | POST string json

text \<open>A transport error with its message, or a status code with the parsed body, if any.\<close>

datatype http_outcome = TransportError string | Response int "json option"

record env =
  answer :: "nat \<Rightarrow> http_request \<Rightarrow> http_outcome"
  wall_clock :: "nat \<Rightarrow> rat"

record rpc =
  requests :: nat
  slept :: rat

definition send :: "env \<Rightarrow> http_request \<Rightarrow> (rpc, http_outcome) exec" where
  "send env req = (\<lambda>s. (Inr (answer env (requests s) req), s\<lparr>requests := Suc (requests s)\<rparr>))"

definition sleep :: "rat \<Rightarrow> (rpc, unit) exec" where
  "sleep d = modify (\<lambda>s. s\<lparr>slept := slept s + d\<rparr>)"

definition throttled :: "int \<Rightarrow> bool" where
  "throttled status \<longleftrightarrow> status = 429 \<or> (500 \<le> status \<and> status < 600)"

definition is_success :: "int \<Rightarrow> bool" where
  "is_success status \<longleftrightarrow> 200 \<le> status \<and> status < 300"

definition backoff :: "rat \<Rightarrow> rat" where
  "backoff delay = min (delay * 2) 30"

definition error_text :: "string option \<Rightarrow> string" where
  "error_text e = (case e of None \<Rightarrow> ''None'' | Some m \<Rightarrow> m)"

fun json_body :: "json option \<Rightarrow> json res" where
  "json_body None = Inl JSONDecodeError"
| "json_body (Some j) = Inr j"

text \<open>
  The body of both loops. \<open>courtesy\<close> is the pause after a good answer (\<open>_get\<close> has one,
  \<open>submit_tx\<close> has none); \<open>failed\<close> is the message when the attempts are used up.
\<close>

fun retry_loop ::
  "env \<Rightarrow> http_request \<Rightarrow> rat \<Rightarrow> string \<Rightarrow> nat \<Rightarrow> rat \<Rightarrow> string option \<Rightarrow> (rpc, json) exec" where
  "retry_loop env req courtesy failed 0 delay last_error =
     raise (ChainRPCError (failed @ error_text last_error))"
| "retry_loop env req courtesy failed (Suc k) delay last_error =
     bind (send env req) (\<lambda>r.
       case r of
         TransportError m \<Rightarrow>
           andthen (sleep delay)
             (retry_loop env req courtesy failed k (backoff delay) (Some m))
       | Response status body \<Rightarrow>
           if throttled status then
             andthen (sleep delay)
               (retry_loop env req courtesy failed k (backoff delay) last_error)
           else if \<not> is_success status then
             andthen (sleep delay)
               (retry_loop env req courtesy failed k (backoff delay)
                  (Some (''HTTP status '' @ int_str status)))
           else andthen (sleep courtesy) (lift (json_body body)))"

definition rpc_get :: "env \<Rightarrow> string \<Rightarrow> nat \<Rightarrow> (rpc, json) exec" where
  "rpc_get env path max_retries =
     retry_loop env (GET path) (1 / 20)
       (''GET '' @ path @ '' failed after '' @ nat_str max_retries @ '' retries: '')
       max_retries 1 None"

definition submit_tx :: "env \<Rightarrow> json \<Rightarrow> (rpc, json) exec" where
  "submit_tx env payload =
     retry_loop env (POST ''/api/v1/tx/submit'' payload) 0
       ''submit_tx failed after 5 retries: '' 5 1 None"

definition status :: "env \<Rightarrow> (rpc, json) exec" where
  "status env = rpc_get env ''/api/v1/status'' 5"

definition balance :: "env \<Rightarrow> string \<Rightarrow> (rpc, int) exec" where
  "balance env address =
     bind (rpc_get env (''/api/v1/balance/'' @ address) 5) (\<lambda>data.
       lift (rbind (json_get data ''balance_base'' (JInt 0)) py_int))"

definition block :: "env \<Rightarrow> int \<Rightarrow> (rpc, json) exec" where
  "block env height = rpc_get env (''/api/v1/block/'' @ int_str height) 5"

definition latest_height :: "env \<Rightarrow> (rpc, int) exec" where
  "latest_height env =
     bind (status env) (\<lambda>s. lift (rbind (json_get s ''height'' (JInt 0)) py_int))"

section \<open>The client object\<close>

text \<open>
  The object holds the address of the node, without a slash at its end, and an HTTP session of the
  library while it is used as a context manager. Each component that talks to the node does so
  inside one; \<open>rpc_get\<close> and \<open>submit_tx\<close> above are the requests of such a block.
\<close>

record ChainRPCClient =
  base_url :: string
  timeout :: rat
  http_client :: bool

definition l1_rpc_url :: string where
  "l1_rpc_url = ''http://34.75.143.141:18333''"

definition rstrip_slash :: "string \<Rightarrow> string" where
  "rstrip_slash s = rev (dropWhile (\<lambda>c. c = CHR ''/'') (rev s))"

definition new_client :: "string option \<Rightarrow> rat \<Rightarrow> ChainRPCClient" where
  "new_client url t = \<lparr>base_url = rstrip_slash (if url = None \<or> url = Some [] then l1_rpc_url else the url),
     timeout = t, http_client = False\<rparr>"

definition aenter :: "(ChainRPCClient, unit) exec" where
  "aenter = modify (\<lambda>s. s\<lparr>http_client := True\<rparr>)"

definition aexit :: "(ChainRPCClient, unit) exec" where
  "aexit = modify (\<lambda>s. if http_client s then s\<lparr>http_client := False\<rparr> else s)"

definition client :: "(ChainRPCClient, unit) exec" where
  "client = bind (gets http_client) (\<lambda>opened.
     if \<not> opened then raise (RuntimeError ''ChainRPCClient must be used as async context manager'')
     else return ())"

text \<open>A request outside the block raises; inside it the session is there, and is closed at its end.\<close>

lemma client_block:
  "client (new_client url t) = (Inl (RuntimeError ''ChainRPCClient must be used as async context manager''), new_client url t)"
  "andthen aenter client s = (Inr (), s\<lparr>http_client := True\<rparr>)"
  "andthen aenter (andthen client aexit) s = (Inr (), s\<lparr>http_client := False\<rparr>)"
  by (simp_all add: client_def aenter_def aexit_def new_client_def bind_modify bind_gets raise_exec return_exec
      bind_assoc modify_exec)

lemma base_url_no_slash: "base_url (new_client url t) = u @ [c] \<Longrightarrow> c \<noteq> CHR ''/''"
proof -
  assume "base_url (new_client url t) = u @ [c]"
  then have "dropWhile (\<lambda>c. c = CHR ''/'') (rev (if url = None \<or> url = Some [] then l1_rpc_url else the url)) =
      c # rev u"
    by (simp add: new_client_def rstrip_slash_def rev_swap)
  then show "c \<noteq> CHR ''/''" using hd_dropWhile [of "\<lambda>c. c = CHR ''/''"] by (metis list.discI list.sel(1))
qed

section \<open>Properties of the loop\<close>

text \<open>What an attempt that ends the loop looks like.\<close>

fun good :: "http_outcome \<Rightarrow> bool" where
  "good (TransportError m) = False"
| "good (Response st body) = (\<not> throttled st \<and> is_success st)"

fun body_of :: "http_outcome \<Rightarrow> json res" where
  "body_of (TransportError m) = Inl JSONDecodeError"
| "body_of (Response st body) = json_body body"

lemma retry_loop_step:
  "retry_loop env req courtesy failed (Suc k) delay last_error s =
     (let r = answer env (requests s) req; s' = s\<lparr>requests := Suc (requests s)\<rparr>
      in if good r then (body_of r, s'\<lparr>slept := slept s + courtesy\<rparr>)
         else retry_loop env req courtesy failed k (backoff delay)
                (case r of TransportError m \<Rightarrow> Some m
                 | Response st body \<Rightarrow> if throttled st then last_error
                                        else Some (''HTTP status '' @ int_str st))
                (s'\<lparr>slept := slept s + delay\<rparr>))"
  by (cases "answer env (requests s) req")
    (auto simp: bind_def send_def sleep_def modify_def lift_def Let_def)

declare retry_loop.simps(2) [simp del]

lemma retry_loop_requests:
  assumes "retry_loop env req courtesy failed k delay last_error s = (r, s')"
  shows "requests s \<le> requests s' \<and> requests s' \<le> requests s + k"
  using assms
proof (induction k arbitrary: delay last_error s)
  case 0
  then show ?case by (simp add: raise_def)
next
  case (Suc k)
  show ?case
  proof (cases "good (answer env (requests s) req)")
    case True
    with Suc.prems show ?thesis by (auto simp: retry_loop_step Let_def)
  next
    case False
    with Suc.prems show ?thesis
      by (auto simp: retry_loop_step Let_def dest!: Suc.IH)
  qed
qed

text \<open>The seconds \<open>k\<close> failed attempts sleep, starting at \<open>delay\<close>.\<close>

fun total_backoff :: "nat \<Rightarrow> rat \<Rightarrow> rat" where
  "total_backoff 0 delay = 0"
| "total_backoff (Suc k) delay = delay + total_backoff k (backoff delay)"

lemma retry_loop_first_good:
  assumes "j < k" and "good (answer env (requests s + j) req)"
    and "\<forall>i < j. \<not> good (answer env (requests s + i) req)"
  shows "retry_loop env req courtesy failed k delay last_error s =
    (body_of (answer env (requests s + j) req),
     s\<lparr>requests := requests s + Suc j, slept := slept s + total_backoff j delay + courtesy\<rparr>)"
  using assms
proof (induction k arbitrary: j delay last_error s)
  case 0
  then show ?case by simp
next
  case (Suc k)
  show ?case
  proof (cases j)
    case 0
    with Suc.prems show ?thesis by (simp add: retry_loop_step Let_def)
  next
    case (Suc i)
    let ?s = "s\<lparr>requests := Suc (requests s), slept := slept s + delay\<rparr>"
    have "\<not> good (answer env (requests s) req)" using Suc.prems(3) Suc by force
    moreover have "\<forall>i' < i. \<not> good (answer env (requests ?s + i') req)"
      using Suc.prems(3) Suc by auto
    ultimately show ?thesis
      using Suc.IH [of i ?s] Suc.prems Suc
      by (simp add: retry_loop_step Let_def add.assoc)
  qed
qed

lemma retry_loop_exhausted:
  assumes "\<forall>i < k. \<not> good (answer env (requests s + i) req)"
  shows "\<exists>m. retry_loop env req courtesy failed k delay last_error s =
    (Inl (ChainRPCError m),
     s\<lparr>requests := requests s + k, slept := slept s + total_backoff k delay\<rparr>)"
  using assms
proof (induction k arbitrary: delay last_error s)
  case 0
  then show ?case by (simp add: raise_def)
next
  case (Suc k)
  let ?s = "s\<lparr>requests := Suc (requests s), slept := slept s + delay\<rparr>"
  have "\<not> good (answer env (requests s) req)" using Suc.prems by force
  moreover have "\<forall>i < k. \<not> good (answer env (requests ?s + i) req)"
    using Suc.prems by auto
  ultimately show ?case
    using Suc.IH [of ?s] by (simp add: retry_loop_step Let_def add.assoc)
qed

text \<open>Whether a good answer comes at all within \<open>k\<close> attempts, and at which.\<close>

lemma first_good_or_none:
  obtains (first) j where "j < k" "good (f j)" "\<forall>i < j. \<not> good (f i)"
  | (none) "\<forall>i < (k::nat). \<not> good (f i)"
proof (cases "\<exists>j < k. good (f j)")
  case True
  then have ex: "\<exists>j. j < k \<and> good (f j)" by blast
  let ?j = "LEAST j. j < k \<and> good (f j)"
  have "?j < k \<and> good (f ?j)" using ex by (rule LeastI_ex)
  moreover have "\<forall>i < ?j. \<not> good (f i)"
  proof safe
    fix i assume "i < ?j" "good (f i)"
    with \<open>?j < k \<and> good (f ?j)\<close> have "i < k \<and> good (f i)" by simp
    then have "?j \<le> i" by (rule Least_le)
    with \<open>i < ?j\<close> show False by simp
  qed
  ultimately show thesis using first by blast
qed (use none in blast)

text \<open>The delay doubles from one second on, and five attempts do not reach its limit of 30.\<close>

lemma total_backoff_doubles: "k \<le> 5 \<Longrightarrow> total_backoff k 1 = 2 ^ k - 1"
proof -
  assume "k \<le> 5"
  then have "k = 0 \<or> k = 1 \<or> k = 2 \<or> k = 3 \<or> k = 4 \<or> k = 5" by arith
  then show ?thesis by (auto simp: numeral_eq_Suc backoff_def)
qed

text \<open>
  C40. A \<open>GET\<close> with the default five attempts: it returns the parsed body of the first answer
  that is neither an error nor throttled, with no request after it; when all five fail it
  raises \<open>ChainRPCError\<close> after exactly five requests. Before the answer of number \<open>j\<close>, counted from 0,
  it sleeps 1, 2, 4, ... seconds, \<open>2 ^ j - 1\<close> in all, and a twentieth of a second after it; when all
  fail it sleeps exactly 31 seconds. It does nothing else.
\<close>

theorem rpc_get_spec:
  "case rpc_get env path 5 s of (r, s') \<Rightarrow>
     (if \<exists>j < 5. good (answer env (requests s + j) (GET path))
      then \<exists>j < 5. r = body_of (answer env (requests s + j) (GET path)) \<and>
             good (answer env (requests s + j) (GET path)) \<and>
             (\<forall>i < j. \<not> good (answer env (requests s + i) (GET path))) \<and>
             s' = s\<lparr>requests := requests s + Suc j, slept := slept s + (2 ^ j - 1) + 1 / 20\<rparr>
      else (\<exists>m. r = Inl (ChainRPCError m)) \<and> s' = s\<lparr>requests := requests s + 5, slept := slept s + 31\<rparr>)"
proof (cases rule: first_good_or_none [of 5 "\<lambda>j. answer env (requests s + j) (GET path)"])
  case (first j)
  have "total_backoff j 1 = 2 ^ j - 1" using first(1) by (intro total_backoff_doubles) simp
  with first show ?thesis
    by (auto simp: rpc_get_def retry_loop_first_good [OF first])
next
  case none
  obtain m where "rpc_get env path 5 s = (Inl (ChainRPCError m),
      s\<lparr>requests := requests s + 5, slept := slept s + total_backoff 5 1\<rparr>)"
    unfolding rpc_get_def using retry_loop_exhausted [OF none] by blast
  moreover have "total_backoff 5 1 = 31" by (simp only: total_backoff_doubles [OF order_refl]) simp
  ultimately show ?thesis using none by auto
qed

lemma rpc_get_spec_witness:
  "rpc_get \<lparr>answer = (\<lambda>k req. if k < 2 then Response 503 None else Response 200 (Some (JInt 7))),
          wall_clock = (\<lambda>_. 0)\<rparr> ''/x'' 5 \<lparr>requests = 0, slept = 0\<rparr> =
     (Inr (JInt 7), \<lparr>requests = 3, slept = 3 + 1 / 20\<rparr>)"
proof -
  let ?env = "\<lparr>answer = (\<lambda>k req. if k < 2 then Response 503 None else Response 200 (Some (JInt 7))),
    wall_clock = (\<lambda>_. 0)\<rparr>"
  have good: "good (answer ?env (0 + j) (GET p)) \<longleftrightarrow> 2 \<le> j" for j p
    by (simp add: throttled_def is_success_def not_less)
  have "\<exists>j < (5::nat). 2 \<le> j" by (rule exI [of _ 2]) simp
  with rpc_get_spec [where env = ?env and path = "''/x''" and s = "\<lparr>requests = 0, slept = 0\<rparr>"] good
  obtain j where j: "j < 5" "2 \<le> j" "\<forall>i < j. \<not> 2 \<le> i"
    "rpc_get ?env ''/x'' 5 \<lparr>requests = 0, slept = 0\<rparr> =
       (body_of (answer ?env (0 + j) (GET ''/x'')), \<lparr>requests = Suc j, slept = 2 ^ j - 1 + 1 / 20\<rparr>)"
    by (auto split: prod.splits)
  then have "j = 2" by (auto simp: not_le dest: spec [of _ 2])
  with j(4) show ?thesis by simp
qed

end
