(* ===== verification/Watcher.thy ===== *)
theory Watcher
  imports Ledger UnstakeProcessor Client
begin

text \<open>
  \<open>src/chain/snapshot.py\<close> and \<open>src/chain/watcher.py\<close>: the one-time walk from genesis to the
  tip and the live loop, both of which apply one block per database transaction and move
  \<open>last_processed_height\<close> with it. The state of a walk is the RPC client's and the database;
  \<open>t\<close> is the clock at which the rows are written.
\<close>

record walk =
  rpc_state :: rpc
  walk_db :: db

definition on_rpc :: "(rpc, 'a) exec \<Rightarrow> (walk, 'a) exec" where
  "on_rpc m = (\<lambda>s. case m (rpc_state s) of (r, n) \<Rightarrow> (r, s\<lparr>rpc_state := n\<rparr>))"

definition in_session_scope :: "(session, 'a) exec \<Rightarrow> time \<Rightarrow> (walk, 'a) exec" where
  "in_session_scope m t = (\<lambda>s. case session_scope m t (walk_db s) of (r, d) \<Rightarrow> (r, s\<lparr>walk_db := d\<rparr>))"

definition new_watcher_state :: WatcherState where
  "new_watcher_state = \<lparr>last_processed_height = 0, snapshot_complete = False,
     snapshot_started_at = None, snapshot_finished_at = None\<rparr>"

definition write_watcher :: "WatcherState \<Rightarrow> (session, unit) exec" where
  "write_watcher w =
     andthen (flush_unless (big_integer (last_processed_height w)) DataError)
       (update_db (\<lambda>d. d\<lparr>watcher := Some w\<rparr>))"

definition get_or_create_watcher_state :: "(session, WatcherState) exec" where
  "get_or_create_watcher_state =
     bind (gets (\<lambda>s. watcher (working s))) (\<lambda>found.
       case found of
         Some w \<Rightarrow> return w
       | None \<Rightarrow> andthen (write_watcher new_watcher_state) (return new_watcher_state))"

section \<open>The snapshot\<close>

text \<open>One block of \<open>_process_batch\<close>: fetch, then apply it and record its height.\<close>

definition snapshot_block_session :: "json \<Rightarrow> int \<Rightarrow> (session, unit) exec" where
  "snapshot_block_session blk h =
     andthen (apply_block_transactions blk)
    (bind get_or_create_watcher_state (\<lambda>w. write_watcher (w\<lparr>last_processed_height := h\<rparr>)))"

definition snapshot_block :: "env \<Rightarrow> time \<Rightarrow> int \<Rightarrow> (walk, unit) exec" where
  "snapshot_block env t h =
     bind (on_rpc (block env h)) (\<lambda>blk. in_session_scope (snapshot_block_session blk h) t)"

definition process_batch :: "env \<Rightarrow> time \<Rightarrow> int \<Rightarrow> int \<Rightarrow> (walk, unit) exec" where
  "process_batch env t start_h end_h = for_each (snapshot_block env t) [start_h..end_h]"

text \<open>
  The \<open>while height <= tip\<close> loop. The tip is asked for again only when the walk has caught up,
  so a chain that grows for ever keeps it going: the loop is a partial function of the
  answers, bounded here by the number of rounds \<open>fuel\<close>; \<open>None\<close> is a walk still under way.
\<close>

fun snapshot_loop :: "env \<Rightarrow> time \<Rightarrow> nat \<Rightarrow> int \<Rightarrow> int \<Rightarrow> walk \<Rightarrow> (int res \<times> walk) option" where
  "snapshot_loop env t 0 height tip s = (if height \<le> tip then None else Some (Inr tip, s))"
| "snapshot_loop env t (Suc fuel) height tip s =
     (if \<not> height \<le> tip then Some (Inr tip, s)
      else
        let batch_end = min (height + snapshot_batch_size - 1) tip
        in case process_batch env t height batch_end s of
             (Inl e, s') \<Rightarrow> Some (Inl e, s')
           | (Inr _, s') \<Rightarrow>
               if tip < batch_end + 1 then
                 (case on_rpc (latest_height env) s' of
                    (Inl e, s'') \<Rightarrow> Some (Inl e, s'')
                  | (Inr new_tip, s'') \<Rightarrow>
                      snapshot_loop env t fuel (batch_end + 1) (max tip new_tip) s'')
               else snapshot_loop env t fuel (batch_end + 1) tip s')"

definition snapshot_start :: "time \<Rightarrow> (session, int) exec" where
  "snapshot_start t =
     bind get_or_create_watcher_state (\<lambda>w.
     let start = (if 0 < last_processed_height w then last_processed_height w + 1 else 0)
     in if snapshot_started_at w = None then
          andthen (write_watcher (w\<lparr>snapshot_started_at := Some t\<rparr>)) (return start)
        else return start)"

definition snapshot_finish :: "time \<Rightarrow> (session, unit) exec" where
  "snapshot_finish t =
     bind get_or_create_watcher_state (\<lambda>w.
       write_watcher (w\<lparr>snapshot_complete := True, snapshot_finished_at := Some t\<rparr>))"

definition run_snapshot :: "env \<Rightarrow> time \<Rightarrow> nat \<Rightarrow> walk \<Rightarrow> (unit res \<times> walk) option" where
  "run_snapshot env t fuel s =
     (case on_rpc (latest_height env) s of
        (Inl e, s1) \<Rightarrow> Some (Inl e, s1)
      | (Inr tip, s1) \<Rightarrow>
          (case in_session_scope (snapshot_start t) t s1 of
             (Inl e, s2) \<Rightarrow> Some (Inl e, s2)
           | (Inr start, s2) \<Rightarrow>
               (case snapshot_loop env t fuel start tip s2 of
                  None \<Rightarrow> None
                | Some (Inl e, s3) \<Rightarrow> Some (Inl e, s3)
                | Some (Inr _, s3) \<Rightarrow> Some (in_session_scope (snapshot_finish t) t s3))))"

section \<open>The live watcher\<close>

definition watcher_block_session :: "json \<Rightarrow> int \<Rightarrow> (session, int) exec" where
  "watcher_block_session blk h =
     andthen (apply_block_transactions blk)
    (bind (gets (\<lambda>s. watcher (working s))) (\<lambda>state.
     andthen (case state of None \<Rightarrow> return ()
              | Some w \<Rightarrow> write_watcher (w\<lparr>last_processed_height := h\<rparr>))
       (process_unlocked_unstakes h)))"

text \<open>The \<open>for\<close> loop over the new heights; a block that cannot be fetched ends the tick.\<close>

fun watch_blocks :: "env \<Rightarrow> time \<Rightarrow> int list \<Rightarrow> (walk, unit) exec" where
  "watch_blocks env t [] = return ()"
| "watch_blocks env t (h # hs) = (\<lambda>s.
     case on_rpc (block env h) s of
       (Inl e, s') \<Rightarrow> (case e of ChainRPCError _ \<Rightarrow> (Inr (), s') | _ \<Rightarrow> (Inl e, s'))
     | (Inr blk, s') \<Rightarrow>
         bind (in_session_scope (watcher_block_session blk h) t)
           (\<lambda>_. watch_blocks env t hs) s')"

definition tick :: "env \<Rightarrow> time \<Rightarrow> (walk, unit) exec" where
  "tick env t =
     bind (on_rpc (latest_height env)) (\<lambda>tip.
     bind (gets (\<lambda>s. watcher (walk_db s))) (\<lambda>state.
       case state of
         None \<Rightarrow> return ()
       | Some w \<Rightarrow>
           if \<not> snapshot_complete w then return ()
           else if tip \<le> last_processed_height w then return ()
           else watch_blocks env t [last_processed_height w + 1..tip]))"

end
