(* ===== verification/Transitions.thy ===== *)
theory Transitions
  imports Ledger WriteApi Runner Watcher
begin

text \<open>
  The abstract specification of the service's database: the transitions its components may
  make, each as one atomic change of the tables. The theory \<open>Simulation\<close> shows that every
  operation of the code makes only such transitions, commits and rollbacks; the theory
  \<open>Invariants\<close> shows what every transition keeps.
\<close>

section \<open>The effect of a pool inflow\<close>

definition credit_row :: "string \<Rightarrow> int \<Rightarrow> int \<Rightarrow> ValidatorReward list \<Rightarrow> ValidatorReward list" where
  "credit_row a share height rewards =
     (case row_get reward_address rewards a of
        None \<Rightarrow> row_insert \<lparr>reward_address = a, pending_rewards = share, total_claimed = 0,
                  last_credited_height = Some height, last_claimed_height = None\<rparr> rewards
      | Some r \<Rightarrow> row_put reward_address (r\<lparr>pending_rewards := pending_rewards r + share,
                  last_credited_height := Some height\<rparr>) rewards)"

fun credit_rows :: "int \<Rightarrow> int \<Rightarrow> int \<Rightarrow> Staker list \<Rightarrow> ValidatorReward list \<Rightarrow> ValidatorReward list" where
  "credit_rows n total_stake height [] rewards = rewards"
| "credit_rows n total_stake height (st # sts) rewards =
     (let share = reward_share n total_stake st
      in credit_rows n total_stake height sts
           (if share \<le> 0 then rewards else credit_row (staker_address st) share height rewards))"

definition active_stakers :: "db \<Rightarrow> Staker list" where
  "active_stakers d = filter (\<lambda>st. 0 < staked_amount st) (stakers d)"

definition total_active_stake :: "db \<Rightarrow> int" where
  "total_active_stake d = sum_list (map staked_amount (active_stakers d))"

definition paid_shares :: "int \<Rightarrow> int \<Rightarrow> Staker list \<Rightarrow> int list" where
  "paid_shares n total_stake sts = filter (\<lambda>x. 0 < x) (map (reward_share n total_stake) sts)"

lemma paid_shares_simps [simp]:
  "paid_shares n total_stake [] = []"
  "paid_shares n total_stake (st # sts) =
     (if 0 < reward_share n total_stake st then [reward_share n total_stake st] else []) @
     paid_shares n total_stake sts"
  by (simp_all add: paid_shares_def)

definition pool_effect :: "int \<Rightarrow> int \<Rightarrow> db \<Rightarrow> db" where
  "pool_effect n height d =
     (let active = active_stakers d; total_stake = total_active_stake d
      in if total_stake = 0 then
           d\<lparr>reward_pool_inflows := row_insert \<lparr>inflow_block_height = height, inflow_amount = n,
               distributed_to_count = 0, dust_remaining = n\<rparr> (reward_pool_inflows d)\<rparr>
         else
           d\<lparr>validator_rewards := credit_rows n total_stake height active (validator_rewards d),
             reward_pool_inflows := row_insert \<lparr>inflow_block_height = height, inflow_amount = n,
               distributed_to_count = int (length (paid_shares n total_stake active)),
               dust_remaining = n - sum_list (paid_shares n total_stake active)\<rparr>
               (reward_pool_inflows d)\<rparr>)"

section \<open>The transitions\<close>

definition record_stake :: "StakeEvent \<Rightarrow> Staker \<Rightarrow> db \<Rightarrow> db" where
  "record_stake e st d = put_staker st (d\<lparr>stake_events := row_insert e (stake_events d)\<rparr>)"

definition lock_unstake :: "Staker \<Rightarrow> UnstakeRequest \<Rightarrow> db \<Rightarrow> db" where
  "lock_unstake st u d =
     (put_staker st d)\<lparr>unstake_requests := row_insert u (unstake_requests d),
                       next_request_id := next_request_id d + 1\<rparr>"

definition queue_refund :: "UnstakeRequest \<Rightarrow> PendingPayout \<Rightarrow> db \<Rightarrow> db" where
  "queue_refund u p d =
     (put_request u d)\<lparr>pending_payouts := row_insert p (pending_payouts d),
                       next_payout_id := next_payout_id d + 1\<rparr>"

definition watcher_ready :: "db \<Rightarrow> int \<Rightarrow> bool" where
  "watcher_ready d height \<longleftrightarrow>
     (\<exists>w. watcher d = Some w \<and> snapshot_complete w \<and> last_processed_height w = height)"

inductive db_step :: "db \<Rightarrow> db \<Rightarrow> bool" where
  open_account:
    "get_staker d a = None \<Longrightarrow> canonicalize a = a \<Longrightarrow> staker_columns (new_staker a) \<Longrightarrow>
     db_step d (d\<lparr>stakers := row_insert (new_staker a) (stakers d)\<rparr>)"
| credit:
    "get_staker d a = Some st \<Longrightarrow> event_address e = a \<Longrightarrow> event_type e = ''STAKE'' \<Longrightarrow>
     0 < event_amount e \<Longrightarrow> event_tx_hash e \<noteq> None \<Longrightarrow> event_columns e \<Longrightarrow> \<not> event_clash e d \<Longrightarrow>
     st' = staker_credit (event_amount e) (event_block_height e) st \<Longrightarrow> staker_columns st' \<Longrightarrow>
     db_step d (record_stake e st' d)"
| debit:
    "get_staker d a = Some st \<Longrightarrow> event_address e = a \<Longrightarrow> event_type e = ''UNSTAKE'' \<Longrightarrow>
     0 < event_amount e \<Longrightarrow> event_tx_hash e \<noteq> None \<Longrightarrow> event_columns e \<Longrightarrow> \<not> event_clash e d \<Longrightarrow>
     st' = staker_debit (event_amount e) (event_block_height e) st \<Longrightarrow> staker_columns st' \<Longrightarrow>
     db_step d (record_stake e st' d)"
| pool:
    "0 < n \<Longrightarrow> row_get inflow_block_height (reward_pool_inflows d) height = None \<Longrightarrow>
     db_step d (pool_effect n height d)"
| lock:
    "get_staker d a = Some st \<Longrightarrow> 0 < n \<Longrightarrow> n \<le> staked_amount st \<Longrightarrow> watcher_ready d height \<Longrightarrow>
     st' = set_stake (staked_amount st - n) height st \<Longrightarrow> staker_columns st' \<Longrightarrow>
     u = new_request a n height (height + unstake_cooldown_blocks) (next_request_id d) \<Longrightarrow>
     request_columns u \<Longrightarrow> npc_address a \<Longrightarrow>
     db_step d (lock_unstake st' u d)"
| cancel:
    "get_request d i = Some u \<Longrightarrow> request_status u \<in> {PENDING, READY} \<Longrightarrow>
     get_staker d (request_address u) = Some st \<Longrightarrow> watcher_ready d height \<Longrightarrow>
     st' = set_stake (staked_amount st + request_amount u) height st \<Longrightarrow> staker_columns st' \<Longrightarrow>
     u' = u\<lparr>request_status := CANCELLED, completed_height := Some height\<rparr> \<Longrightarrow>
     request_columns u' \<Longrightarrow>
     db_step d (put_request u' (put_staker st' d))"
| refund:
    "get_request d i = Some u \<Longrightarrow> request_status u = PENDING \<Longrightarrow> 0 < request_amount u \<Longrightarrow>
     row_get payout_ref (pending_payouts d) (unstake_ref (request_id u)) = None \<Longrightarrow>
     u' = u\<lparr>request_status := READY\<rparr> \<Longrightarrow>
     p = new_payout (request_address u) (request_amount u) ''UNSTAKE_REFUND''
           (unstake_ref (request_id u)) t (next_payout_id d) \<Longrightarrow>
     request_columns u' \<Longrightarrow> payout_columns p \<Longrightarrow>
     db_step d (queue_refund u' p d)"
| unqueued:
    "get_request d i = Some u \<Longrightarrow> request_status u = PENDING \<Longrightarrow> request_amount u \<le> 0 \<Longrightarrow>
     db_step d (put_request (u\<lparr>request_status := READY\<rparr>) d)"
| burn_id: "db_step d (d\<lparr>next_payout_id := next_payout_id d + 1\<rparr>)"
| drain:
    "get_reward d a = Some r \<Longrightarrow> 0 < pending_rewards r \<Longrightarrow>
     db_step d (put_reward (drain_reward height r) d)"
| claim:
    "get_payout d i = Some p \<Longrightarrow> claimable p \<Longrightarrow>
     db_step d (put_payout (p\<lparr>payout_status := SIGNING\<rparr>) d)"
| outcome:
    "get_payout d i = Some p \<Longrightarrow> payout_status p = SIGNING \<Longrightarrow>
     payout_columns (payout_outcome exc_str r p) \<Longrightarrow>
     db_step d (put_payout (payout_outcome exc_str r p) d)"
| watch: "db_step d (d\<lparr>watcher := Some w\<rparr>)"

inductive sess_step :: "session \<Rightarrow> session \<Rightarrow> bool" where
  act: "db_step (working s) d \<Longrightarrow> sess_step s (s\<lparr>working := d\<rparr>)"
| commits: "sess_step s (s\<lparr>committed := working s\<rparr>)"
| rolls: "sess_step s (rolled_back s)"

inductive_cases db_stepE: "db_step d d'"
inductive_cases sess_stepE: "sess_step s s'"

abbreviation sess_steps :: "session \<Rightarrow> session \<Rightarrow> bool" where
  "sess_steps \<equiv> sess_step\<^sup>*\<^sup>*"

section \<open>Key constraints\<close>

text \<open>The primary and unique keys of the tables, and ids below their sequences.\<close>

definition wf_keys :: "db \<Rightarrow> bool" where
  "wf_keys d \<longleftrightarrow>
     distinct (map staker_address (stakers d)) \<and>
     distinct (map event_key (stake_events d)) \<and>
     distinct (map request_id (unstake_requests d)) \<and>
     distinct (map payout_id (pending_payouts d)) \<and>
     distinct (map payout_ref (pending_payouts d)) \<and>
     distinct (map reward_address (validator_rewards d)) \<and>
     distinct (map inflow_block_height (reward_pool_inflows d)) \<and>
     (\<forall>u \<in> set (unstake_requests d). request_id u < next_request_id d) \<and>
     (\<forall>p \<in> set (pending_payouts d). payout_id p < next_payout_id d)"

lemma table_simps [simp]:
  "stakers (put_staker st d) = row_put staker_address st (stakers d)"
  "unstake_requests (put_request u d) = row_put request_id u (unstake_requests d)"
  "pending_payouts (put_payout p d) = row_put payout_id p (pending_payouts d)"
  "validator_rewards (put_reward r d) = row_put reward_address r (validator_rewards d)"
  "stake_events (put_staker st d) = stake_events d"
  "unstake_requests (put_staker st d) = unstake_requests d"
  "pending_payouts (put_staker st d) = pending_payouts d"
  "validator_rewards (put_staker st d) = validator_rewards d"
  "reward_pool_inflows (put_staker st d) = reward_pool_inflows d"
  "next_request_id (put_staker st d) = next_request_id d"
  "next_payout_id (put_staker st d) = next_payout_id d"
  "watcher (put_staker st d) = watcher d"
  "stakers (put_request u d) = stakers d"
  "stake_events (put_request u d) = stake_events d"
  "pending_payouts (put_request u d) = pending_payouts d"
  "validator_rewards (put_request u d) = validator_rewards d"
  "reward_pool_inflows (put_request u d) = reward_pool_inflows d"
  "next_request_id (put_request u d) = next_request_id d"
  "next_payout_id (put_request u d) = next_payout_id d"
  "watcher (put_request u d) = watcher d"
  "stakers (put_payout p d) = stakers d"
  "stake_events (put_payout p d) = stake_events d"
  "unstake_requests (put_payout p d) = unstake_requests d"
  "validator_rewards (put_payout p d) = validator_rewards d"
  "reward_pool_inflows (put_payout p d) = reward_pool_inflows d"
  "next_request_id (put_payout p d) = next_request_id d"
  "next_payout_id (put_payout p d) = next_payout_id d"
  "watcher (put_payout p d) = watcher d"
  "stakers (put_reward r d) = stakers d"
  "stake_events (put_reward r d) = stake_events d"
  "unstake_requests (put_reward r d) = unstake_requests d"
  "pending_payouts (put_reward r d) = pending_payouts d"
  "reward_pool_inflows (put_reward r d) = reward_pool_inflows d"
  "next_request_id (put_reward r d) = next_request_id d"
  "next_payout_id (put_reward r d) = next_payout_id d"
  "watcher (put_reward r d) = watcher d"
  by (simp_all add: put_staker_def put_request_def put_payout_def put_reward_def)

lemma map_reward_address_credit_row:
  "map reward_address (credit_row a share h rewards) =
     map reward_address rewards @ (if a \<in> reward_address ` set rewards then [] else [a])"
  by (auto simp: credit_row_def row_get_None_iff split: option.split dest: row_get_Some)

lemma distinct_credit_row:
  "distinct (map reward_address rewards) \<Longrightarrow> distinct (map reward_address (credit_row a share h rewards))"
  by (auto simp: map_reward_address_credit_row)

lemma distinct_credit_rows:
  "distinct (map reward_address rewards) \<Longrightarrow>
   distinct (map reward_address (credit_rows n total_stake h sts rewards))"
  by (induction n total_stake h sts rewards rule: credit_rows.induct)
    (simp_all add: Let_def distinct_credit_row)

lemma pool_effect_frame [simp]:
  "stakers (pool_effect n h d) = stakers d"
  "stake_events (pool_effect n h d) = stake_events d"
  "unstake_requests (pool_effect n h d) = unstake_requests d"
  "pending_payouts (pool_effect n h d) = pending_payouts d"
  "next_request_id (pool_effect n h d) = next_request_id d"
  "next_payout_id (pool_effect n h d) = next_payout_id d"
  "watcher (pool_effect n h d) = watcher d"
  by (simp_all add: pool_effect_def Let_def)

lemmas effect_defs = record_stake_def lock_unstake_def queue_refund_def

lemma row_get_new_key: "row_get key rows k = None \<Longrightarrow> k \<notin> key ` set rows"
  by (simp add: row_get_None_iff)

lemma wf_pool_effect:
  "wf_keys d \<Longrightarrow> row_get inflow_block_height (reward_pool_inflows d) h = None \<Longrightarrow>
   wf_keys (pool_effect n h d)"
  by (auto simp: wf_keys_def pool_effect_def Let_def distinct_credit_rows row_get_None_iff)

lemma payout_outcome_key [simp]:
  "payout_id (payout_outcome exc_str r p) = payout_id p"
  "payout_ref (payout_outcome exc_str r p) = payout_ref p"
  "recipient (payout_outcome exc_str r p) = recipient p"
  "payout_amount (payout_outcome exc_str r p) = payout_amount p"
  "payout_kind (payout_outcome exc_str r p) = payout_kind p"
  by (simp_all add: payout_outcome_def split: sum.split py_error.split)

text \<open>Writing a row back under its own key keeps a second key that it does not change.\<close>

lemma map_row_put_same:
  assumes "distinct (map key rows)" and "row_get key rows (key r) = Some r0" and "f r = f r0"
  shows "map f (row_put key r rows) = map f rows"
  using assms by (induction rows) (auto simp: row_get_Cons row_put_absent split: if_splits)

lemma wf_put_payout:
  assumes "wf_keys d" and "get_payout d (payout_id p') = Some p" and "payout_ref p' = payout_ref p"
  shows "wf_keys (put_payout p' d)"
  using assms map_row_put_same [of payout_id "pending_payouts d" p' p payout_ref]
  by (auto simp: wf_keys_def get_payout_def dest!: set_row_put row_get_Some)

lemma wf_put_request:
  assumes "wf_keys d" and "get_request d (request_id u') = Some u"
  shows "wf_keys (put_request u' d)"
  using assms by (auto simp: wf_keys_def get_request_def dest!: set_row_put row_get_Some)

lemma event_clash_iff: "event_tx_hash e \<noteq> None \<Longrightarrow>
   event_clash e d \<longleftrightarrow> event_key e \<in> event_key ` set (stake_events d)"
  by (simp add: event_clash_def)

lemma wf_step:
  assumes "db_step d d'" and wf: "wf_keys d"
  shows "wf_keys d'"
  using assms(1)
proof cases
  case (open_account a)
  with wf show ?thesis
    by (auto simp: wf_keys_def new_staker_def get_staker_def row_get_None_iff)
next
  case credit
  with wf show ?thesis by (auto simp: wf_keys_def record_stake_def event_clash_iff)
next
  case debit
  with wf show ?thesis by (auto simp: wf_keys_def record_stake_def event_clash_iff)
next
  case pool
  with wf show ?thesis by (simp add: wf_pool_effect)
next
  case lock
  with wf show ?thesis by (auto simp: wf_keys_def lock_unstake_def new_request_def)
next
  case (cancel i u st height st' u')
  from cancel have "get_request d (request_id u') = Some u"
    using request_table.get_key [of d i u] by simp
  then have "get_request (put_staker st' d) (request_id u') = Some u"
    by (simp add: get_request_def)
  moreover have "wf_keys (put_staker st' d)" using wf by (simp add: wf_keys_def)
  ultimately show ?thesis using cancel(1) wf_put_request by simp
next
  case (refund i u u' p t)
  from refund have "get_request d (request_id u') = Some u"
    using request_table.get_key [of d i u] by simp
  with wf have "wf_keys (put_request u' d)" by (rule wf_put_request)
  with refund show ?thesis
    by (auto simp: wf_keys_def queue_refund_def new_payout_def row_get_None_iff)
next
  case (unqueued i u)
  then have "get_request d (request_id (u\<lparr>request_status := READY\<rparr>)) = Some u"
    using request_table.get_key [of d i u] by simp
  with wf unqueued(1) show ?thesis using wf_put_request by simp
next
  case burn_id
  with wf show ?thesis by (auto simp: wf_keys_def)
next
  case drain
  with wf show ?thesis by (simp add: wf_keys_def)
next
  case (claim i p)
  then show ?thesis
    using payout_table.get_key [of d i p] by (auto intro!: wf_put_payout [OF wf])
next
  case (outcome i p exc_str r)
  then show ?thesis
    using payout_table.get_key [of d i p] by (auto intro!: wf_put_payout [OF wf])
next
  case watch
  with wf show ?thesis by (simp add: wf_keys_def)
qed

section \<open>Invariants of the specification\<close>

text \<open>
  A property of databases is an invariant when every transition keeps it and it survives
  identity sequences that run ahead (they do after a rollback). Lifted to a session, it holds
  of what is committed and of what is pending, at every point where the session may stop.
\<close>

definition lifted :: "(db \<Rightarrow> bool) \<Rightarrow> session \<Rightarrow> bool" where
  "lifted I s \<longleftrightarrow> I (committed s) \<and> I (working s) \<and>
     next_request_id (committed s) \<le> next_request_id (working s) \<and>
     next_payout_id (committed s) \<le> next_payout_id (working s)"

locale db_invariant =
  fixes I :: "db \<Rightarrow> bool"
  assumes step_keeps: "db_step d d' \<Longrightarrow> I d \<Longrightarrow> I d'"
    and sequences_keep: "I d \<Longrightarrow> next_request_id d \<le> i \<Longrightarrow> next_payout_id d \<le> j \<Longrightarrow>
      I (d\<lparr>next_request_id := i, next_payout_id := j\<rparr>)"
begin

lemma lifted_begin: "I d \<Longrightarrow> lifted I (begin_session t d)"
  by (simp add: lifted_def begin_session_def)

lemma lifted_step:
  assumes "sess_step s s'" and "lifted I s"
  shows "lifted I s'"
  using assms(1)
proof cases
  case (act d)
  from \<open>db_step (working s) d\<close>
  have "next_request_id (working s) \<le> next_request_id d" "next_payout_id (working s) \<le> next_payout_id d"
    by (cases; simp add: effect_defs)+
  with act assms(2) show ?thesis by (auto simp: lifted_def intro: step_keeps)
next
  case commits
  with assms(2) show ?thesis by (simp add: lifted_def)
next
  case rolls
  with assms(2) show ?thesis
    by (auto simp: lifted_def rolled_back_def keep_sequences_def intro: sequences_keep)
qed

lemma lifted_steps: "sess_steps s s' \<Longrightarrow> lifted I s \<Longrightarrow> lifted I s'"
  by (induction rule: rtranclp_induct) (auto intro: lifted_step)

lemma lifted_committed: "lifted I s \<Longrightarrow> I (committed s)"
  by (simp add: lifted_def)

lemma lifted_rolled_back: "lifted I s \<Longrightarrow> I (committed (rolled_back s))"
  using lifted_step [OF sess_step.rolls] by (blast intro: lifted_committed)

end

lemma wf_sequences:
  "wf_keys d \<Longrightarrow> next_request_id d \<le> i \<Longrightarrow> next_payout_id d \<le> j \<Longrightarrow>
   wf_keys (d\<lparr>next_request_id := i, next_payout_id := j\<rparr>)"
  by (fastforce simp: wf_keys_def)

interpretation keys: db_invariant wf_keys
  by unfold_locales (auto intro: wf_step wf_sequences)

end
