(* ===== verification/Simulation.thy ===== *)
theory Simulation
  imports Transitions
begin

text \<open>
  Refinement: whatever an operation of the code does to its session, errors and rollbacks
  included, is a sequence of transitions of the specification. First the effect of each
  session primitive is written out; then each operation is run symbolically.
\<close>

section \<open>Running the session primitives\<close>

named_theorems session_run

lemma update_db_run [session_run]: "update_db f s = (Inr (), s\<lparr>working := f (working s)\<rparr>)"
  by (simp add: update_db_def exec_run)

lemma commit_run [session_run]: "commit s = (Inr (), s\<lparr>committed := working s\<rparr>)"
  by (simp add: commit_def exec_run)

lemma rollback_run [session_run]: "rollback s = (Inr (), rolled_back s)"
  by (simp add: rollback_def exec_run)

lemma bind_update_db [session_run]: "bind (update_db g) f s = f () (s\<lparr>working := g (working s)\<rparr>)"
  by (simp add: bind_def update_db_run)

lemma bind_commit [session_run]: "bind commit f s = f () (s\<lparr>committed := working s\<rparr>)"
  by (simp add: bind_def commit_run)

lemma bind_rollback [session_run]: "bind rollback f s = f () (rolled_back s)"
  by (simp add: bind_def rollback_run)

lemmas [session_run] = exec_run bind_flush_unless flush_unless_exec

lemma loaded_attribute_run [session_run]:
  "loaded_attribute ep s = (if epoch s = ep then Inr () else Inl MissingGreenlet, s)"
  by (simp add: loaded_attribute_def session_run)

lemma bind_loaded_attribute [session_run]:
  "bind (loaded_attribute ep) f s = (if epoch s = ep then f () s else (Inl MissingGreenlet, s))"
  by (simp add: bind_def loaded_attribute_run)

lemma write_staker_run [session_run]:
  "write_staker r s = (if staker_columns r then (Inr (), s\<lparr>working := put_staker r (working s)\<rparr>)
     else (Inl DataError, rolled_back s))"
  by (simp add: write_staker_def session_run)

lemma insert_staker_run [session_run]:
  "insert_staker r s =
     (if \<not> staker_columns r then (Inl DataError, rolled_back s)
      else if get_staker (working s) (staker_address r) \<noteq> None then (Inl IntegrityError, rolled_back s)
      else (Inr (), s\<lparr>working := (working s)\<lparr>stakers := row_insert r (stakers (working s))\<rparr>\<rparr>))"
  by (simp add: insert_staker_def session_run)

lemma insert_event_run [session_run]:
  "insert_event r s =
     (if \<not> event_columns r then (Inl DataError, rolled_back s)
      else if event_clash r (working s) then (Inl IntegrityError, rolled_back s)
      else (Inr (), s\<lparr>working := (working s)\<lparr>stake_events := row_insert r (stake_events (working s))\<rparr>\<rparr>))"
  by (simp add: insert_event_def session_run)

lemma write_request_run [session_run]:
  "write_request r s = (if request_columns r then (Inr (), s\<lparr>working := put_request r (working s)\<rparr>)
     else (Inl DataError, rolled_back s))"
  by (simp add: write_request_def session_run)

lemma insert_request_run [session_run]:
  "insert_request mk s =
     (let r = mk (next_request_id (working s))
      in if \<not> request_columns r then (Inl DataError, rolled_back s)
         else (Inr r, s\<lparr>working := (working s)\<lparr>
                unstake_requests := row_insert r (unstake_requests (working s)),
                next_request_id := next_request_id (working s) + 1\<rparr>\<rparr>))"
  by (simp add: insert_request_def session_run Let_def)

lemma write_payout_run [session_run]:
  "write_payout r s = (if payout_columns r then (Inr (), s\<lparr>working := put_payout r (working s)\<rparr>)
     else (Inl DataError, rolled_back s))"
  by (simp add: write_payout_def session_run)

definition burn_payout_id :: "session \<Rightarrow> session" where
  "burn_payout_id s = s\<lparr>working := (working s)\<lparr>next_payout_id := next_payout_id (working s) + 1\<rparr>\<rparr>"

lemma insert_payout_run [session_run]:
  "insert_payout mk s =
     (let r = mk (next_payout_id (working s))
      in if \<not> payout_columns r then (Inl DataError, rolled_back s)
         else if row_get payout_ref (pending_payouts (working s)) (payout_ref r) \<noteq> None then
           (Inl IntegrityError, rolled_back (burn_payout_id s))
         else (Inr r, s\<lparr>working := (working s)\<lparr>
                pending_payouts := row_insert r (pending_payouts (working s)),
                next_payout_id := next_payout_id (working s) + 1\<rparr>\<rparr>))"
  by (simp add: insert_payout_def session_run Let_def burn_payout_id_def)

lemma write_reward_run [session_run]:
  "write_reward r s = (if reward_columns r then (Inr (), s\<lparr>working := put_reward r (working s)\<rparr>)
     else (Inl DataError, rolled_back s))"
  by (simp add: write_reward_def session_run)

lemma insert_reward_run [session_run]:
  "insert_reward r s =
     (if \<not> reward_columns r then (Inl DataError, rolled_back s)
      else if get_reward (working s) (reward_address r) \<noteq> None then (Inl IntegrityError, rolled_back s)
      else (Inr (), s\<lparr>working := (working s)\<lparr>
              validator_rewards := row_insert r (validator_rewards (working s))\<rparr>\<rparr>))"
  by (simp add: insert_reward_def session_run)

lemma insert_inflow_run [session_run]:
  "insert_inflow r s =
     (if \<not> inflow_columns r then (Inl DataError, rolled_back s)
      else if row_get inflow_block_height (reward_pool_inflows (working s)) (inflow_block_height r) \<noteq> None
      then (Inl IntegrityError, rolled_back s)
      else (Inr (), s\<lparr>working := (working s)\<lparr>
              reward_pool_inflows := row_insert r (reward_pool_inflows (working s))\<rparr>\<rparr>))"
  by (simp add: insert_inflow_def session_run)

lemma write_watcher_run [session_run]:
  "write_watcher w s =
     (if big_integer (last_processed_height w) then (Inr (), s\<lparr>working := (working s)\<lparr>watcher := Some w\<rparr>\<rparr>)
      else (Inl DataError, rolled_back s))"
  by (simp add: write_watcher_def session_run)

text \<open>The same in front of a continuation, for symbolic execution.\<close>

lemma bind_write_staker:
  "bind (write_staker r) f s = (if staker_columns r then f () (s\<lparr>working := put_staker r (working s)\<rparr>)
     else (Inl DataError, rolled_back s))"
  by (simp add: bind_def write_staker_run)

lemma bind_write_request:
  "bind (write_request r) f s = (if request_columns r then f () (s\<lparr>working := put_request r (working s)\<rparr>)
     else (Inl DataError, rolled_back s))"
  by (simp add: bind_def write_request_run)

lemma bind_write_reward:
  "bind (write_reward r) f s = (if reward_columns r then f () (s\<lparr>working := put_reward r (working s)\<rparr>)
     else (Inl DataError, rolled_back s))"
  by (simp add: bind_def write_reward_run)

lemma bind_insert_request:
  "bind (insert_request mk) f s =
     (if \<not> request_columns (mk (next_request_id (working s))) then (Inl DataError, rolled_back s)
      else f (mk (next_request_id (working s))) (s\<lparr>working := (working s)\<lparr>
             unstake_requests := row_insert (mk (next_request_id (working s))) (unstake_requests (working s)),
             next_request_id := next_request_id (working s) + 1\<rparr>\<rparr>))"
  by (simp add: bind_def insert_request_run Let_def)

lemma bind_write_payout:
  "bind (write_payout r) f s = (if payout_columns r then f () (s\<lparr>working := put_payout r (working s)\<rparr>)
     else (Inl DataError, rolled_back s))"
  by (simp add: bind_def write_payout_run)

lemmas bind_rows = bind_write_payout bind_write_staker bind_write_request bind_write_reward bind_insert_request

section \<open>Simulation\<close>

definition simulates :: "(session, 'a) exec \<Rightarrow> bool" where
  "simulates m \<longleftrightarrow> (\<forall>s. lifted wf_keys s \<longrightarrow> sess_steps s (snd (m s)))"

named_theorems simulates_intros

lemma simulatesD: "simulates m \<Longrightarrow> lifted wf_keys s \<Longrightarrow> m s = (r, s') \<Longrightarrow> sess_steps s s'"
  by (auto simp: simulates_def dest!: spec)

lemma simulatesI:
  "(\<And>s r s'. lifted wf_keys s \<Longrightarrow> m s = (r, s') \<Longrightarrow> sess_steps s s') \<Longrightarrow> simulates m"
  by (auto simp: simulates_def) (metis prod.collapse)

lemma sess_steps_act [intro]: "db_step (working s) d \<Longrightarrow> sess_steps s (s\<lparr>working := d\<rparr>)"
  by (rule r_into_rtranclp) (rule sess_step.act)

lemma sess_steps_commit [intro]: "sess_steps s (s\<lparr>committed := working s\<rparr>)"
  by (rule r_into_rtranclp) (rule sess_step.commits)

lemma sess_steps_rolled_back [intro]: "sess_steps s (rolled_back s)"
  by (rule r_into_rtranclp) (rule sess_step.rolls)

lemma sess_steps_burn: "sess_steps s (burn_payout_id s)"
  unfolding burn_payout_id_def by (intro sess_steps_act db_step.burn_id)

lemma simulates_return [simulates_intros]: "simulates (return a)"
  by (simp add: simulates_def session_run)

lemma simulates_raise [simulates_intros]: "simulates (raise e)"
  by (simp add: simulates_def session_run)

lemma simulates_lift [simulates_intros]: "simulates (lift r)"
  by (simp add: simulates_def session_run)

lemma simulates_gets [simulates_intros]: "simulates (gets f)"
  by (simp add: simulates_def session_run)

lemma simulates_commit [simulates_intros]: "simulates commit"
  by (auto simp: simulates_def session_run)

lemma simulates_bind [simulates_intros]:
  assumes "simulates m" and "\<And>a. simulates (f a)"
  shows "simulates (bind m f)"
proof (rule simulatesI)
  fix s r s' assume wf: "lifted wf_keys s" and run: "bind m f s = (r, s')"
  obtain r1 s1 where m: "m s = (r1, s1)" by fastforce
  with assms(1) wf have 1: "sess_steps s s1" by (rule simulatesD)
  have wf1: "lifted wf_keys s1" by (rule keys.lifted_steps [OF 1 wf])
  show "sess_steps s s'"
  proof (cases r1)
    case (Inl e)
    with m run 1 show ?thesis by (simp add: bind_def)
  next
    case (Inr a)
    with m run have "f a s1 = (r, s')" by (simp add: bind_def)
    with assms(2) wf1 have "sess_steps s1 s'" by (blast intro: simulatesD)
    with 1 show ?thesis by (rule rtranclp_trans)
  qed
qed

lemma simulates_bind_lift: "(\<And>a. r = Inr a \<Longrightarrow> simulates (f a)) \<Longrightarrow> simulates (bind (lift r) f)"
  by (cases r) (auto simp: simulates_def bind_lift)

lemma simulates_if [simulates_intros]:
  "(b \<Longrightarrow> simulates m) \<Longrightarrow> (\<not> b \<Longrightarrow> simulates m') \<Longrightarrow> simulates (if b then m else m')"
  by simp

lemma simulates_for_each [simulates_intros]:
  "(\<And>x. x \<in> set xs \<Longrightarrow> simulates (f x)) \<Longrightarrow> simulates (for_each f xs)"
  by (induction xs) (auto intro!: simulates_intros)

section \<open>Stake events\<close>

lemma get_or_create_staker_run:
  "get_or_create_staker a s =
     (case get_staker (working s) a of
        Some st \<Rightarrow> (Inr st, s)
      | None \<Rightarrow>
          if staker_columns (new_staker a) then
            (Inr (new_staker a),
             s\<lparr>working := (working s)\<lparr>stakers := row_insert (new_staker a) (stakers (working s))\<rparr>\<rparr>)
          else (Inl DataError, rolled_back s))"
  by (simp add: get_or_create_staker_def new_staker_def bind_def session_run split: option.split)

lemma new_staker_address [simp]: "staker_address (new_staker a) = a"
  by (simp add: new_staker_def)

lemma get_or_create_staker_sim:
  assumes "get_or_create_staker a s = (r, s')" and "canonicalize a = a"
  shows "sess_steps s s'" and "\<And>st. r = Inr st \<Longrightarrow> get_staker (working s') a = Some st"
proof -
  consider (found) "s' = s" | (rb) "s' = rolled_back s"
    | (new) "get_staker (working s) a = None" "staker_columns (new_staker a)"
        "s' = s\<lparr>working := (working s)\<lparr>stakers := row_insert (new_staker a) (stakers (working s))\<rparr>\<rparr>"
    using assms by (auto simp: get_or_create_staker_run split: option.splits if_splits)
  then show "sess_steps s s'"
    using assms(2) by cases (auto intro: db_step.open_account)
  show "get_staker (working s') a = Some st" if "r = Inr st" for st
    using assms that
    by (auto simp: get_or_create_staker_run get_staker_def row_get_insert split: option.splits if_splits)
qed

lemma record_event_run:
  "record_event a ty n h tx note s =
     (case hash_column tx of
        Inl e \<Rightarrow> (Inl e, s)
      | Inr None \<Rightarrow> (Inr False, s)
      | Inr (Some x) \<Rightarrow>
          let e = \<lparr>event_address = a, event_type = ty, event_amount = n, event_block_height = h,
                   event_tx_hash = Some x, event_note = Some note\<rparr>
          in if \<not> event_columns e then (Inl DataError, rolled_back s)
             else if event_clash e (working s) then (Inr False, rolled_back (rolled_back s))
             else (Inr True, s\<lparr>working := (working s)\<lparr>
                     stake_events := row_insert e (stake_events (working s))\<rparr>\<rparr>))"
  by (cases "hash_column tx")
    (auto simp: record_event_def catch_def bind_def session_run Let_def split: option.split)

lemma sess_steps_rolled_back2: "sess_steps s (rolled_back (rolled_back s))"
  by (meson rtranclp_trans sess_steps_rolled_back)

lemma rolled_back_pending:
  "next_request_id d = next_request_id (working s) \<Longrightarrow> next_payout_id d = next_payout_id (working s) \<Longrightarrow>
   rolled_back (s\<lparr>working := d\<rparr>) = rolled_back s"
  by (simp add: rolled_back_def keep_sequences_def)

text \<open>
  The two stake branches and the refund branch: \<open>assign\<close> is what the branch does to the
  staker's row when the event is new.
\<close>

lemma record_event_cases:
  assumes "record_event a ty n h tx note s = (r, s')"
  obtains (error) e where "r = Inl e" "s' = s \<or> s' = rolled_back s"
    | (old) "r = Inr False" "s' = s \<or> s' = rolled_back (rolled_back s)"
    | (new) x e where "r = Inr True"
        "e = \<lparr>event_address = a, event_type = ty, event_amount = n, event_block_height = h,
               event_tx_hash = Some x, event_note = Some note\<rparr>"
        "event_columns e" "\<not> event_clash e (working s)"
        "s' = s\<lparr>working := (working s)\<lparr>stake_events := row_insert e (stake_events (working s))\<rparr>\<rparr>"
proof (cases "hash_column tx")
  case (Inl e)
  with assms have "r = Inl e" and "s' = s" by (simp_all add: record_event_run)
  then show ?thesis by (intro error) simp_all
next
  case (Inr txh)
  show ?thesis
  proof (cases txh)
    case None
    with assms Inr have "r = Inr False" "s' = s" by (simp_all add: record_event_run)
    then show ?thesis by (intro old) simp_all
  next
    case (Some x)
    define e where "e = \<lparr>event_address = a, event_type = ty, event_amount = n,
      event_block_height = h, event_tx_hash = Some x, event_note = Some note\<rparr>"
    have run: "(if \<not> event_columns e then (Inl DataError, rolled_back s)
        else if event_clash e (working s) then (Inr False, rolled_back (rolled_back s))
        else (Inr True, s\<lparr>working := (working s)\<lparr>
                stake_events := row_insert e (stake_events (working s))\<rparr>\<rparr>)) = (r, s')"
      using assms unfolding record_event_run Inr Some e_def Let_def by simp
    consider "\<not> event_columns e" | "event_columns e" "event_clash e (working s)"
      | "event_columns e" "\<not> event_clash e (working s)" by blast
    then show ?thesis
    proof cases
      case 1
      with run have "r = Inl DataError" "s' = rolled_back s" by simp_all
      then show ?thesis by (intro error) simp_all
    next
      case 2
      with run have "r = Inr False" "s' = rolled_back (rolled_back s)" by simp_all
      then show ?thesis by (intro old) simp_all
    next
      case 3
      with run show ?thesis by (intro new [OF _ e_def]) simp_all
    qed
  qed
qed

lemma event_then_write_sim:
  assumes st: "get_staker (working s) a = Some st" and n: "0 < n"
    and kind: "(ty = ''STAKE'' \<and> assign = staker_credit n h) \<or> (ty = ''UNSTAKE'' \<and> assign = staker_debit n h)"
    and run: "bind (record_event a ty n h tx note) (\<lambda>inserted. if inserted then write_staker (assign st) else return ()) s = (r, s')"
  shows "sess_steps s s'"
proof -
  obtain r1 s1 where rec: "record_event a ty n h tx note s = (r1, s1)" by fastforce
  from rec show ?thesis
  proof (cases rule: record_event_cases)
    case (error e)
    with run rec have "s' = s1" by (simp add: bind_def)
    with error show ?thesis by auto
  next
    case old
    with run rec have "s' = s1" by (simp add: bind_def return_exec)
    with old show ?thesis by (auto intro: sess_steps_rolled_back2)
  next
    case (new x e)
    with run rec have w: "write_staker (assign st) s1 = (r, s')" by (simp add: bind_def)
    show ?thesis
    proof (cases "staker_columns (assign st)")
      case True
      from kind have "db_step (working s) (record_stake e (assign st) (working s))"
        using new True st n by (auto intro: db_step.credit db_step.debit)
      moreover have "s' = s\<lparr>working := record_stake e (assign st) (working s)\<rparr>"
        using w True new by (simp add: write_staker_run record_stake_def)
      ultimately show ?thesis by auto
    next
      case False
      with w new have "s' = rolled_back s"
        by (simp add: write_staker_run rolled_back_pending)
      then show ?thesis by auto
    qed
  qed
qed

lemma simulates_apply_stake_event:
  assumes "0 < n"
    and "(ty = ''STAKE'' \<and> assign = staker_credit n h) \<or> (ty = ''UNSTAKE'' \<and> assign = staker_debit n h)"
    and canonical: "\<And>a. addr = JStr a \<Longrightarrow> canonicalize a = a"
  shows "simulates (apply_stake_event ty assign addr n h tx note)"
proof -
  have "simulates (bind (get_or_create_staker a) (\<lambda>st.
      bind (record_event a ty n h tx note)
        (\<lambda>inserted. if inserted then write_staker (assign st) else return ())))"
    if a: "canonicalize a = a" for a
  proof (rule simulatesI)
    fix s r s'
    assume run: "bind (get_or_create_staker a) (\<lambda>st. bind (record_event a ty n h tx note)
      (\<lambda>inserted. if inserted then write_staker (assign st) else return ())) s = (r, s')"
    obtain r1 s1 where g: "get_or_create_staker a s = (r1, s1)" by fastforce
    show "sess_steps s s'"
    proof (cases r1)
      case (Inl e)
      with g run get_or_create_staker_sim(1) [OF g a] show ?thesis by (simp add: bind_def)
    next
      case (Inr st)
      with g run have "bind (record_event a ty n h tx note)
          (\<lambda>inserted. if inserted then write_staker (assign st) else return ()) s1 = (r, s')"
        by (simp add: bind_def)
      from event_then_write_sim [OF get_or_create_staker_sim(2) [OF g a Inr] assms(1,2) this]
        get_or_create_staker_sim(1) [OF g a]
      show ?thesis by (meson rtranclp_trans)
    qed
  qed
  moreover have "canonicalize a = a" if "address_column addr = Inr a" for a
    using that canonical by (cases addr) simp_all
  ultimately show ?thesis
    unfolding apply_stake_event_def by (intro simulates_bind_lift) simp
qed

section \<open>The rewards pool\<close>

abbreviation with_rewards :: "(ValidatorReward list \<Rightarrow> ValidatorReward list) \<Rightarrow> session \<Rightarrow> session" where
  "with_rewards f s \<equiv>
     s\<lparr>working := (working s)\<lparr>validator_rewards := f (validator_rewards (working s))\<rparr>\<rparr>"

lemma credit_reward_cases:
  assumes "credit_reward a share h s = (r, s')"
  obtains (error) e where "r = Inl e" "s' = rolled_back s"
    | (paid) "r = Inr ()" "s' = with_rewards (credit_row a share h) s"
proof (cases "get_reward (working s) a")
  case None
  then have key: "row_get reward_address (validator_rewards (working s)) a = None"
    by (simp add: get_reward_def)
  show ?thesis
    using assms None key error paid
    by (auto simp: credit_reward_def session_run get_reward_def credit_row_def split: if_splits)
next
  case (Some r0)
  then have key: "row_get reward_address (validator_rewards (working s)) a = Some r0"
    by (simp add: get_reward_def)
  show ?thesis
    using assms Some key error paid
    by (auto simp: credit_reward_def session_run put_reward_def credit_row_def split: if_splits)
qed

lemma distribute_cases:
  assumes "distribute n total_stake h sts so_far cnt s = (r, s')"
  shows "(\<exists>e. r = Inl e \<and> s' = rolled_back s) \<or>
    (r = Inr (so_far + sum_list (paid_shares n total_stake sts),
              cnt + int (length (paid_shares n total_stake sts))) \<and>
     s' = with_rewards (credit_rows n total_stake h sts) s)"
  using assms
proof (induction sts arbitrary: so_far cnt s)
  case Nil
  then show ?case by (simp add: return_exec)
next
  case (Cons st sts)
  let ?share = "reward_share n total_stake st"
  show ?case
  proof (cases "?share \<le> 0")
    case True
    then have "distribute n total_stake h sts so_far cnt s = (r, s')"
      using Cons.prems by (simp add: Let_def)
    from Cons.IH [OF this] True show ?thesis by (simp add: Let_def)
  next
    case False
    obtain r1 s1 where c: "credit_reward (staker_address st) ?share h s = (r1, s1)" by fastforce
    then show ?thesis
    proof (cases rule: credit_reward_cases)
      case (error e)
      with c False Cons.prems show ?thesis by (auto simp: Let_def bind_def)
    next
      case paid
      with c False Cons.prems
      have "distribute n total_stake h sts (so_far + ?share) (cnt + 1) s1 = (r, s')"
        by (simp add: Let_def bind_def)
      from Cons.IH [OF this] False paid show ?thesis
        by (simp add: Let_def rolled_back_pending add.assoc)
    qed
  qed
qed

lemma credit_validator_rewards_pool_cases:
  assumes "credit_validator_rewards_pool n h s = (r, s')"
  shows "(r = Inr () \<and> s' = s \<and>
        (n \<le> 0 \<or> row_get inflow_block_height (reward_pool_inflows (working s)) h \<noteq> None)) \<or>
    (\<exists>e. r = Inl e \<and> s' = rolled_back s) \<or>
    (r = Inr () \<and> 0 < n \<and> row_get inflow_block_height (reward_pool_inflows (working s)) h = None \<and>
     s' = s\<lparr>working := pool_effect n h (working s)\<rparr>)"
proof (cases "0 < n \<and> row_get inflow_block_height (reward_pool_inflows (working s)) h = None")
  case False
  with assms show ?thesis
    by (auto simp: credit_validator_rewards_pool_def session_run split: if_splits)
next
  case True
  let ?active = "active_stakers (working s)" and ?total = "total_active_stake (working s)"
  show ?thesis
  proof (cases "?total = 0")
    case zero: True
    with assms True show ?thesis
      by (auto simp: credit_validator_rewards_pool_def session_run get_active_stakers_def
          active_stakers_def [symmetric] total_active_stake_def [symmetric] pool_effect_def Let_def
          split: if_splits)
  next
    case False
    let ?ins = "\<lambda>paid cnt. insert_inflow \<lparr>inflow_block_height = h, inflow_amount = n,
                 distributed_to_count = cnt, dust_remaining = n - paid\<rparr>"
    obtain r1 s1 where d: "distribute n ?total h ?active 0 0 s = (r1, s1)" by fastforce
    have run: "bind (distribute n ?total h ?active 0 0) (\<lambda>(paid, cnt). ?ins paid cnt) s = (r, s')"
      using assms True False
      by (simp add: credit_validator_rewards_pool_def session_run get_active_stakers_def
          active_stakers_def [symmetric] total_active_stake_def [symmetric] Let_def)
    from distribute_cases [OF d] show ?thesis
    proof (elim disjE exE conjE)
      fix e assume "r1 = Inl e" "s1 = rolled_back s"
      with run d show ?thesis by (auto simp: bind_def)
    next
      assume r1: "r1 = Inr (0 + sum_list (paid_shares n ?total ?active), 0 + int (length (paid_shares n ?total ?active)))"
        and s1: "s1 = with_rewards (credit_rows n ?total h ?active) s"
      with run d have "?ins (sum_list (paid_shares n ?total ?active))
          (int (length (paid_shares n ?total ?active))) s1 = (r, s')"
        by (simp add: bind_def)
      with True False s1 show ?thesis
        by (auto simp: insert_inflow_run pool_effect_def Let_def rolled_back_pending split: if_splits)
    qed
  qed
qed

lemma simulates_pool: "simulates (credit_validator_rewards_pool n h)"
proof (rule simulatesI)
  fix s r s' assume "credit_validator_rewards_pool n h s = (r, s')"
  from credit_validator_rewards_pool_cases [OF this] show "sess_steps s s'"
    by (auto intro: db_step.pool)
qed

section \<open>Transactions and blocks\<close>

lemma simulates_apply_single_tx: "simulates (apply_single_tx tx h)"
  unfolding apply_single_tx_def Let_def
  by (intro simulates_bind_lift simulates_if simulates_return simulates_pool simulates_apply_stake_event)
    (auto dest: canonicalize_value_canonical)

lemma simulates_apply_block_transactions: "simulates (apply_block_transactions blk)"
  unfolding apply_block_transactions_def Let_def
  by (intro simulates_intros simulates_apply_single_tx)

section \<open>Refunds of unlocked requests\<close>

abbreviation refund_of :: "UnstakeRequest \<Rightarrow> session \<Rightarrow> PendingPayout" where
  "refund_of u s \<equiv> new_payout (request_address u) (request_amount u) ''UNSTAKE_REFUND''
     (unstake_ref (request_id u)) (clock s) (next_payout_id (working s))"

lemma enqueue_refund_cases:
  assumes "enqueue_payout a n ''UNSTAKE_REFUND'' ref s = (r, s')"
  defines "p \<equiv> new_payout a n ''UNSTAKE_REFUND'' ref (clock s) (next_payout_id (working s))"
  obtains (refused) e where "n \<le> 0" "r = Inl e" "s' = s"
    | (rows) e where "0 < n" "r = Inl e" "s' = rolled_back s" "\<not> payout_columns p"
    | (known) "0 < n" "s' = rolled_back (rolled_back (burn_payout_id s))"
        "row_get payout_ref (pending_payouts (working s)) ref \<noteq> None"
    | (queued) "0 < n" "r = Inr (next_payout_id (working s))" "payout_columns p"
        "row_get payout_ref (pending_payouts (working s)) ref = None"
        "s' = s\<lparr>working := (working s)\<lparr>pending_payouts := row_insert p (pending_payouts (working s)),
                next_payout_id := next_payout_id (working s) + 1\<rparr>\<rparr>"
proof -
  have [simp]: "payout_id p = next_payout_id (working s)" "payout_ref p = ref"
    by (simp_all add: p_def new_payout_def)
  consider "n \<le> 0" | "0 < n" "\<not> payout_columns p"
    | "0 < n" "payout_columns p" "row_get payout_ref (pending_payouts (working s)) ref \<noteq> None"
    | "0 < n" "payout_columns p" "row_get payout_ref (pending_payouts (working s)) ref = None"
    by fastforce
  then show ?thesis
  proof cases
    case 1
    with assms(1) show ?thesis
      by (intro refused) (auto simp: enqueue_payout_def session_run)
  next
    case 2
    with assms(1) show ?thesis
      by (intro rows) (auto simp: enqueue_payout_def session_run catch_def bind_def Let_def p_def [symmetric])
  next
    case 3
    with assms(1) show ?thesis
      by (intro known) (auto simp: enqueue_payout_def session_run catch_def bind_def Let_def
          p_def [symmetric] split: option.splits)
  next
    case 4
    with assms(1) show ?thesis
      by (intro queued) (auto simp: enqueue_payout_def session_run catch_def bind_def Let_def
          p_def [symmetric])
  qed
qed

lemma epoch_rolled_back [simp]: "epoch (rolled_back s) = Suc (epoch s)" "epoch (burn_payout_id s) = epoch s"
  by (simp_all add: rolled_back_def burn_payout_id_def)

lemma rolled_back_burn_pending:
  "next_request_id d = next_request_id (working s) \<Longrightarrow> next_payout_id d = next_payout_id (working s) \<Longrightarrow>
   rolled_back (burn_payout_id (s\<lparr>working := d\<rparr>)) = rolled_back (burn_payout_id s)"
  by (simp add: rolled_back_def keep_sequences_def burn_payout_id_def)

lemma sess_steps_burn_rolled_back2: "sess_steps s (rolled_back (rolled_back (burn_payout_id s)))"
  by (meson rtranclp_trans sess_steps_burn sess_steps_rolled_back2)

lemma process_unlocked_cases:
  assumes u: "get_request (working s) (request_id u) = Some u" "request_status u = PENDING"
    and ep: "epoch s = ep"
    and run: "process_unlocked ep u s = (r, s')"
  obtains (stop) e where "r = Inl e" "sess_steps s s'"
    | (skip) "r = Inr ()" "request_amount u \<le> 0"
        "s' = s\<lparr>working := put_request (u\<lparr>request_status := READY\<rparr>) (working s)\<rparr>"
    | (refund) "r = Inr ()" "0 < request_amount u"
        "request_columns (u\<lparr>request_status := READY\<rparr>)" "payout_columns (refund_of u s)"
        "row_get payout_ref (pending_payouts (working s)) (unstake_ref (request_id u)) = None"
        "s' = s\<lparr>working := queue_refund (u\<lparr>request_status := READY\<rparr>) (refund_of u s) (working s)\<rparr>"
proof -
  let ?u' = "u\<lparr>request_status := READY\<rparr>"
  let ?enq = "enqueue_payout (request_address u) (request_amount u) ''UNSTAKE_REFUND''
                (unstake_ref (request_id u))"
  define s1 where "s1 = s\<lparr>working := put_request ?u' (working s)\<rparr>"
  have s1: "epoch s1 = ep" "next_payout_id (working s1) = next_payout_id (working s)"
    "pending_payouts (working s1) = pending_payouts (working s)" "clock s1 = clock s"
    using ep by (simp_all add: s1_def)
  have undo: "rolled_back s1 = rolled_back s"
    "rolled_back (burn_payout_id s1) = rolled_back (burn_payout_id s)"
    by (simp_all add: s1_def rolled_back_pending rolled_back_burn_pending)
  show ?thesis
  proof (cases "request_columns ?u'")
    case False
    with run have "r = Inl DataError" "s' = rolled_back s"
      by (simp_all add: process_unlocked_def bind_def write_request_run)
    then show ?thesis by (intro stop) auto
  next
    case True
    with run have tail: "catch (bind ?enq (\<lambda>_. loaded_attribute ep)) (\<lambda>e. loaded_attribute ep) s1 = (r, s')"
      by (simp add: process_unlocked_def bind_def write_request_run s1_def)
    obtain r1 s2 where enq: "?enq s1 = (r1, s2)" by fastforce
    then show ?thesis
    proof (cases rule: enqueue_refund_cases)
      case (refused e)
      with tail enq s1 have "r = Inr ()" "s' = s1"
        by (simp_all add: catch_def bind_def loaded_attribute_run)
      with refused show ?thesis by (intro skip) (simp_all add: s1_def)
    next
      case (rows e)
      with tail enq s1 undo ep have "r = Inl MissingGreenlet" "s' = rolled_back s"
        by (simp_all add: catch_def bind_def loaded_attribute_run)
      then show ?thesis by (intro stop) auto
    next
      case known
      with tail enq s1 undo ep
      have "r = Inl MissingGreenlet" "s' = rolled_back (rolled_back (burn_payout_id s))"
        by (auto simp: catch_def bind_def loaded_attribute_run split: sum.splits)
      then show ?thesis using sess_steps_burn_rolled_back2 by (intro stop) simp_all
    next
      case queued
      with tail enq s1 have "r = Inr ()" "s' = s2"
        by (simp_all add: catch_def bind_def loaded_attribute_run)
      with queued True s1 show ?thesis
        by (intro refund) (simp_all add: s1_def queue_refund_def)
    qed
  qed
qed

lemma process_unlocked_steps:
  assumes u: "get_request (working s) (request_id u) = Some u" "request_status u = PENDING"
    and ep: "epoch s = ep"
    and run: "process_unlocked ep u s = (r, s')"
  shows "sess_steps s s'"
    and "r = Inr x \<Longrightarrow> epoch s' = ep"
    and "r = Inr x \<Longrightarrow> i \<noteq> request_id u \<Longrightarrow> get_request (working s') i = get_request (working s) i"
proof -
  have "sess_steps s s' \<and> (r = Inr x \<longrightarrow> epoch s' = ep \<and>
      (i \<noteq> request_id u \<longrightarrow> get_request (working s') i = get_request (working s) i))"
    using u ep run
  proof (cases rule: process_unlocked_cases)
    case (stop e)
    then show ?thesis by simp
  next
    case skip
    with u ep show ?thesis
      by (auto intro!: sess_steps_act intro: db_step.unqueued simp: get_request_def row_get_put)
  next
    case refund
    have "db_step (working s) (queue_refund (u\<lparr>request_status := READY\<rparr>) (refund_of u s) (working s))"
      using u refund by (intro db_step.refund) auto
    with refund ep show ?thesis
      by (auto simp: get_request_def queue_refund_def row_get_put)
  qed
  then show "sess_steps s s'" and "r = Inr x \<Longrightarrow> epoch s' = ep"
    and "r = Inr x \<Longrightarrow> i \<noteq> request_id u \<Longrightarrow> get_request (working s') i = get_request (working s) i"
    by simp_all
qed

lemma process_unlocked_list_steps:
  assumes "\<And>u. u \<in> set us \<Longrightarrow> get_request (working s) (request_id u) = Some u \<and> request_status u = PENDING"
    and "distinct (map request_id us)" and "epoch s = ep"
    and "for_each (process_unlocked ep) us s = (r, s')"
  shows "sess_steps s s'"
  using assms
proof (induction us arbitrary: s)
  case Nil
  then show ?case by (simp add: return_exec)
next
  case (Cons u us)
  obtain r1 s1 where p: "process_unlocked ep u s = (r1, s1)" by fastforce
  have u: "get_request (working s) (request_id u) = Some u" "request_status u = PENDING"
    using Cons.prems(1) by simp_all
  note step = process_unlocked_steps [OF u Cons.prems(3) p]
  show ?case
  proof (cases r1)
    case (Inl e)
    with p step(1) Cons.prems(4) show ?thesis by (simp add: bind_def)
  next
    case (Inr x)
    have "sess_steps s1 s'"
    proof (rule Cons.IH)
      show "distinct (map request_id us)" using Cons.prems(2) by simp
      show "epoch s1 = ep" using step(2) Inr by simp
      show "for_each (process_unlocked ep) us s1 = (r, s')"
        using Cons.prems(4) p Inr by (simp add: bind_def)
      show "get_request (working s1) (request_id v) = Some v \<and> request_status v = PENDING"
        if "v \<in> set us" for v
      proof -
        from that have "request_id v \<in> request_id ` set us" by simp
        with Cons.prems(2) have "request_id v \<noteq> request_id u" by auto
        then show ?thesis using step(3) [OF Inr] Cons.prems(1) that by simp
      qed
    qed
    with step(1) show ?thesis by (rule rtranclp_trans)
  qed
qed

lemma unlocked_requests_loaded:
  assumes "wf_keys d"
  shows "distinct (map request_id (unlocked_requests h d))"
    and "u \<in> set (unlocked_requests h d) \<Longrightarrow>
      get_request d (request_id u) = Some u \<and> request_status u = PENDING"
  using assms
  by (simp_all add: wf_keys_def unlocked_requests_def get_request_def distinct_map_filter row_get_unique)

lemma simulates_process_unlocked_unstakes: "simulates (process_unlocked_unstakes h)"
proof (rule simulatesI)
  fix s r s'
  assume "lifted wf_keys s" and run: "process_unlocked_unstakes h s = (r, s')"
  then have wf: "wf_keys (working s)" by (simp add: lifted_def)
  let ?us = "unlocked_requests h (working s)"
  obtain r1 s1 where l: "for_each (process_unlocked (epoch s)) ?us s = (r1, s1)" by fastforce
  have "sess_steps s s1"
    by (rule process_unlocked_list_steps [OF _ _ refl l])
      (use unlocked_requests_loaded [OF wf] in auto)
  moreover have "s' = s \<or> s' = s1"
    using run l by (auto simp: process_unlocked_unstakes_def session_run bind_def split: sum.splits if_splits)
  ultimately show "sess_steps s s'" by auto
qed

section \<open>The signed endpoints\<close>

lemma bind_current_height:
  "bind current_height f s =
     (case watcher (working s) of
        None \<Rightarrow> (Inl (HTTPException 503 ''service_uninitialized''), s)
      | Some w \<Rightarrow> if snapshot_complete w then f (last_processed_height w) s
                  else (Inl (HTTPException 503 ''snapshot_in_progress''), s))"
  by (simp add: current_height_def bind_def session_run split: option.split)

lemma request_unstake_body_run:
  assumes "get_staker (working s) a = Some st" and "n \<le> staked_amount st" and "watcher_ready (working s) h"
  defines "st' \<equiv> set_stake (staked_amount st - n) h st"
    and "u \<equiv> new_request a n h (h + unstake_cooldown_blocks) (next_request_id (working s))"
  shows "request_unstake_body a n s =
    (if staker_columns st' \<and> request_columns u then
       (Inr \<lparr>ur_status = ''queued'', ur_request_id = request_id u, ur_amount = n,
          ur_amount_npc = to_npc n, ur_request_height = h,
          ur_unlock_height = h + unstake_cooldown_blocks,
          ur_blocks_until_unlock = h + unstake_cooldown_blocks - h,
          ur_new_staked_amount = staked_amount st - n,
          ur_new_tier = tier_name (tier_for (staked_amount st - n))\<rparr>,
        s\<lparr>working := lock_unstake st' u (working s), committed := lock_unstake st' u (working s)\<rparr>)
     else (Inl DataError, rolled_back s))"
  using assms(1-3) unfolding st'_def u_def
  by (auto simp: request_unstake_body_def exec_run bind_commit bind_rows bind_current_height
      watcher_ready_def Let_def lock_unstake_def rolled_back_pending)

lemma request_unstake_body_refused:
  assumes "\<nexists>st h. get_staker (working s) a = Some st \<and> n \<le> staked_amount st \<and> watcher_ready (working s) h"
  shows "\<exists>e. request_unstake_body a n s = (Inl e, s)"
proof (cases "get_staker (working s) a")
  case None
  then show ?thesis by (simp add: request_unstake_body_def session_run)
next
  case (Some st)
  with assms have "staked_amount st < n \<or> (\<nexists>h. watcher_ready (working s) h)" by fastforce
  with Some show ?thesis
    by (cases "watcher (working s)")
      (auto simp: request_unstake_body_def session_run bind_current_height watcher_ready_def)
qed

lemma request_unstake_body_cases:
  assumes "request_unstake_body a n s = (r, s')"
  obtains (refused) e where "r = Inl e" "s' = s \<or> s' = rolled_back s"
    | (locked) st height u d where "get_staker (working s) a = Some st" "n \<le> staked_amount st"
        "watcher_ready (working s) height"
        "staker_columns (set_stake (staked_amount st - n) height st)"
        "u = new_request a n height (height + unstake_cooldown_blocks) (next_request_id (working s))"
        "request_columns u"
        "d = lock_unstake (set_stake (staked_amount st - n) height st) u (working s)"
        "s' = s\<lparr>working := d, committed := d\<rparr>"
        "r = Inr \<lparr>ur_status = ''queued'', ur_request_id = request_id u, ur_amount = n,
           ur_amount_npc = to_npc n, ur_request_height = height,
           ur_unlock_height = height + unstake_cooldown_blocks,
           ur_blocks_until_unlock = height + unstake_cooldown_blocks - height,
           ur_new_staked_amount = staked_amount st - n,
           ur_new_tier = tier_name (tier_for (staked_amount st - n))\<rparr>"
proof (cases "\<exists>st h. get_staker (working s) a = Some st \<and> n \<le> staked_amount st \<and> watcher_ready (working s) h")
  case False
  from request_unstake_body_refused [OF this] assms show ?thesis by (auto intro: refused)
next
  case True
  then obtain st h where pre: "get_staker (working s) a = Some st" "n \<le> staked_amount st"
    "watcher_ready (working s) h" by blast
  let ?st = "set_stake (staked_amount st - n) h st"
  let ?u = "new_request a n h (h + unstake_cooldown_blocks) (next_request_id (working s))"
  show ?thesis
  proof (cases "staker_columns ?st \<and> request_columns ?u")
    case True
    with request_unstake_body_run [OF pre] assms show ?thesis by (intro locked [OF pre _ refl _ refl]) auto
  next
    case False
    with request_unstake_body_run [OF pre] assms show ?thesis by (intro refused [of DataError]) (auto split: if_splits)
  qed
qed

lemma simulates_request_unstake_body:
  assumes "0 < n" and "npc_address a"
  shows "simulates (request_unstake_body a n)"
proof (rule simulatesI)
  fix s r s' assume run: "request_unstake_body a n s = (r, s')"
  then show "sess_steps s s'"
  proof (cases rule: request_unstake_body_cases)
    case (refused e)
    then show ?thesis by auto
  next
    case (locked st height u d)
    with assms have "db_step (working s) d" by (auto intro: db_step.lock)
    then have "sess_steps s (s\<lparr>working := d\<rparr>)" by auto
    moreover have "sess_steps (s\<lparr>working := d\<rparr>) s'"
      using locked sess_steps_commit [of "s\<lparr>working := d\<rparr>"] by simp
    ultimately show ?thesis by (rule rtranclp_trans)
  qed
qed

text \<open>What a request must satisfy for its owner to cancel it, and what cancelling then does.\<close>

definition cancellable :: "db \<Rightarrow> string \<Rightarrow> int \<Rightarrow> UnstakeRequest \<Rightarrow> Staker \<Rightarrow> int \<Rightarrow> bool" where
  "cancellable d a i u st h \<longleftrightarrow> big_integer i \<and> get_request d i = Some u \<and> request_address u = a \<and>
     request_status u \<in> {PENDING, READY} \<and> get_staker d a = Some st \<and> watcher_ready d h"

definition cancelled_request :: "int \<Rightarrow> UnstakeRequest \<Rightarrow> UnstakeRequest" where
  "cancelled_request h u = u\<lparr>request_status := CANCELLED, completed_height := Some h\<rparr>"

definition cancel_effect :: "int \<Rightarrow> UnstakeRequest \<Rightarrow> Staker \<Rightarrow> db \<Rightarrow> db" where
  "cancel_effect h u st d = put_request (cancelled_request h u)
     (put_staker (set_stake (staked_amount st + request_amount u) h st) d)"

lemma cancel_unstake_body_run:
  assumes "cancellable (working s) a i u st h"
  shows "cancel_unstake_body a i s =
    (if staker_columns (set_stake (staked_amount st + request_amount u) h st) \<and>
        request_columns (cancelled_request h u) then
       (Inr \<lparr>cr_status = ''cancelled'', cr_request_id = i, cr_amount_restored = request_amount u,
         cr_amount_restored_npc = to_npc (request_amount u),
         cr_new_staked_amount = staked_amount st + request_amount u,
         cr_new_tier = tier_name (tier_for (staked_amount st + request_amount u))\<rparr>,
        s\<lparr>working := cancel_effect h u st (working s), committed := cancel_effect h u st (working s)\<rparr>)
     else (Inl DataError, rolled_back s))"
  using assms
  by (auto simp: cancellable_def cancel_unstake_body_def exec_run bind_commit bind_rows bind_current_height
      watcher_ready_def Let_def rolled_back_pending cancel_effect_def cancelled_request_def)

lemma cancel_unstake_body_refused:
  assumes "\<nexists>u st h. cancellable (working s) a i u st h"
  shows "\<exists>e. cancel_unstake_body a i s = (Inl e, s)"
proof (cases "get_request (working s) i")
  case None
  then show ?thesis by (simp add: cancel_unstake_body_def session_run)
next
  case u: (Some u)
  have "?thesis" if "\<not> big_integer i" using that by (simp add: cancel_unstake_body_def session_run)
  moreover have "?thesis" if "big_integer i"
  proof (cases "request_address u = a \<and> request_status u \<in> {PENDING, READY}")
    case False
    with u show ?thesis by (auto simp: cancel_unstake_body_def session_run)
  next
    case own: True
    show ?thesis
    proof (cases "get_staker (working s) a")
      case None
      with u own show ?thesis by (auto simp: cancel_unstake_body_def session_run)
    next
      case (Some st)
      with assms u own that have "\<nexists>h. watcher_ready (working s) h" by (auto simp: cancellable_def)
      with u own Some show ?thesis
        by (cases "watcher (working s)")
          (auto simp: cancel_unstake_body_def session_run bind_current_height watcher_ready_def)
    qed
  qed
  ultimately show ?thesis by blast
qed

lemma cancel_unstake_body_cases:
  assumes "cancel_unstake_body a i s = (r, s')"
  obtains (refused) e where "r = Inl e" "s' = s \<or> s' = rolled_back s"
    | (cancelled) u st h where "cancellable (working s) a i u st h"
        "staker_columns (set_stake (staked_amount st + request_amount u) h st)"
        "request_columns (cancelled_request h u)"
        "s' = s\<lparr>working := cancel_effect h u st (working s), committed := cancel_effect h u st (working s)\<rparr>"
proof (cases "\<exists>u st h. cancellable (working s) a i u st h")
  case False
  from cancel_unstake_body_refused [OF this] assms show ?thesis by (auto intro: refused)
next
  case True
  then obtain u st h where pre: "cancellable (working s) a i u st h" by blast
  show ?thesis
  proof (cases "staker_columns (set_stake (staked_amount st + request_amount u) h st) \<and>
      request_columns (cancelled_request h u)")
    case True
    with cancel_unstake_body_run [OF pre] assms show ?thesis by (intro cancelled [OF pre]) auto
  next
    case False
    with cancel_unstake_body_run [OF pre] assms show ?thesis
      by (intro refused [of DataError]) (auto split: if_splits)
  qed
qed

lemma simulates_cancel_unstake_body: "simulates (cancel_unstake_body a i)"
proof (rule simulatesI)
  fix s r s' assume "cancel_unstake_body a i s = (r, s')"
  then show "sess_steps s s'"
  proof (cases rule: cancel_unstake_body_cases)
    case (refused e)
    then show ?thesis by auto
  next
    case (cancelled u st h)
    let ?d = "cancel_effect h u st (working s)"
    have "db_step (working s) ?d"
      using cancelled unfolding cancel_effect_def cancelled_request_def
      by (intro db_step.cancel) (auto simp: cancellable_def)
    then have "sess_steps s (s\<lparr>working := ?d\<rparr>)" by auto
    moreover have "sess_steps (s\<lparr>working := ?d\<rparr>) s'"
      using cancelled sess_steps_commit [of "s\<lparr>working := ?d\<rparr>"] by simp
    ultimately show ?thesis by (rule rtranclp_trans)
  qed
qed

text \<open>A claim never gets past \<open>enqueue_payout\<close>: the kind it asks for is refused.\<close>

lemma claim_rewards_body_cases:
  assumes "claim_rewards_body a nonce s = (r, s')"
  obtains e where "r = Inl e" and "s' = s \<or> s' = rolled_back s \<or>
    (\<exists>row height. get_reward (working s) a = Some row \<and> 0 < pending_rewards row \<and>
       s' = s\<lparr>working := put_reward (drain_reward height row) (working s)\<rparr>)"
proof -
  have "(\<exists>e. r = Inl e) \<and> (s' = s \<or> s' = rolled_back s \<or>
    (\<exists>row height. get_reward (working s) a = Some row \<and> 0 < pending_rewards row \<and>
       s' = s\<lparr>working := put_reward (drain_reward height row) (working s)\<rparr>))"
    using assms
    by (auto simp: claim_rewards_body_def exec_run bind_rows bind_current_height Let_def
        enqueue_payout_def split: option.splits if_splits)
  then show ?thesis using that by blast
qed

lemma simulates_claim_rewards_body: "simulates (claim_rewards_body a nonce)"
proof (rule simulatesI)
  fix s r s' assume "claim_rewards_body a nonce s = (r, s')"
  then show "sess_steps s s'"
    by (rule claim_rewards_body_cases) (auto intro: db_step.drain)
qed

section \<open>The runner\<close>

text \<open>Marking a list of claimable payouts as SIGNING, row by row.\<close>

lemma claim_rows_steps:
  assumes "\<And>p. p \<in> set ps \<Longrightarrow> get_payout (working s) (payout_id p) = Some p \<and> claimable p"
    and "distinct (map payout_id ps)"
    and "for_each (\<lambda>p. write_payout (p\<lparr>payout_status := SIGNING\<rparr>)) ps s = (r, s')"
  shows "sess_steps s s'"
  using assms
proof (induction ps arbitrary: s)
  case Nil
  then show ?case by (simp add: return_exec)
next
  case (Cons p ps)
  let ?p = "p\<lparr>payout_status := SIGNING\<rparr>"
  show ?case
  proof (cases "payout_columns ?p")
    case False
    with Cons.prems(3) have "s' = rolled_back s" by (simp add: bind_rows)
    then show ?thesis by auto
  next
    case True
    define s1 where "s1 = s\<lparr>working := put_payout ?p (working s)\<rparr>"
    have "db_step (working s) (put_payout ?p (working s))"
      using Cons.prems(1) by (intro db_step.claim) auto
    then have 1: "sess_steps s s1" by (auto simp: s1_def)
    have "sess_steps s1 s'"
    proof (rule Cons.IH)
      show "distinct (map payout_id ps)" using Cons.prems(2) by simp
      show "for_each (\<lambda>p. write_payout (p\<lparr>payout_status := SIGNING\<rparr>)) ps s1 = (r, s')"
        using Cons.prems(3) True by (simp add: bind_rows s1_def)
      show "get_payout (working s1) (payout_id q) = Some q \<and> claimable q" if "q \<in> set ps" for q
      proof -
        from that have "payout_id q \<in> payout_id ` set ps" by simp
        with Cons.prems(2) have "payout_id q \<noteq> payout_id p" by auto
        then show ?thesis
          using Cons.prems(1) that by (simp add: s1_def get_payout_def row_get_put)
      qed
    qed
    with 1 show ?thesis by (rule rtranclp_trans)
  qed
qed

lemma batch_query_loaded:
  assumes "wf_keys d"
  shows "distinct (map payout_id (batch_query d))"
    and "p \<in> set (batch_query d) \<Longrightarrow> get_payout d (payout_id p) = Some p \<and> claimable p"
proof -
  let ?ps = "pending_payouts d"
  have key: "distinct (map payout_id ?ps)" using assms by (simp add: wf_keys_def)
  have sub: "set (batch_query d) \<subseteq> {p \<in> set ?ps. claimable p}"
    using set_take_subset by (fastforce simp: batch_query_def)
  have "distinct (batch_query d)"
    using key by (simp add: batch_query_def distinct_map)
  moreover have "inj_on payout_id (set (batch_query d))"
    using key sub by (auto simp: distinct_map intro: inj_on_subset)
  ultimately show "distinct (map payout_id (batch_query d))" by (simp add: distinct_map)
  show "get_payout d (payout_id p) = Some p \<and> claimable p" if "p \<in> set (batch_query d)"
    using that sub row_get_unique [OF key] by (auto simp: get_payout_def)
qed

lemma simulates_claim_batch: "simulates claim_batch"
proof (rule simulatesI)
  fix s r s' assume "lifted wf_keys s" and run: "claim_batch s = (r, s')"
  then have wf: "wf_keys (working s)" by (simp add: lifted_def)
  obtain r1 s1 where l: "for_each (\<lambda>p. write_payout (p\<lparr>payout_status := SIGNING\<rparr>))
      (batch_query (working s)) s = (r1, s1)" by fastforce
  have "sess_steps s s1"
    by (rule claim_rows_steps [OF _ _ l]) (use batch_query_loaded [OF wf] in auto)
  moreover have "s' = s1 \<or> s' = s1\<lparr>committed := working s1\<rparr>"
    using run l by (auto simp: claim_batch_def session_run bind_def split: sum.splits)
  ultimately show "sess_steps s s'" by (auto intro: rtranclp_trans)
qed

lemma write_outcome_steps:
  assumes "get_payout (working s) i = Some p" and "payout_status p = SIGNING"
    and "write_payout (payout_outcome exc_str r0 p) s = (r, s')"
  shows "sess_steps s s'"
  using assms by (auto simp: write_payout_run intro: db_step.outcome split: if_splits)

section \<open>The walks over the chain\<close>

lemma simulates_write_watcher: "simulates (write_watcher w)"
proof (rule simulatesI)
  fix s r s' assume "write_watcher w s = (r, s')"
  then show "sess_steps s s'"
    by (auto simp: write_watcher_run intro: db_step.watch split: if_splits)
qed

lemma simulates_get_or_create_watcher_state: "simulates get_or_create_watcher_state"
  unfolding get_or_create_watcher_state_def
  by (intro simulates_intros) (auto intro!: simulates_intros simulates_write_watcher split: option.split)

lemma simulates_snapshot_block_session: "simulates (snapshot_block_session blk h)"
  unfolding snapshot_block_session_def
  by (intro simulates_intros simulates_apply_block_transactions
      simulates_get_or_create_watcher_state simulates_write_watcher)

lemma simulates_snapshot_start: "simulates (snapshot_start t)"
  unfolding snapshot_start_def Let_def
  by (intro simulates_intros simulates_get_or_create_watcher_state simulates_write_watcher)

lemma simulates_snapshot_finish: "simulates (snapshot_finish t)"
  unfolding snapshot_finish_def
  by (intro simulates_intros simulates_get_or_create_watcher_state simulates_write_watcher)

lemma simulates_watcher_block_session: "simulates (watcher_block_session blk h)"
  unfolding watcher_block_session_def
  by (intro simulates_intros simulates_apply_block_transactions simulates_process_unlocked_unstakes)
    (auto intro!: simulates_intros simulates_write_watcher split: option.split)

end
