(* ===== verification/Invariants.thy ===== *)
theory Invariants
  imports Transitions
begin

text \<open>
  What every transition of the specification keeps: the accounts and their unstake requests,
  the stake ledger against the accounts, the payouts against the requests, and the rewards
  against the inflows of the pool. Each is an instance of one of the two invariant locales.
\<close>

section \<open>Invariants that rest on others\<close>

text \<open>\<open>I\<close> is kept by the transitions of databases that satisfy the invariant \<open>J\<close>.\<close>

locale relative_invariant = base: db_invariant J for J :: "db \<Rightarrow> bool" +
  fixes I :: "db \<Rightarrow> bool"
  assumes keeps: "db_step d d' \<Longrightarrow> J d \<Longrightarrow> I d \<Longrightarrow> I d'"
    and sequences: "I d \<Longrightarrow> I (d\<lparr>next_request_id := i, next_payout_id := j\<rparr>)"
begin

lemma both_step: "db_step d d' \<Longrightarrow> J d \<and> I d \<Longrightarrow> J d' \<and> I d'"
  by (blast intro: keeps base.step_keeps)

end

sublocale relative_invariant \<subseteq> db_invariant "\<lambda>d. J d \<and> I d"
  by unfold_locales (auto intro: keeps sequences base.step_keeps base.sequences_keep)

section \<open>Accounts and unstake requests\<close>

definition staker_ok :: "Staker \<Rightarrow> bool" where
  "staker_ok st \<longleftrightarrow> 0 \<le> staked_amount st \<and> tier st = tier_name (tier_for (staked_amount st))"

definition request_ok :: "UnstakeRequest \<Rightarrow> bool" where
  "request_ok u \<longleftrightarrow> 0 < request_amount u \<and>
     unlock_height u = request_height u + unstake_cooldown_blocks \<and>
     (request_status u = CANCELLED \<longleftrightarrow> completed_height u \<noteq> None) \<and>
     request_status u \<noteq> COMPLETED \<and> refund_tx_hash u = None \<and> request_columns u \<and>
     npc_address (request_address u)"

definition event_ok :: "StakeEvent \<Rightarrow> bool" where
  "event_ok e \<longleftrightarrow> 0 < event_amount e \<and> event_type e \<in> {''STAKE'', ''UNSTAKE''} \<and>
     event_tx_hash e \<noteq> None"

text \<open>The rows one by one, and the foreign keys of events and requests.\<close>

definition accounts_ok :: "db \<Rightarrow> bool" where
  "accounts_ok d \<longleftrightarrow>
     (\<forall>st \<in> set (stakers d). staker_ok st) \<and>
     (\<forall>u \<in> set (unstake_requests d). request_ok u \<and> request_address u \<in> staker_address ` set (stakers d)) \<and>
     (\<forall>e \<in> set (stake_events d). event_ok e \<and> event_address e \<in> staker_address ` set (stakers d))"

lemma accounts_okD:
  assumes "accounts_ok d"
  shows "st \<in> set (stakers d) \<Longrightarrow> staker_ok st"
    and "u \<in> set (unstake_requests d) \<Longrightarrow> request_ok u"
    and "get_staker d a = Some st \<Longrightarrow> staker_ok st"
    and "get_request d i = Some u \<Longrightarrow> request_ok u"
  using assms staker_table.get_mem request_table.get_mem by (auto simp: accounts_ok_def)

lemma staker_ok_new [simp]: "staker_ok (new_staker a)"
  by (simp add: staker_ok_def new_staker_def tier_for_def NONE_TIER_def)

lemma staker_ok_credit: "staker_ok st \<Longrightarrow> 0 < n \<Longrightarrow> staker_ok (staker_credit n h st)"
  by (simp add: staker_ok_def staker_credit_def refresh_tier_cache_def)

lemma staker_ok_debit: "staker_ok (staker_debit n h st)"
  by (simp add: staker_ok_def staker_debit_def refresh_tier_cache_def)

lemma staker_ok_set_stake: "staker_ok (set_stake n h st) \<longleftrightarrow> 0 \<le> n"
  by (simp add: staker_ok_def set_stake_def)

lemma staker_address_kept [simp]:
  "staker_address (staker_credit n h st) = staker_address st"
  "staker_address (staker_debit n h st) = staker_address st"
  "staker_address (set_stake n h st) = staker_address st"
  by (simp_all add: staker_credit_def staker_debit_def set_stake_def refresh_tier_cache_def)

lemma new_request_fields [simp]:
  "request_id (new_request a n h l i) = i" "request_address (new_request a n h l i) = a"
  "request_amount (new_request a n h l i) = n" "request_height (new_request a n h l i) = h"
  "unlock_height (new_request a n h l i) = l" "request_status (new_request a n h l i) = PENDING"
  "completed_height (new_request a n h l i) = None" "refund_tx_hash (new_request a n h l i) = None"
  by (simp_all add: new_request_def)

lemma new_payout_fields [simp]:
  "payout_id (new_payout a n k ref t i) = i" "recipient (new_payout a n k ref t i) = a"
  "payout_amount (new_payout a n k ref t i) = n" "payout_kind (new_payout a n k ref t i) = k"
  "payout_status (new_payout a n k ref t i) = QUEUED" "payout_ref (new_payout a n k ref t i) = ref"
  "payout_tx_hash (new_payout a n k ref t i) = None" "attempts (new_payout a n k ref t i) = 0"
  "error_message (new_payout a n k ref t i) = None"
  by (simp_all add: new_payout_def)

text \<open>Rows that come and go: adding or replacing one keeps what holds of each.\<close>

lemma accounts_put_staker:
  "accounts_ok d \<Longrightarrow> staker_ok st \<Longrightarrow> accounts_ok (put_staker st d)"
  by (auto simp: accounts_ok_def dest!: set_row_put)

lemma accounts_put_request:
  assumes "accounts_ok d" and "get_request d i = Some u" and "request_ok u'"
    and "request_address u' = request_address u"
  shows "accounts_ok (put_request u' d)"
  using assms request_table.get_mem [OF assms(2)]
  by (auto simp: accounts_ok_def dest!: set_row_put)

lemma accounts_add_event:
  "accounts_ok d \<Longrightarrow> event_ok e \<Longrightarrow> event_address e \<in> staker_address ` set (stakers d) \<Longrightarrow>
   accounts_ok (d\<lparr>stake_events := row_insert e (stake_events d)\<rparr>)"
  by (auto simp: accounts_ok_def)

lemma accounts_other_tables [simp]:
  "accounts_ok (put_payout p d) = accounts_ok d"
  "accounts_ok (put_reward r d) = accounts_ok d"
  "accounts_ok (pool_effect n h d) = accounts_ok d"
  "accounts_ok (d\<lparr>next_payout_id := i\<rparr>) = accounts_ok d"
  "accounts_ok (d\<lparr>watcher := w\<rparr>) = accounts_ok d"
  "accounts_ok (d\<lparr>next_request_id := i\<rparr>) = accounts_ok d"
  "accounts_ok (d\<lparr>pending_payouts := ps\<rparr>) = accounts_ok d"
  by (simp_all add: accounts_ok_def)

lemma staker_row: "get_staker d a = Some st \<Longrightarrow> a \<in> staker_address ` set (stakers d)"
  using staker_table.get_key staker_table.get_mem by blast

lemma accounts_step:
  assumes "db_step d d'" and ok: "accounts_ok d"
  shows "accounts_ok d'"
  using assms(1)
proof cases
  case (open_account a)
  with ok show ?thesis by (auto simp: accounts_ok_def)
next
  case (credit a st e st')
  with ok have "staker_ok st'" by (auto intro: staker_ok_credit accounts_okD(3))
  moreover have "event_ok e" using credit by (simp add: event_ok_def)
  ultimately show ?thesis using ok credit(1,2,3)
    by (auto simp: record_stake_def intro!: accounts_put_staker accounts_add_event staker_row)
next
  case (debit a st e st')
  then have "staker_ok st'" by (simp add: staker_ok_debit)
  moreover have "event_ok e" using debit by (simp add: event_ok_def)
  ultimately show ?thesis using ok debit(1,2,3)
    by (auto simp: record_stake_def intro!: accounts_put_staker accounts_add_event staker_row)
next
  case (lock a st n height st' u)
  then have "accounts_ok (put_staker st' d)"
    using ok by (intro accounts_put_staker) (simp_all add: staker_ok_set_stake)
  with lock show ?thesis
    by (auto simp: accounts_ok_def lock_unstake_def request_ok_def dest: staker_row)
next
  case (cancel i u st height st' u')
  have "request_ok u" "staker_ok st" using ok cancel accounts_okD(3,4) by blast+
  then have "0 \<le> staked_amount st + request_amount u"
    by (simp add: staker_ok_def request_ok_def)
  with cancel have "staker_ok st'" by (simp add: staker_ok_set_stake)
  moreover have "request_ok u'" using \<open>request_ok u\<close> cancel by (auto simp: request_ok_def)
  moreover from cancel have "get_request (put_staker st' d) i = Some u"
    by (simp add: get_request_def)
  ultimately show ?thesis
    using ok cancel(1,8) by (auto intro!: accounts_put_request accounts_put_staker)
next
  case (refund i u u' p t)
  have "request_ok u" using ok refund accounts_okD(4) by blast
  with refund have "request_ok u'" by (auto simp: request_ok_def)
  with refund ok show ?thesis
    by (auto simp: queue_refund_def intro!: accounts_put_request)
next
  case (unqueued i u)
  have "request_ok u" using ok unqueued accounts_okD(4) by blast
  with unqueued show ?thesis by (simp add: request_ok_def)
qed (use ok in simp_all)

interpretation accounts: relative_invariant wf_keys accounts_ok
  by unfold_locales (auto intro: accounts_step)

section \<open>The accounts against the stake ledger\<close>

definition event_total :: "string \<Rightarrow> string \<Rightarrow> db \<Rightarrow> int" where
  "event_total ty a d = sum_list (map (\<lambda>e. if event_address e = a \<and> event_type e = ty
     then event_amount e else 0) (stake_events d))"

definition locked_amount :: "string \<Rightarrow> UnstakeRequest \<Rightarrow> int" where
  "locked_amount a u = (if request_address u = a \<and> request_status u \<noteq> CANCELLED
     then request_amount u else 0)"

definition locked_total :: "string \<Rightarrow> db \<Rightarrow> int" where
  "locked_total a d = sum_list (map (locked_amount a) (unstake_requests d))"

definition stake_of :: "string \<Rightarrow> db \<Rightarrow> int" where
  "stake_of a d = (case get_staker d a of None \<Rightarrow> 0 | Some st \<Rightarrow> staked_amount st)"

text \<open>
  What an account holds, staked or on its way out, lies between the stake recorded for it less
  the refunds recorded for it, and the stake recorded for it.
\<close>

definition flow_ok :: "db \<Rightarrow> bool" where
  "flow_ok d \<longleftrightarrow> (\<forall>a. event_total ''STAKE'' a d - event_total ''UNSTAKE'' a d
       \<le> stake_of a d + locked_total a d \<and>
     stake_of a d + locked_total a d \<le> event_total ''STAKE'' a d)"

lemma event_total_frame [simp]:
  "event_total ty a (put_staker st d) = event_total ty a d"
  "event_total ty a (put_request u d) = event_total ty a d"
  "event_total ty a (d\<lparr>stakers := sts\<rparr>) = event_total ty a d"
  "event_total ty a (d\<lparr>unstake_requests := us\<rparr>) = event_total ty a d"
  "event_total ty a (d\<lparr>next_request_id := i\<rparr>) = event_total ty a d"
  "event_total ty a (d\<lparr>next_payout_id := i\<rparr>) = event_total ty a d"
  "event_total ty a (d\<lparr>pending_payouts := ps\<rparr>) = event_total ty a d"
  "event_total ty a (d\<lparr>watcher := w\<rparr>) = event_total ty a d"
  "event_total ty a (put_payout p d) = event_total ty a d"
  "event_total ty a (put_reward r d) = event_total ty a d"
  "event_total ty a (pool_effect n h d) = event_total ty a d"
  by (simp_all add: event_total_def)

lemma event_total_add [simp]:
  "event_total ty a (d\<lparr>stake_events := row_insert e (stake_events d)\<rparr>) = event_total ty a d +
     (if event_address e = a \<and> event_type e = ty then event_amount e else 0)"
  by (simp add: event_total_def)

lemma locked_total_frame [simp]:
  "locked_total a (put_staker st d) = locked_total a d"
  "locked_total a (d\<lparr>stakers := sts\<rparr>) = locked_total a d"
  "locked_total a (d\<lparr>stake_events := es\<rparr>) = locked_total a d"
  "locked_total a (d\<lparr>next_request_id := i\<rparr>) = locked_total a d"
  "locked_total a (d\<lparr>next_payout_id := i\<rparr>) = locked_total a d"
  "locked_total a (d\<lparr>pending_payouts := ps\<rparr>) = locked_total a d"
  "locked_total a (d\<lparr>watcher := w\<rparr>) = locked_total a d"
  "locked_total a (put_payout p d) = locked_total a d"
  "locked_total a (put_reward r d) = locked_total a d"
  "locked_total a (pool_effect n h d) = locked_total a d"
  by (simp_all add: locked_total_def)

lemma stake_of_frame [simp]:
  "stake_of a (put_request u d) = stake_of a d"
  "stake_of a (d\<lparr>unstake_requests := us\<rparr>) = stake_of a d"
  "stake_of a (d\<lparr>stake_events := es\<rparr>) = stake_of a d"
  "stake_of a (d\<lparr>next_request_id := i\<rparr>) = stake_of a d"
  "stake_of a (d\<lparr>next_payout_id := i\<rparr>) = stake_of a d"
  "stake_of a (d\<lparr>pending_payouts := ps\<rparr>) = stake_of a d"
  "stake_of a (d\<lparr>watcher := w\<rparr>) = stake_of a d"
  "stake_of a (put_payout p d) = stake_of a d"
  "stake_of a (put_reward r d) = stake_of a d"
  "stake_of a (pool_effect n h d) = stake_of a d"
  by (simp_all add: stake_of_def get_staker_def)

lemma stake_of_put:
  "get_staker d (staker_address st') = Some st \<Longrightarrow>
   stake_of a (put_staker st' d) = (if a = staker_address st' then staked_amount st' else stake_of a d)"
  by (simp add: stake_of_def staker_table.get_put)

lemma stake_of_Some: "get_staker d a = Some st \<Longrightarrow> stake_of a d = staked_amount st"
  by (simp add: stake_of_def)

lemma locked_total_put:
  assumes "wf_keys d" and "get_request d (request_id u') = Some u"
  shows "locked_total a (put_request u' d) = locked_total a d - locked_amount a u + locked_amount a u'"
  using assms sum_row_put [of request_id "unstake_requests d" u' u "locked_amount a"]
  by (simp add: locked_total_def wf_keys_def get_request_def)

lemma lock_unstake_totals:
  "locked_total a (lock_unstake st u d) = locked_total a d + locked_amount a u"
  "stake_of a (lock_unstake st u d) = stake_of a (put_staker st d)"
  "event_total ty a (lock_unstake st u d) = event_total ty a d"
  by (simp_all add: lock_unstake_def) (simp add: locked_total_def)

lemma flow_sequences: "flow_ok d \<Longrightarrow> flow_ok (d\<lparr>next_request_id := i, next_payout_id := j\<rparr>)"
  by (simp add: flow_ok_def)

lemma flow_same:
  "flow_ok d \<Longrightarrow> (\<And>a. stake_of a d' + locked_total a d' = stake_of a d + locked_total a d) \<Longrightarrow>
   (\<And>a ty. event_total ty a d' = event_total ty a d) \<Longrightarrow> flow_ok d'"
  by (simp add: flow_ok_def)

lemma staked_amount_kept [simp]:
  "staked_amount (staker_credit n h st) = staked_amount st + n"
  "staked_amount (staker_debit n h st) = max 0 (staked_amount st - n)"
  "staked_amount (set_stake k h st) = k"
  by (simp_all add: staker_credit_def staker_debit_def set_stake_def refresh_tier_cache_def)

lemma flow_step:
  assumes "db_step d d'" and ok: "wf_keys d \<and> accounts_ok d" and flow: "flow_ok d"
  shows "flow_ok d'"
  using assms(1)
proof cases
  case (open_account a)
  then have "stake_of b d' = stake_of b d" for b
    by (simp add: stake_of_def get_staker_def row_get_insert new_staker_def split: option.split)
  with open_account flow show ?thesis by (intro flow_same [OF flow]) simp_all
next
  case (credit a st e st')
  let ?n = "event_amount e"
  have addr: "staker_address st = a" using credit staker_table.get_key by blast
  with credit have stake: "stake_of b d' = stake_of b d + (if b = a then ?n else 0)" for b
    by (simp add: record_stake_def stake_of_put get_staker_def stake_of_Some)
  have "event_total ''STAKE'' b d' = event_total ''STAKE'' b d + (if b = a then ?n else 0)"
    "event_total ''UNSTAKE'' b d' = event_total ''UNSTAKE'' b d" "locked_total b d' = locked_total b d" for b
    using credit by (simp_all add: record_stake_def)
  with stake flow show ?thesis by (simp add: flow_ok_def)
next
  case (debit a st e st')
  let ?n = "event_amount e"
  have addr: "staker_address st = a" using debit staker_table.get_key by blast
  with debit have stake: "stake_of b d' = (if b = a then max 0 (staked_amount st - ?n) else stake_of b d)" for b
    by (simp add: record_stake_def stake_of_put get_staker_def)
  have "0 \<le> staked_amount st" using ok debit accounts_okD(3) by (auto simp: staker_ok_def)
  with stake debit have "stake_of b d - (if b = a then ?n else 0) \<le> stake_of b d'"
    "stake_of b d' \<le> stake_of b d" for b
    by (simp_all add: stake_of_Some)
  moreover have "event_total ''UNSTAKE'' b d' = event_total ''UNSTAKE'' b d + (if b = a then ?n else 0)"
    "event_total ''STAKE'' b d' = event_total ''STAKE'' b d" "locked_total b d' = locked_total b d" for b
    using debit by (simp_all add: record_stake_def)
  ultimately show ?thesis using flow unfolding flow_ok_def by (smt (verit))
next
  case (lock a st n height st' u)
  have "staker_address st = a" using lock staker_table.get_key by blast
  with lock show ?thesis
    by (intro flow_same [OF flow])
      (auto simp: lock_unstake_totals stake_of_put stake_of_Some locked_amount_def)
next
  case (cancel i u st height st' u')
  have addr: "staker_address st = request_address u" using cancel staker_table.get_key by blast
  have "request_id u' = i" using cancel request_table.get_key by auto
  with cancel have "locked_total b d' = locked_total b d - (if b = request_address u then request_amount u else 0)" for b
    using ok locked_total_put [of "put_staker st' d" u' u b]
    by (auto simp: locked_amount_def wf_keys_def get_request_def)
  moreover from cancel addr have "stake_of b d' = stake_of b d + (if b = request_address u then request_amount u else 0)" for b
    by (simp add: stake_of_put stake_of_Some)
  ultimately show ?thesis using cancel(1) by (intro flow_same [OF flow]) simp_all
next
  case (refund i u u' p t)
  have "request_id u' = i" using refund request_table.get_key by auto
  with refund ok have "locked_total b d' = locked_total b d" for b
    by (simp add: queue_refund_def locked_total_put locked_amount_def)
  with refund(1) show ?thesis by (intro flow_same [OF flow]) (simp_all add: queue_refund_def)
next
  case (unqueued i u)
  have "request_id u = i" using unqueued request_table.get_key by auto
  with unqueued ok have "locked_total b d' = locked_total b d" for b
    by (simp add: locked_total_put locked_amount_def)
  with unqueued(1) show ?thesis by (intro flow_same [OF flow]) simp_all
qed (use flow in \<open>simp_all add: flow_ok_def\<close>)

interpretation flow: relative_invariant "\<lambda>d. wf_keys d \<and> accounts_ok d" flow_ok
  by unfold_locales (auto intro: flow_step flow_sequences)

section \<open>The rewards pool\<close>

subsection \<open>Dividing an inflow\<close>

lemma sum_list_filter_pos:
  fixes xs :: "int list"
  shows "(\<And>x. x \<in> set xs \<Longrightarrow> 0 \<le> x) \<Longrightarrow> sum_list (filter (\<lambda>x. 0 < x) xs) = sum_list xs"
  by (induction xs) force+

lemma reward_share_nonneg: "0 \<le> n \<Longrightarrow> 0 < total_stake \<Longrightarrow> 0 \<le> staked_amount st \<Longrightarrow> 0 \<le> reward_share n total_stake st"
  by (simp add: reward_share_def pos_imp_zdiv_nonneg_iff)

text \<open>Each share is the exact one rounded down, so all of them lose less than one unit each.\<close>

lemma share_bounds:
  assumes "0 < total_stake"
  shows "total_stake * reward_share n total_stake st \<le> n * staked_amount st"
    and "n * staked_amount st < total_stake * reward_share n total_stake st + total_stake"
proof -
  let ?x = "n * staked_amount st"
  have "?x = total_stake * (?x div total_stake) + ?x mod total_stake" by simp
  moreover have "0 \<le> ?x mod total_stake" "?x mod total_stake < total_stake" using assms by simp_all
  ultimately show "total_stake * reward_share n total_stake st \<le> ?x"
    and "?x < total_stake * reward_share n total_stake st + total_stake"
    unfolding reward_share_def by linarith+
qed

lemma sum_shares_bounds:
  assumes "0 < total_stake"
  shows "total_stake * sum_list (map (reward_share n total_stake) sts) \<le> n * sum_list (map staked_amount sts)"
    and "n * sum_list (map staked_amount sts) \<le>
      total_stake * sum_list (map (reward_share n total_stake) sts) + int (length sts) * (total_stake - 1)"
proof -
  show "total_stake * sum_list (map (reward_share n total_stake) sts) \<le> n * sum_list (map staked_amount sts)"
  proof (induction sts)
    case (Cons st sts)
    with share_bounds(1) [OF assms, of n st] show ?case by (simp add: distrib_left)
  qed simp
  show "n * sum_list (map staked_amount sts) \<le>
      total_stake * sum_list (map (reward_share n total_stake) sts) + int (length sts) * (total_stake - 1)"
  proof (induction sts)
    case (Cons st sts)
    with share_bounds(2) [OF assms, of n st] show ?case by (simp add: distrib_left distrib_right)
  qed simp
qed

lemma active_stakers_pos: "st \<in> set (active_stakers d) \<Longrightarrow> 0 < staked_amount st"
  by (simp add: active_stakers_def)

lemma total_active_nonneg: "0 \<le> total_active_stake d"
  unfolding total_active_stake_def
  by (rule sum_list_map_nonneg) (auto dest: active_stakers_pos)

lemma total_active_pos_iff: "0 < total_active_stake d \<longleftrightarrow> active_stakers d \<noteq> []"
proof (cases "active_stakers d")
  case (Cons st sts)
  have pos: "0 < staked_amount x" if "x \<in> set (st # sts)" for x
    using that active_stakers_pos [of x d] Cons by simp
  then have "0 \<le> sum_list (map staked_amount sts)"
    by (intro sum_list_map_nonneg) (simp add: less_imp_le)
  with pos [of st] Cons show ?thesis by (simp add: total_active_stake_def)
qed (simp add: total_active_stake_def)

lemma paid_shares_sum:
  assumes "0 \<le> n" and "0 < total_active_stake d"
  shows "sum_list (paid_shares n (total_active_stake d) (active_stakers d)) =
    sum_list (map (reward_share n (total_active_stake d)) (active_stakers d))"
  unfolding paid_shares_def
  by (rule sum_list_filter_pos)
    (use assms active_stakers_pos [of _ d] in \<open>auto intro!: reward_share_nonneg simp: less_imp_le\<close>)

lemma paid_shares_bounds:
  assumes "0 \<le> n" and pos: "0 < total_active_stake d"
  shows "sum_list (paid_shares n (total_active_stake d) (active_stakers d)) \<le> n"
    and "n - sum_list (paid_shares n (total_active_stake d) (active_stakers d)) < int (length (active_stakers d))"
proof -
  let ?T = "total_active_stake d" and ?k = "int (length (active_stakers d))"
  let ?S = "sum_list (map (reward_share n ?T) (active_stakers d))"
  have T: "sum_list (map staked_amount (active_stakers d)) = ?T" by (simp add: total_active_stake_def)
  note b = sum_shares_bounds [OF pos, of n "active_stakers d", unfolded T]
  have "?T * ?S \<le> ?T * n" using b(1) by (simp add: mult.commute)
  then show "sum_list (paid_shares n ?T (active_stakers d)) \<le> n"
    using pos by (simp add: paid_shares_sum [OF assms])
  have "?k \<noteq> 0" using pos total_active_pos_iff by simp
  then have "?k * (?T - 1) < ?k * ?T" by simp
  with b(2) have "?T * n < ?T * (?S + ?k)" by (simp add: distrib_left mult.commute)
  then show "n - sum_list (paid_shares n ?T (active_stakers d)) < ?k"
    using pos by (simp add: paid_shares_sum [OF assms])
qed

subsection \<open>Conservation\<close>

definition reward_ok :: "ValidatorReward \<Rightarrow> bool" where
  "reward_ok r \<longleftrightarrow> 0 \<le> pending_rewards r \<and> 0 \<le> total_claimed r"

definition inflow_ok :: "RewardPoolInflow \<Rightarrow> bool" where
  "inflow_ok i \<longleftrightarrow> 0 < inflow_amount i \<and> 0 \<le> dust_remaining i \<and> dust_remaining i \<le> inflow_amount i \<and>
     0 \<le> distributed_to_count i \<and> (distributed_to_count i = 0 \<longleftrightarrow> dust_remaining i = inflow_amount i)"

definition total_inflow :: "db \<Rightarrow> int" where
  "total_inflow d = sum_list (map inflow_amount (reward_pool_inflows d))"

definition total_dust :: "db \<Rightarrow> int" where
  "total_dust d = sum_list (map dust_remaining (reward_pool_inflows d))"

definition total_pending :: "db \<Rightarrow> int" where
  "total_pending d = sum_list (map pending_rewards (validator_rewards d))"

definition total_claims :: "db \<Rightarrow> int" where
  "total_claims d = sum_list (map total_claimed (validator_rewards d))"

definition rewards_ok :: "db \<Rightarrow> bool" where
  "rewards_ok d \<longleftrightarrow> total_inflow d = total_pending d + total_claims d + total_dust d \<and>
     (\<forall>r \<in> set (validator_rewards d). reward_ok r) \<and> (\<forall>i \<in> set (reward_pool_inflows d). inflow_ok i)"

lemma credit_row_sums:
  assumes "distinct (map reward_address rewards)"
  shows "sum_list (map pending_rewards (credit_row a share h rewards)) =
      sum_list (map pending_rewards rewards) + share"
    and "sum_list (map total_claimed (credit_row a share h rewards)) = sum_list (map total_claimed rewards)"
proof -
  have "sum_list (map pending_rewards (credit_row a share h rewards)) =
        sum_list (map pending_rewards rewards) + share \<and>
      sum_list (map total_claimed (credit_row a share h rewards)) = sum_list (map total_claimed rewards)"
  proof (cases "row_get reward_address rewards a")
    case (Some r)
    let ?r = "r\<lparr>pending_rewards := pending_rewards r + share, last_credited_height := Some h\<rparr>"
    have "row_get reward_address rewards (reward_address ?r) = Some r"
      using Some row_get_key [OF Some] by simp
    note sums = sum_row_put [OF assms this]
    show ?thesis by (simp add: credit_row_def Some sums)
  qed (simp add: credit_row_def)
  then show "sum_list (map pending_rewards (credit_row a share h rewards)) =
      sum_list (map pending_rewards rewards) + share"
    and "sum_list (map total_claimed (credit_row a share h rewards)) = sum_list (map total_claimed rewards)"
    by simp_all
qed

lemma credit_row_ok:
  "\<forall>r \<in> set rewards. reward_ok r \<Longrightarrow> 0 \<le> share \<Longrightarrow> \<forall>r \<in> set (credit_row a share h rewards). reward_ok r"
  by (auto simp: credit_row_def reward_ok_def split: option.split dest!: set_row_put dest: row_get_mem)

lemma credit_rows_sums:
  assumes "distinct (map reward_address rewards)"
  shows "sum_list (map pending_rewards (credit_rows n total_stake h sts rewards)) =
      sum_list (map pending_rewards rewards) + sum_list (paid_shares n total_stake sts) \<and>
    sum_list (map total_claimed (credit_rows n total_stake h sts rewards)) =
      sum_list (map total_claimed rewards)"
  using assms
proof (induction sts arbitrary: rewards)
  case (Cons st sts)
  let ?share = "reward_share n total_stake st"
  show ?case
  proof (cases "?share \<le> 0")
    case True
    with Cons show ?thesis by (simp add: Let_def)
  next
    case False
    with Cons.IH [OF distinct_credit_row [OF Cons.prems, of "staker_address st" ?share h]]
      credit_row_sums [OF Cons.prems, of "staker_address st" ?share h]
    show ?thesis by (simp add: Let_def)
  qed
qed simp

lemma credit_rows_ok:
  "\<forall>r \<in> set rewards. reward_ok r \<Longrightarrow> \<forall>r \<in> set (credit_rows n total_stake h sts rewards). reward_ok r"
proof (induction sts arbitrary: rewards)
  case (Cons st sts)
  let ?share = "reward_share n total_stake st"
  show ?case
  proof (cases "?share \<le> 0")
    case True
    with Cons show ?thesis by (simp add: Let_def)
  next
    case False
    then have "\<forall>r \<in> set (credit_row (staker_address st) ?share h rewards). reward_ok r"
      by (intro credit_row_ok Cons.prems) simp
    from Cons.IH [OF this] False show ?thesis by (simp add: Let_def)
  qed
qed simp

lemma sum_list_pos_zero_iff:
  fixes xs :: "int list"
  assumes "\<And>x. x \<in> set xs \<Longrightarrow> 0 < x"
  shows "0 \<le> sum_list xs" and "sum_list xs = 0 \<longleftrightarrow> xs = []"
proof -
  have nonneg: "0 \<le> sum_list ys" if "set ys \<subseteq> set xs" for ys
    using sum_list_map_nonneg [of ys "\<lambda>x. x"] that assms by force
  then show "0 \<le> sum_list xs" by simp
  show "sum_list xs = 0 \<longleftrightarrow> xs = []"
  proof (cases xs)
    case (Cons y ys)
    then have "0 \<le> sum_list ys" by (intro nonneg) auto
    with Cons assms [of y] show ?thesis by simp
  qed simp
qed

lemma paid_shares_pos: "x \<in> set (paid_shares n total_stake sts) \<Longrightarrow> 0 < x"
  by (simp add: paid_shares_def)

lemma pool_effect_ok:
  assumes n: "0 < n" and keys: "wf_keys d" and ok: "rewards_ok d"
  shows "rewards_ok (pool_effect n h d)"
proof (cases "total_active_stake d = 0")
  case True
  with n ok show ?thesis
    by (simp add: pool_effect_def rewards_ok_def total_inflow_def total_pending_def total_claims_def
        total_dust_def inflow_ok_def)
next
  case False
  let ?paid = "paid_shares n (total_active_stake d) (active_stakers d)"
  have pos: "0 < total_active_stake d" using False total_active_nonneg [of d] by simp
  have paid: "0 \<le> sum_list ?paid" "sum_list ?paid = 0 \<longleftrightarrow> ?paid = []"
    by (rule sum_list_pos_zero_iff, erule paid_shares_pos)+
  note bounds = paid_shares_bounds(1) [OF less_imp_le [OF n] pos] paid
  have keys': "distinct (map reward_address (validator_rewards d))" using keys by (simp add: wf_keys_def)
  note sums = credit_rows_sums [OF keys', of n "total_active_stake d" h "active_stakers d"]
  have "\<forall>r \<in> set (validator_rewards d). reward_ok r" using ok by (simp add: rewards_ok_def)
  from credit_rows_ok [OF this, of n "total_active_stake d" h "active_stakers d"] bounds sums n ok False
  show ?thesis
    by (auto simp: pool_effect_def rewards_ok_def total_inflow_def total_pending_def total_claims_def
        total_dust_def inflow_ok_def Let_def)
qed

lemma drain_ok:
  assumes keys: "wf_keys d" and row: "get_reward d a = Some r" and ok: "rewards_ok d"
  shows "rewards_ok (put_reward (drain_reward h r) d)"
proof -
  let ?r = "drain_reward h r"
  have get: "row_get reward_address (validator_rewards d) (reward_address ?r) = Some r"
    using row reward_table.get_key [OF row] by (simp add: drain_reward_def get_reward_def)
  have "distinct (map reward_address (validator_rewards d))" using keys by (simp add: wf_keys_def)
  note sums = sum_row_put [OF this get]
  have "reward_ok r" using ok reward_table.get_mem [OF row] by (simp add: rewards_ok_def)
  then have "reward_ok ?r" by (simp add: reward_ok_def drain_reward_def)
  with ok have "\<forall>x \<in> set (validator_rewards (put_reward ?r d)). reward_ok x"
    by (auto simp: rewards_ok_def dest!: set_row_put)
  with ok show ?thesis
    by (simp add: rewards_ok_def total_inflow_def total_pending_def total_claims_def total_dust_def
        sums) (simp add: drain_reward_def)
qed

lemma rewards_other_tables [simp]:
  "rewards_ok (put_staker st d) = rewards_ok d"
  "rewards_ok (put_request u d) = rewards_ok d"
  "rewards_ok (put_payout p d) = rewards_ok d"
  "rewards_ok (d\<lparr>stakers := sts\<rparr>) = rewards_ok d"
  "rewards_ok (d\<lparr>stake_events := es\<rparr>) = rewards_ok d"
  "rewards_ok (d\<lparr>unstake_requests := us\<rparr>) = rewards_ok d"
  "rewards_ok (d\<lparr>pending_payouts := ps\<rparr>) = rewards_ok d"
  "rewards_ok (d\<lparr>next_request_id := i\<rparr>) = rewards_ok d"
  "rewards_ok (d\<lparr>next_payout_id := i\<rparr>) = rewards_ok d"
  "rewards_ok (d\<lparr>watcher := w\<rparr>) = rewards_ok d"
  by (simp_all add: rewards_ok_def total_inflow_def total_pending_def total_claims_def total_dust_def)

lemma rewards_step:
  assumes "db_step d d'" and keys: "wf_keys d" and ok: "rewards_ok d"
  shows "rewards_ok d'"
  using assms(1)
proof cases
  case pool
  with keys ok show ?thesis by (simp add: pool_effect_ok)
next
  case drain
  with keys ok show ?thesis by (simp add: drain_ok)
qed (use ok in \<open>simp_all add: effect_defs\<close>)

interpretation rewards: relative_invariant wf_keys rewards_ok
  by unfold_locales (auto intro: rewards_step)

section \<open>Payouts and the requests they refund\<close>

definition payout_ok :: "PendingPayout \<Rightarrow> bool" where
  "payout_ok p \<longleftrightarrow> payout_kind p = ''UNSTAKE_REFUND'' \<and> 0 < payout_amount p \<and>
     0 \<le> attempts p \<and> attempts p \<le> MAX_ATTEMPTS \<and> payout_status p \<noteq> CONFIRMED \<and>
     (payout_status p = SUBMITTED \<longleftrightarrow> payout_tx_hash p \<noteq> None) \<and>
     (payout_status p = SUBMITTED \<longrightarrow> 1 \<le> attempts p) \<and>
     (payout_status p = SIGNING \<longrightarrow> attempts p < MAX_ATTEMPTS) \<and>
     (payout_status p = FAILED \<longrightarrow> attempts p = MAX_ATTEMPTS)"

definition refunds :: "PendingPayout \<Rightarrow> UnstakeRequest \<Rightarrow> bool" where
  "refunds p u \<longleftrightarrow> payout_ref p = unstake_ref (request_id u) \<and> recipient p = request_address u \<and>
     payout_amount p = request_amount u \<and> request_status u \<noteq> PENDING"

definition payouts_ok :: "db \<Rightarrow> bool" where
  "payouts_ok d \<longleftrightarrow>
     (\<forall>p \<in> set (pending_payouts d). payout_ok p \<and> (\<exists>u \<in> set (unstake_requests d). refunds p u)) \<and>
     (\<forall>u \<in> set (unstake_requests d). request_status u = READY \<longrightarrow>
        (\<exists>p \<in> set (pending_payouts d). refunds p u))"

lemma unstake_ref_inject [simp]: "unstake_ref i = unstake_ref j \<longleftrightarrow> i = j"
  by (simp add: unstake_ref_def)

lemma payout_ok_new: "0 < n \<Longrightarrow> payout_ok (new_payout a n ''UNSTAKE_REFUND'' ref t i)"
  by (simp add: payout_ok_def MAX_ATTEMPTS_def)

lemma payout_ok_claim: "payout_ok p \<Longrightarrow> claimable p \<Longrightarrow> payout_ok (p\<lparr>payout_status := SIGNING\<rparr>)"
  by (auto simp: payout_ok_def claimable_def)

lemma payout_ok_outcome:
  assumes "payout_ok p" and "payout_status p = SIGNING"
  shows "payout_ok (payout_outcome exc_str r p)"
proof (cases r)
  case (Inl e)
  with assms show ?thesis by (cases e) (auto simp: payout_ok_def payout_outcome_def)
next
  case (Inr h)
  with assms show ?thesis by (simp add: payout_ok_def payout_outcome_def)
qed

lemma payouts_put_payout:
  assumes ok: "payouts_ok d" and p: "get_payout d (payout_id p') = Some p" and new: "payout_ok p'"
    and same: "payout_ref p' = payout_ref p" "recipient p' = recipient p" "payout_amount p' = payout_amount p"
    and keys: "wf_keys d"
  shows "payouts_ok (put_payout p' d)"
proof -
  have ref: "refunds p' u \<longleftrightarrow> refunds p u" for u using same by (simp add: refunds_def)
  have mem: "p \<in> set (pending_payouts d)" using p by (rule payout_table.get_mem)
  have new_mem: "p' \<in> set (pending_payouts (put_payout p' d))"
    using p by (auto simp: get_payout_def intro: row_put_mem)
  have kept: "q \<in> set (pending_payouts (put_payout p' d))"
    if "q \<in> set (pending_payouts d)" "q \<noteq> p" for q
  proof -
    have "payout_id q \<noteq> payout_id p'"
      using that p row_get_unique [of payout_id "pending_payouts d" q] keys
      by (auto simp: wf_keys_def get_payout_def)
    then show ?thesis using that by (simp add: row_put_other)
  qed
  have "\<exists>q \<in> set (pending_payouts (put_payout p' d)). refunds q u"
    if "q \<in> set (pending_payouts d)" "refunds q u" for q u
    using that ref new_mem kept [of q] by (cases "q = p") auto
  moreover have "payout_ok q \<and> (\<exists>u \<in> set (unstake_requests d). refunds q u)"
    if "q \<in> set (pending_payouts (put_payout p' d))" for q
    using that ok new mem ref by (auto simp: payouts_ok_def dest!: set_row_put)
  ultimately show ?thesis using ok unfolding payouts_ok_def by (simp del: table_simps(3)) blast
qed

text \<open>A request that is written back keeps the refunds that it had.\<close>

lemma refunds_put_request:
  assumes keys: "wf_keys d" and u: "get_request d (request_id u') = Some u"
    and same: "request_address u' = request_address u" "request_amount u' = request_amount u"
    and st: "request_status u' \<noteq> PENDING"
    and v: "v \<in> set (unstake_requests d)" "refunds p v"
  shows "\<exists>w \<in> set (unstake_requests (put_request u' d)). refunds p w"
proof (cases "request_id v = request_id u'")
  case True
  then have "v = u"
    using keys v(1) u row_get_unique [of request_id "unstake_requests d" v]
    by (auto simp: wf_keys_def get_request_def)
  then have "refunds p u'" using v(2) same st True by (simp add: refunds_def)
  moreover have "u' \<in> set (unstake_requests (put_request u' d))"
    using u by (auto simp: get_request_def intro: row_put_mem)
  ultimately show ?thesis by blast
next
  case False
  with v show ?thesis by (auto intro: row_put_other)
qed

lemma payouts_put_request:
  assumes ok: "payouts_ok d" and keys: "wf_keys d" and u: "get_request d (request_id u') = Some u"
    and same: "request_address u' = request_address u" "request_amount u' = request_amount u"
    and st: "request_status u' \<noteq> PENDING"
    and ready: "request_status u' = READY \<Longrightarrow> \<exists>p \<in> set (pending_payouts d). refunds p u'"
  shows "payouts_ok (put_request u' d)"
proof -
  have "\<exists>w \<in> set (unstake_requests (put_request u' d)). refunds p w"
    if p: "p \<in> set (pending_payouts d)" for p
  proof -
    from p ok obtain v where "v \<in> set (unstake_requests d)" "refunds p v"
      by (auto simp: payouts_ok_def)
    with refunds_put_request [OF keys u same st] show ?thesis by blast
  qed
  then show ?thesis using ok ready by (auto simp: payouts_ok_def dest!: set_row_put)
qed

lemma payouts_frame [simp]:
  "payouts_ok (put_staker st d) = payouts_ok d"
  "payouts_ok (put_reward r d) = payouts_ok d"
  "payouts_ok (pool_effect n h d) = payouts_ok d"
  "payouts_ok (d\<lparr>stakers := sts\<rparr>) = payouts_ok d"
  "payouts_ok (d\<lparr>stake_events := es\<rparr>) = payouts_ok d"
  "payouts_ok (d\<lparr>next_request_id := i\<rparr>) = payouts_ok d"
  "payouts_ok (d\<lparr>next_payout_id := i\<rparr>) = payouts_ok d"
  "payouts_ok (d\<lparr>watcher := w\<rparr>) = payouts_ok d"
  by (simp_all add: payouts_ok_def)

lemma payouts_step:
  assumes "db_step d d'" and inv: "wf_keys d \<and> accounts_ok d" and ok: "payouts_ok d"
  shows "payouts_ok d'"
  using assms(1)
proof cases
  case (lock a st n height st' u)
  with ok show ?thesis by (auto simp: payouts_ok_def lock_unstake_def)
next
  case (cancel i u st height st' u')
  have "request_id u' = i" using cancel request_table.get_key by auto
  then have "payouts_ok (put_request u' (put_staker st' d))"
    using cancel ok inv
    by (intro payouts_put_request [of _ _ u]) (simp_all add: wf_keys_def get_request_def)
  with cancel(1) show ?thesis by simp
next
  case (refund i u u' p t)
  have id: "request_id u' = i" "request_id u = i" using refund request_table.get_key by auto
  let ?d = "d\<lparr>pending_payouts := row_insert p (pending_payouts d)\<rparr>"
  have links: "refunds p u'" "payout_ok p"
    using refund id by (simp_all add: refunds_def payout_ok_new)
  have upd: "d' = (put_request u' ?d)\<lparr>next_payout_id := next_payout_id d + 1\<rparr>"
    using refund(1) by (simp add: queue_refund_def put_request_def)
  have keep: "\<exists>w \<in> set (unstake_requests (put_request u' d)). refunds q w"
    if "v \<in> set (unstake_requests d)" "refunds q v" for q v
    using refund inv id that by (intro refunds_put_request [where u = u]) simp_all
  have u': "u' \<in> set (unstake_requests (put_request u' d))"
    using refund id by (auto simp: get_request_def intro: row_put_mem)
  have "payout_ok q \<and> (\<exists>w \<in> set (unstake_requests (put_request u' d)). refunds q w)"
    if "q \<in> set (row_insert p (pending_payouts d))" for q
    using that ok keep links u' by (fastforce simp: payouts_ok_def simp del: table_simps)
  moreover have "\<exists>q \<in> set (row_insert p (pending_payouts d)). refunds q w"
    if "w \<in> set (unstake_requests (put_request u' d))" "request_status w = READY" for w
    using that ok links by (auto simp: payouts_ok_def dest!: set_row_put)
  ultimately have "payouts_ok (put_request u' ?d)" by (simp add: payouts_ok_def)
  with upd show ?thesis by simp
next
  case (unqueued i u)
  have "request_ok u" using inv unqueued accounts_okD(4) by blast
  with unqueued show ?thesis by (simp add: request_ok_def)
next
  case (claim i p)
  then have "payout_id p = i" using payout_table.get_key by blast
  moreover have "payout_ok p" using claim ok payout_table.get_mem by (auto simp: payouts_ok_def)
  ultimately show ?thesis
    using claim ok inv by (auto intro!: payouts_put_payout [of d _ p] payout_ok_claim)
next
  case (outcome i p exc_str r)
  then have "payout_id p = i" using payout_table.get_key by blast
  moreover have "payout_ok p" using outcome ok payout_table.get_mem by (auto simp: payouts_ok_def)
  ultimately show ?thesis
    using outcome ok inv by (auto intro!: payouts_put_payout [of d _ p] payout_ok_outcome)
qed (use ok in \<open>simp_all add: record_stake_def\<close>)

interpretation payouts: relative_invariant "\<lambda>d. wf_keys d \<and> accounts_ok d" payouts_ok
  by unfold_locales (auto intro: payouts_step)

end
