(* ===== verification/HotKeySigner.thy ===== *)
theory HotKeySigner
  imports Client Dilithium Queue Tiers
begin

text \<open>
  \<open>src/signing/pool_key.py\<close> (loading and checking the pool key) and
  \<open>src/signing/hot_key_signer.py\<close> (the canonical bytes of a transaction, and the signer that
  builds, signs and submits a payout).
\<close>

section \<open>The pool key\<close>

record PoolKey =
  key_address :: string
  public_key :: bytes
  secret_key :: bytes

definition pool_key_sign :: "crypto \<Rightarrow> PoolKey \<Rightarrow> bytes \<Rightarrow> bytes res" where
  "pool_key_sign c key msg = sign c msg (public_key key) (secret_key key)"

text \<open>
  The key derivation, the block cipher and the padding are the \<open>cryptography\<close> package's:
  \<open>kdf passphrase salt\<close> gives the 48 derived bytes, \<open>cbc_decrypt key iv ct\<close> the padded
  plaintext and \<open>unpad\<close> removes the padding; each may raise.
\<close>

record decryption =
  kdf :: "string \<Rightarrow> bytes \<Rightarrow> bytes"
  cbc_decrypt :: "bytes \<Rightarrow> bytes \<Rightarrow> bytes \<Rightarrow> bytes res"
  unpad :: "bytes \<Rightarrow> bytes res"

definition decrypt_openssl_cbc_pbkdf2 :: "decryption \<Rightarrow> bytes \<Rightarrow> string \<Rightarrow> bytes res" where
  "decrypt_openssl_cbc_pbkdf2 dec data passphrase =
     (if take 8 data \<noteq> map char_byte ''Salted__'' then
        Inl (PoolKeyError ''not an OpenSSL Salted__ file'')
      else
        let salt = take 8 (drop 8 data);
            ct = drop 16 data;
            dk = kdf dec passphrase salt;
            key = take 32 dk;
            iv = take 16 (drop 32 dk)
        in rbind (cbc_decrypt dec key iv ct) (\<lambda>padded. unpad dec padded))"

text \<open>
  \<open>load\<close> over its module cache: the environment variable (\<open>None\<close> when unset) and the content
  of the key file (\<open>None\<close> when there is none) are arguments.
\<close>

definition load_key ::
  "crypto \<Rightarrow> decryption \<Rightarrow> string option \<Rightarrow> bytes option \<Rightarrow> (PoolKey option, PoolKey) exec" where
  "load_key c dec passphrase keyfile =
     bind (gets (\<lambda>cached. cached)) (\<lambda>cached.
       case cached of
         Some key \<Rightarrow> return key
       | None \<Rightarrow>
           (if passphrase = None \<or> passphrase = Some [] then
              raise (PoolKeyError ''NPCHAIN_POOL_PASSPHRASE environment variable is unset'')
            else if keyfile = None then raise (PoolKeyError ''keyfile not found'')
            else
              (case decrypt_openssl_cbc_pbkdf2 dec (the keyfile) (the passphrase) of
                 Inl e \<Rightarrow> raise (PoolKeyError ''decryption failed'')
               | Inr kb \<Rightarrow>
                   if length kb \<noteq> PK_SIZE + SK_SIZE then
                     raise (PoolKeyError (''unexpected plaintext size '' @ nat_str (length kb)))
                   else
                     let pk = take PK_SIZE kb; sk = drop PK_SIZE kb
                     in bind (lift (derive_address c pk)) (\<lambda>derived.
                        if derived \<noteq> pool_address then
                          raise (PoolKeyError (''derived address '' @ derived @
                            '' does not match settings.pool_address''))
                        else
                          let key = \<lparr>key_address = derived, public_key = pk, secret_key = sk\<rparr>
                          in andthen (modify (\<lambda>_. Some key)) (return key)))))"

definition reset_for_tests :: "(PoolKey option, unit) exec" where
  "reset_for_tests = modify (\<lambda>_. None)"

lemma load_after_reset:
  "andthen reset_for_tests (load_key c dec passphrase keyfile) cached = load_key c dec passphrase keyfile None"
  by (simp add: reset_for_tests_def bind_modify)

section \<open>Canonical bytes of a transaction\<close>

definition PAYOUT_FEE_BASE_UNITS :: int where
  "PAYOUT_FEE_BASE_UNITS = 100000000"

definition TX_TYPE_TRANSFER :: int where
  "TX_TYPE_TRANSFER = 0"

record tx =
  tx_type :: int
  tx_timestamp :: int
  tx_nonce :: int
  tx_from :: string
  tx_to :: string
  tx_amount :: int
  tx_fee :: int
  tx_memo :: string
  tx_data :: string

text \<open>\<open>struct.pack("<Q", n)\<close>: 8 bytes, least significant first, or \<open>struct.error\<close>.\<close>

definition pack_q :: "int \<Rightarrow> bytes res" where
  "pack_q n =
     (if 0 \<le> n \<and> n < 2 ^ 64 then Inr (map (\<lambda>i. word_of_int (n div 256 ^ i)) [0..<8])
      else Inl StructError)"

definition pack_bytes :: "bytes \<Rightarrow> bytes res" where
  "pack_bytes bs = rbind (pack_q (int (length bs))) (\<lambda>len. Inr (len @ bs))"

definition append_byte :: "int \<Rightarrow> bytes res" where
  "append_byte n =
     (if 0 \<le> n \<and> n < 256 then Inr [word_of_int n]
      else Inl (ValueError ''byte must be in range(0, 256)''))"

definition serialize_canonical :: "tx \<Rightarrow> bytes res" where
  "serialize_canonical tx =
     rbind (append_byte (tx_type tx)) (\<lambda>ty.
     rbind (pack_q (tx_timestamp tx)) (\<lambda>ts.
     rbind (pack_q (tx_nonce tx)) (\<lambda>no.
     rbind (rbind (ascii_encode (tx_from tx)) pack_bytes) (\<lambda>fb.
     rbind (rbind (ascii_encode (tx_to tx)) pack_bytes) (\<lambda>tb.
     rbind (pack_q (tx_amount tx)) (\<lambda>am.
     rbind (pack_q (tx_fee tx)) (\<lambda>fe.
     rbind (pack_bytes (utf8_encode (tx_memo tx))) (\<lambda>mb.
     rbind (pack_bytes (utf8_encode (tx_data tx))) (\<lambda>db.
       Inr (ty @ ts @ no @ fb @ tb @ am @ fe @ mb @ db))))))))))"

section \<open>The signer\<close>

definition next_nonce :: "env \<Rightarrow> PoolKey \<Rightarrow> (rpc, int) exec" where
  "next_nonce env key =
     bind (rpc_get env (''/api/v1/balance/'' @ key_address key) 5) (\<lambda>data.
     bind (lift (rbind (json_get data ''nonce'' (JInt 0)) py_int)) (\<lambda>current.
       return (current + 1)))"

definition payout_memo :: "PendingPayout \<Rightarrow> string" where
  "payout_memo p = ''npchain-staking:'' @ payout_kind p @ '':'' @ int_str (payout_id p)"

definition payout_tx :: "PoolKey \<Rightarrow> PendingPayout \<Rightarrow> int \<Rightarrow> int \<Rightarrow> tx" where
  "payout_tx key p nonce now = \<lparr>tx_type = TX_TYPE_TRANSFER, tx_timestamp = now, tx_nonce = nonce,
     tx_from = key_address key, tx_to = recipient p, tx_amount = payout_amount p,
     tx_fee = PAYOUT_FEE_BASE_UNITS, tx_memo = payout_memo p, tx_data = []\<rparr>"

definition submit_payload :: "PoolKey \<Rightarrow> tx \<Rightarrow> bytes \<Rightarrow> json" where
  "submit_payload key tx sig =
     JObj [(''type'', JStr ''transfer''), (''from'', JStr (tx_from tx)), (''to'', JStr (tx_to tx)),
       (''amount'', JStr (int_str (tx_amount tx))), (''fee'', JStr (int_str (tx_fee tx))),
       (''nonce'', JStr (int_str (tx_nonce tx))), (''timestamp'', JStr (int_str (tx_timestamp tx))),
       (''memo'', JStr (tx_memo tx)), (''data'', JStr (tx_data tx)),
       (''dilithium_sig'', JStr (hex sig)), (''sender_pubkey'', JStr (hex (public_key key)))]"

text \<open>
  \<open>"error" in resp\<close> and \<open>resp["error"]\<close>: on a dictionary the key, on a list an element, on a
  string a substring; indexing a list or a string with a string raises.
\<close>

fun response_error :: "json \<Rightarrow> json option res" where
  "response_error (JObj kvs) = Inr (map_of kvs ''error'')"
| "response_error (JArr xs) = (if JStr ''error'' \<in> set xs then Inl TypeError else Inr None)"
| "response_error (JStr s) = (if contains ''error'' s then Inl TypeError else Inr None)"
| "response_error _ = Inl TypeError"

definition sign_and_submit ::
  "crypto \<Rightarrow> env \<Rightarrow> (json \<Rightarrow> string) \<Rightarrow> PoolKey \<Rightarrow> PendingPayout \<Rightarrow> (rpc, string) exec" where
  "sign_and_submit c env show_json key payout =
     bind (next_nonce env key) (\<lambda>nonce.
     bind (gets (\<lambda>s. trunc_int (wall_clock env (requests s)))) (\<lambda>now.
     let tx = payout_tx key payout nonce now
     in bind (lift (serialize_canonical tx)) (\<lambda>canon.
        let tx_hash_bytes = digest (sha3_256 c canon)
        in bind (lift (pool_key_sign c key tx_hash_bytes)) (\<lambda>sig.
           bind (submit_tx env (submit_payload key tx sig)) (\<lambda>resp.
           bind (lift (response_error resp)) (\<lambda>err.
             case err of
               Some e \<Rightarrow> raise (RuntimeError (''l1_rejected: '' @ show_json e))
             | None \<Rightarrow> return (hex tx_hash_bytes)))))))"

text \<open>The hot key signer is a payout signer: what it returns is the hex of a digest.\<close>

lemma sign_and_submit_hash:
  assumes "sign_and_submit c env sj key p w = (Inr h, w')"
  shows "\<exists>bs. length bs = 32 \<and> h = hex bs"
  using assms
  by (auto simp: sign_and_submit_def bind_eq_Inr Let_def gets_exec lift_exec return_def raise_def
      split: option.splits intro: length_digest)

interpretation hot_key: payout_signer "sign_and_submit c env show_json key"
  by unfold_locales (rule sign_and_submit_hash)

text \<open>Fields in range and ASCII addresses are enough for the bytes to exist.\<close>

lemma pack_q_total: "0 \<le> n \<Longrightarrow> n < 2 ^ 64 \<Longrightarrow> \<exists>bs. pack_q n = Inr bs"
  by (simp add: pack_q_def)

lemma pack_bytes_total: "length bs < 2 ^ 64 \<Longrightarrow> \<exists>x. pack_bytes bs = Inr x"
  using pack_q_total [of "int (length bs)"] by (auto simp: pack_bytes_def)

lemma ascii_encode_total: "\<forall>c \<in> set s. (of_char c :: nat) < 128 \<Longrightarrow> ascii_encode s = Inr (map char_byte s)"
  by (simp add: ascii_encode_def)

lemma serialize_canonical_total:
  assumes "0 \<le> tx_type t" "tx_type t < 256"
    and "0 \<le> tx_timestamp t" "tx_timestamp t < 2 ^ 64" "0 \<le> tx_nonce t" "tx_nonce t < 2 ^ 64"
    and "0 \<le> tx_amount t" "tx_amount t < 2 ^ 64" "0 \<le> tx_fee t" "tx_fee t < 2 ^ 64"
    and "\<forall>c \<in> set (tx_from t). (of_char c :: nat) < 128" "\<forall>c \<in> set (tx_to t). (of_char c :: nat) < 128"
    and "length (tx_from t) < 2 ^ 64" "length (tx_to t) < 2 ^ 64"
    and "length (utf8_encode (tx_memo t)) < 2 ^ 64" "length (utf8_encode (tx_data t)) < 2 ^ 64"
  shows "\<exists>bs. serialize_canonical t = Inr bs"
proof -
  obtain ts no am fe where q: "pack_q (tx_timestamp t) = Inr ts" "pack_q (tx_nonce t) = Inr no"
    "pack_q (tx_amount t) = Inr am" "pack_q (tx_fee t) = Inr fe"
    using assms pack_q_total by metis
  obtain fb tb mb db where b: "pack_bytes (map char_byte (tx_from t)) = Inr fb"
    "pack_bytes (map char_byte (tx_to t)) = Inr tb"
    "pack_bytes (utf8_encode (tx_memo t)) = Inr mb" "pack_bytes (utf8_encode (tx_data t)) = Inr db"
    using assms pack_bytes_total by (metis length_map)
  show ?thesis
    using assms by (simp add: serialize_canonical_def append_byte_def ascii_encode_total q b)
qed

section \<open>The wire format determines the transaction\<close>

text \<open>
  An encoder is a prefix code when its output can be told apart from anything that follows:
  equal byte strings that start with two encodings have equal values and equal rests. Every
  field of the wire format is one.
\<close>

definition prefix_code :: "('a \<Rightarrow> bytes res) \<Rightarrow> bool" where
  "prefix_code enc \<longleftrightarrow>
     (\<forall>a b x y r r'. enc a = Inr x \<longrightarrow> enc b = Inr y \<longrightarrow> x @ r = y @ r' \<longrightarrow> a = b \<and> r = r')"

lemma prefix_codeD:
  "prefix_code enc \<Longrightarrow> enc a = Inr x \<Longrightarrow> enc b = Inr y \<Longrightarrow> x @ r = y @ r' \<Longrightarrow> a = b \<and> r = r'"
  unfolding prefix_code_def by blast

lemma prefix_codeI:
  "(\<And>a b x y r r'. enc a = Inr x \<Longrightarrow> enc b = Inr y \<Longrightarrow> x @ r = y @ r' \<Longrightarrow> a = b \<and> r = r') \<Longrightarrow>
   prefix_code enc"
  unfolding prefix_code_def by blast

lemma mod_power_cong:
  assumes "\<And>i. i < k \<Longrightarrow> (n div 256 ^ i) mod 256 = (m div 256 ^ i) mod (256::int)"
  shows "n mod 256 ^ k = m mod 256 ^ k"
  using assms
proof (induction k)
  case 0
  then show ?case by simp
next
  case (Suc k)
  have split: "a mod (256 * 256 ^ k) = 256 ^ k * (a div 256 ^ k mod 256) + a mod 256 ^ k" for a :: int
    using zmod_zmult2_eq [of 256 a "256 ^ k"] by (simp add: mult.commute)
  have "n div 256 ^ k mod 256 = m div 256 ^ k mod 256" using Suc.prems by blast
  moreover have "n mod 256 ^ k = m mod 256 ^ k" using Suc.prems by (intro Suc.IH) simp
  ultimately have "n mod (256 * 256 ^ k) = m mod (256 * 256 ^ k)" by (simp only: split)
  then show ?case by simp
qed

lemma pack_q_length: "pack_q n = Inr x \<Longrightarrow> length x = 8"
  by (auto simp: pack_q_def split: if_splits)

lemma pack_q_inject:
  assumes "pack_q n = Inr x" and "pack_q m = Inr x"
  shows "n = m"
proof -
  from assms have range: "0 \<le> n" "n < 256 ^ 8" "0 \<le> m" "m < 256 ^ 8"
    and xn: "x = map (\<lambda>i. word_of_int (n div 256 ^ i)) [0..<8]"
    and xm: "x = map (\<lambda>i. word_of_int (m div 256 ^ i)) [0..<8]"
    by (auto simp: pack_q_def split: if_splits)
  have "(n div 256 ^ i) mod 256 = (m div 256 ^ i) mod 256" if "i < 8" for i
  proof -
    have "(word_of_int (n div 256 ^ i) :: byte) = x ! i" using that by (simp add: xn)
    also have "\<dots> = word_of_int (m div 256 ^ i)" using that by (simp add: xm)
    finally have "uint (word_of_int (n div 256 ^ i) :: byte) = uint (word_of_int (m div 256 ^ i) :: byte)"
      by simp
    then show ?thesis by (simp add: uint_word_of_int)
  qed
  then have "n mod 256 ^ 8 = m mod 256 ^ 8" by (rule mod_power_cong)
  with range show "n = m" by (simp only: mod_pos_pos_trivial)
qed

lemma prefix_code_pack_q: "prefix_code pack_q"
proof (rule prefix_codeI)
  fix a b x y r r'
  assume e: "pack_q a = Inr x" "pack_q b = Inr y" and eq: "x @ r = y @ r'"
  from e have "length x = length y" by (simp add: pack_q_length)
  with eq have "x = y" "r = r'" by simp_all
  with e show "a = b \<and> r = r'" by (simp add: pack_q_inject [of a x b])
qed

lemma prefix_code_append_byte: "prefix_code append_byte"
proof -
  have inject: "a = b" if "append_byte a = Inr [w]" "append_byte b = Inr [w]" for a b w
  proof -
    from that have "uint (word_of_int a :: byte) = uint (word_of_int b :: byte)"
      and "0 \<le> a" "a < 256" "0 \<le> b" "b < 256"
      by (auto simp: append_byte_def split: if_splits)
    then show ?thesis by (simp add: uint_word_of_int)
  qed
  have single: "append_byte a = Inr x \<Longrightarrow> \<exists>w. x = [w]" for a x
    by (auto simp: append_byte_def split: if_splits)
  show ?thesis
  proof (rule prefix_codeI)
    fix a b x y r r'
    assume e: "append_byte a = Inr x" "append_byte b = Inr y" and eq: "x @ r = y @ r'"
    obtain w v where "x = [w]" "y = [v]" using single [OF e(1)] single [OF e(2)] by blast
    with e eq inject show "a = b \<and> r = r'" by simp
  qed
qed

lemma prefix_code_pack_bytes: "prefix_code pack_bytes"
proof (rule prefix_codeI)
  fix a b x y r r'
  assume "pack_bytes a = Inr x" "pack_bytes b = Inr y" and eq: "x @ r = y @ r'"
  then obtain la lb where la: "pack_q (int (length a)) = Inr la" "x = la @ a"
    and lb: "pack_q (int (length b)) = Inr lb" "y = lb @ b"
    by (auto simp: pack_bytes_def rbind_eq_Inr)
  from eq la(2) lb(2) have "la @ (a @ r) = lb @ (b @ r')" by simp
  from prefix_codeD [OF prefix_code_pack_q la(1) lb(1) this]
  show "a = b \<and> r = r'" by (auto dest: append_eq_append_conv [THEN iffD1, rotated])
qed

lemma ascii_encode_inject: "ascii_encode s = Inr x \<Longrightarrow> ascii_encode s' = Inr x \<Longrightarrow> s = s'"
  using inj_char_byte by (auto simp: ascii_encode_def inj_map_eq_map split: if_splits)

lemma prefix_code_ascii: "prefix_code (\<lambda>s. rbind (ascii_encode s) pack_bytes)"
proof (rule prefix_codeI)
  fix a b x y r r'
  assume "rbind (ascii_encode a) pack_bytes = Inr x" "rbind (ascii_encode b) pack_bytes = Inr y"
    and eq: "x @ r = y @ r'"
  then obtain ea eb where e: "ascii_encode a = Inr ea" "ascii_encode b = Inr eb"
    and p: "pack_bytes ea = Inr x" "pack_bytes eb = Inr y"
    by (auto simp: rbind_eq_Inr)
  from prefix_codeD [OF prefix_code_pack_bytes p eq] e show "a = b \<and> r = r'"
    by (simp add: ascii_encode_inject [of a ea b])
qed

lemma prefix_code_utf8: "prefix_code (\<lambda>s. pack_bytes (utf8_encode s))"
proof (rule prefix_codeI)
  fix a b x y r r'
  assume p: "pack_bytes (utf8_encode a) = Inr x" "pack_bytes (utf8_encode b) = Inr y"
    and eq: "x @ r = y @ r'"
  from prefix_codeD [OF prefix_code_pack_bytes p eq] show "a = b \<and> r = r'" by simp
qed

lemmas prefix_codes = prefix_code_append_byte prefix_code_pack_q prefix_code_ascii prefix_code_utf8

lemma canonical_bytes_determine:
  assumes "serialize_canonical t = Inr bs" and "serialize_canonical t' = Inr bs"
  shows "t = t'"
proof -
  obtain ty ts no fb tb am fe mb db where bs: "bs = ty @ ts @ no @ fb @ tb @ am @ fe @ mb @ db"
    and e: "append_byte (tx_type t) = Inr ty" "pack_q (tx_timestamp t) = Inr ts"
    "pack_q (tx_nonce t) = Inr no" "rbind (ascii_encode (tx_from t)) pack_bytes = Inr fb"
    "rbind (ascii_encode (tx_to t)) pack_bytes = Inr tb" "pack_q (tx_amount t) = Inr am"
    "pack_q (tx_fee t) = Inr fe" "pack_bytes (utf8_encode (tx_memo t)) = Inr mb"
    "pack_bytes (utf8_encode (tx_data t)) = Inr db"
    using assms(1) by (auto simp: serialize_canonical_def rbind_eq_Inr)
  obtain ty' ts' no' fb' tb' am' fe' mb' db'
    where bs': "bs = ty' @ ts' @ no' @ fb' @ tb' @ am' @ fe' @ mb' @ db'"
    and e': "append_byte (tx_type t') = Inr ty'" "pack_q (tx_timestamp t') = Inr ts'"
    "pack_q (tx_nonce t') = Inr no'" "rbind (ascii_encode (tx_from t')) pack_bytes = Inr fb'"
    "rbind (ascii_encode (tx_to t')) pack_bytes = Inr tb'" "pack_q (tx_amount t') = Inr am'"
    "pack_q (tx_fee t') = Inr fe'" "pack_bytes (utf8_encode (tx_memo t')) = Inr mb'"
    "pack_bytes (utf8_encode (tx_data t')) = Inr db'"
    using assms(2) by (auto simp: serialize_canonical_def rbind_eq_Inr)
  note code = prefix_codeD [OF prefix_code_append_byte] prefix_codeD [OF prefix_code_pack_q]
    prefix_codeD [OF prefix_code_ascii] prefix_codeD [OF prefix_code_utf8]
  from code(1) [OF e(1) e'(1) bs [symmetric, unfolded bs']] have 1: "tx_type t = tx_type t'"
    and r1: "ts @ no @ fb @ tb @ am @ fe @ mb @ db = ts' @ no' @ fb' @ tb' @ am' @ fe' @ mb' @ db'"
    by auto
  from code(2) [OF e(2) e'(2) r1] have 2: "tx_timestamp t = tx_timestamp t'"
    and r2: "no @ fb @ tb @ am @ fe @ mb @ db = no' @ fb' @ tb' @ am' @ fe' @ mb' @ db'" by auto
  from code(2) [OF e(3) e'(3) r2] have 3: "tx_nonce t = tx_nonce t'"
    and r3: "fb @ tb @ am @ fe @ mb @ db = fb' @ tb' @ am' @ fe' @ mb' @ db'" by auto
  from code(3) [OF e(4) e'(4) r3] have 4: "tx_from t = tx_from t'"
    and r4: "tb @ am @ fe @ mb @ db = tb' @ am' @ fe' @ mb' @ db'" by auto
  from code(3) [OF e(5) e'(5) r4] have 5: "tx_to t = tx_to t'"
    and r5: "am @ fe @ mb @ db = am' @ fe' @ mb' @ db'" by auto
  from code(2) [OF e(6) e'(6) r5] have 6: "tx_amount t = tx_amount t'"
    and r6: "fe @ mb @ db = fe' @ mb' @ db'" by auto
  from code(2) [OF e(7) e'(7) r6] have 7: "tx_fee t = tx_fee t'"
    and r7: "mb @ db = mb' @ db'" by auto
  from code(4) [OF e(8) e'(8) r7] have 8: "tx_memo t = tx_memo t'" and "db = db'" by auto
  with code(4) [OF e(9) e'(9), of "[]" "[]"] have 9: "tx_data t = tx_data t'" by simp
  from 1 2 3 4 5 6 7 8 9 show "t = t'" by (rule tx.equality) simp
qed

text \<open>
  C39. The bytes that are hashed and signed determine the transaction: two transactions with
  the same canonical serialisation agree in every field, so one signature never covers two
  payments.
\<close>

theorem serialize_canonical_injective:
  assumes "serialize_canonical t = Inr bs" and "serialize_canonical t' = Inr bs"
  shows "t = t'"
  using assms by (rule canonical_bytes_determine)

lemma serialize_canonical_injective_witness:
  "\<exists>b b'. serialize_canonical (payout_tx \<lparr>key_address = pool_address, public_key = [], secret_key = []\<rparr>
       (new_payout ''NPCab'' 5 ''UNSTAKE_REFUND'' ''unstake:1'' 0 1) 7 1000) = Inr b \<and>
     serialize_canonical (payout_tx \<lparr>key_address = pool_address, public_key = [], secret_key = []\<rparr>
       (new_payout ''NPCab'' 6 ''UNSTAKE_REFUND'' ''unstake:1'' 0 1) 7 1000) = Inr b' \<and> b \<noteq> b'"
proof -
  let ?key = "\<lparr>key_address = pool_address, public_key = [], secret_key = []\<rparr>"
  let ?t = "\<lambda>n. payout_tx ?key (new_payout ''NPCab'' n ''UNSTAKE_REFUND'' ''unstake:1'' 0 1) 7 1000"
  have total: "\<exists>b. serialize_canonical (?t n) = Inr b" if "0 \<le> n" "n < 10" for n
    using that length_nat_str [of 1 1]
    by (auto simp: serialize_canonical_def payout_tx_def payout_memo_def new_payout_def
        TX_TYPE_TRANSFER_def PAYOUT_FEE_BASE_UNITS_def append_byte_def pack_q_def pack_bytes_def
        ascii_encode_def pool_address_def utf8_encode_def utf8_char.simps int_str_def
        nat_str.simps digit_char_def)
  obtain b b' where "serialize_canonical (?t 5) = Inr b" "serialize_canonical (?t 6) = Inr b'"
    using total [of 5] total [of 6] by auto
  moreover have "?t 5 \<noteq> ?t 6" by (simp add: payout_tx_def new_payout_def)
  ultimately show ?thesis
    using serialize_canonical_injective [of "?t 5" b "?t 6"] by blast
qed

end
