(* ===== verification/Service.thy ===== *)
theory Service
  imports Simulation Invariants HotKeySigner
begin

text \<open>
  The service as a whole: every database transaction its endpoints, its watcher, its snapshot
  and its payout runner can make is a step, and what holds of the database after every
  sequence of steps. The loops of the components are then sequences of steps.
\<close>

section \<open>Transactions refine the specification\<close>

text \<open>
  \<open>commits_to d d'\<close>: a session opened on \<open>d\<close> reaches, by transitions of the specification,
  commits and rollbacks, a state in which \<open>d'\<close> is committed.
\<close>

definition commits_to :: "db \<Rightarrow> db \<Rightarrow> bool" where
  "commits_to d d' \<longleftrightarrow> (\<exists>t s. sess_steps (begin_session t d) s \<and> committed s = d')"

lemma commits_to_refl [simp]: "commits_to d d"
  unfolding commits_to_def using begin_session_fields(1) by blast

lemma run_commits:
  assumes m: "m (begin_session t d) = (r, s)" and steps: "sess_steps (begin_session t d) s"
  shows "commits_to d (snd (session_scope m t d))" and "commits_to d (snd (get_session m t d))"
proof -
  have "sess_steps (begin_session t d) (s\<lparr>committed := working s\<rparr>)"
    "sess_steps (begin_session t d) (rolled_back s)"
    using steps by (blast intro: rtranclp_trans)+
  moreover have "snd (session_scope m t d) = (if isl r then committed (rolled_back s) else working s)"
    using m by (cases r) (simp_all add: session_scope_def bind_def session_run)
  moreover have "snd (get_session m t d) = committed (rolled_back s)"
    using m by (simp add: get_session_def)
  moreover have "committed (s\<lparr>committed := working s\<rparr>) = working s" by simp
  ultimately show "commits_to d (snd (session_scope m t d))" and "commits_to d (snd (get_session m t d))"
    unfolding commits_to_def by (cases "isl r"; metis)+
qed

lemma simulates_commits:
  assumes "simulates m" and "wf_keys d"
  shows "commits_to d (snd (session_scope m t d))" and "commits_to d (snd (get_session m t d))"
proof -
  obtain r s where m: "m (begin_session t d) = (r, s)" by fastforce
  have "sess_steps (begin_session t d) s"
    using simulatesD [OF assms(1) keys.lifted_begin [OF assms(2)] m] .
  from run_commits [where m = m, OF m this]
  show "commits_to d (snd (session_scope m t d))" and "commits_to d (snd (get_session m t d))" .
qed

lemma scope_commits:
  "session_scope m t d = (r, d') \<Longrightarrow> simulates m \<Longrightarrow> wf_keys d \<Longrightarrow> commits_to d d'"
  using simulates_commits(1) [of m d t] by simp

context db_invariant
begin

lemma commits_to_keeps: "commits_to d d' \<Longrightarrow> I d \<Longrightarrow> I d'"
  unfolding commits_to_def using lifted_begin lifted_steps lifted_committed by blast

end

section \<open>The steps of the service\<close>

text \<open>
  One step is one database transaction of one component, with whatever the clients, the L1
  node and the clock supply. The payout runner works with the hot key signer, or with the
  null signer that it has until one is installed. A process that starts anew has an empty cache
  of nonces.
\<close>

inductive service_step :: "app \<Rightarrow> app \<Rightarrow> bool" where
  unstake: "request_unstake c k ureq s = (ur, s') \<Longrightarrow> service_step s s'"
| cancel: "cancel_unstake c k creq s = (cr, s') \<Longrightarrow> service_step s s'"
| claim: "claim_rewards c k req s = (lr, s') \<Longrightarrow> service_step s s'"
| snapshot_begins:
    "session_scope (snapshot_start t) t (database s) = (ir, d) \<Longrightarrow> service_step s (s\<lparr>database := d\<rparr>)"
| snapshot_applies:
    "session_scope (snapshot_block_session blk h) t (database s) = (r, d) \<Longrightarrow>
     service_step s (s\<lparr>database := d\<rparr>)"
| snapshot_ends:
    "session_scope (snapshot_finish t) t (database s) = (r, d) \<Longrightarrow> service_step s (s\<lparr>database := d\<rparr>)"
| watcher_applies:
    "session_scope (watcher_block_session blk h) t (database s) = (ir, d) \<Longrightarrow>
     service_step s (s\<lparr>database := d\<rparr>)"
| runner_claims:
    "session_scope claim_batch t (database s) = (br, d) \<Longrightarrow> service_step s (s\<lparr>database := d\<rparr>)"
| runner_pays:
    "process_one (sign_and_submit c env show_json key) exc_str t i (database s, w) = (r, d, w') \<Longrightarrow>
     service_step s (s\<lparr>database := d\<rparr>)"
| runner_pays_null:
    "process_one null_signer exc_str t i (database s, w :: rpc) = (r, d, w') \<Longrightarrow>
     service_step s (s\<lparr>database := d\<rparr>)"
| restarts: "service_step s (s\<lparr>nonces := Map.empty\<rparr>)"

inductive_cases service_stepE: "service_step s s'"

definition initial_app :: app where
  "initial_app = \<lparr>nonces = Map.empty, database = empty_db\<rparr>"

definition reachable :: "app \<Rightarrow> bool" where
  "reachable s \<longleftrightarrow> service_step\<^sup>*\<^sup>* initial_app s"

lemma endpoint_cases:
  assumes "endpoint valid c k action n req body s = (r, s')"
  obtains (unchanged) "database s' = database s"
    | (ran) "valid" "npc_address (req_address req)" "database s' = snd (get_session body (clock3 k) (database s))"
  using assms
  by (auto simp: endpoint_def dest: verified_npc_address split: if_splits prod.splits sum.splits)

lemma process_one_cases:
  assumes "process_one signer exc_str t i (d, w) = (r, d', w')"
  obtains (idle) "d' = d" "w' = w" "r = Inr ()"
    | (ran) p sr where "get_payout d i = Some p" "payout_status p = SIGNING" "signer p w = (sr, w')"
        "session_scope (write_payout (payout_outcome exc_str sr p)) t d = (r, d')"
proof (cases "get_payout d i")
  case None
  with assms show ?thesis by (intro idle) (simp_all add: process_one_def)
next
  case (Some p)
  obtain sr w1 where sg: "signer p w = (sr, w1)" by fastforce
  obtain r1 d1 where sc: "session_scope (write_payout (payout_outcome exc_str sr p)) t d = (r1, d1)" by fastforce
  show ?thesis
  proof (cases "payout_status p = SIGNING")
    case True
    with assms Some sg sc show ?thesis by (intro ran) (auto simp: process_one_def)
  next
    case False
    with assms Some show ?thesis by (intro idle) (simp_all add: process_one_def)
  qed
qed

lemma endpoint_commits:
  assumes "endpoint valid c k action n req body s = (r, s')" and "valid \<Longrightarrow> npc_address (req_address req) \<Longrightarrow> simulates body"
    and "wf_keys (database s)"
  shows "commits_to (database s) (database s')"
  using assms(1)
proof (cases rule: endpoint_cases)
  case ran
  with assms show ?thesis using simulates_commits(2) [of body "database s" "clock3 k"] by simp
qed simp

lemma process_one_commits:
  assumes "process_one signer exc_str t i (d, w) = (r, d', w')"
  shows "commits_to d d'"
  using assms
proof (cases rule: process_one_cases)
  case (ran p sr)
  let ?m = "write_payout (payout_outcome exc_str sr p)"
  obtain r1 s1 where m: "?m (begin_session t d) = (r1, s1)" by fastforce
  have "sess_steps (begin_session t d) s1"
    using ran(1,2) by (intro write_outcome_steps [OF _ _ m]) simp_all
  from run_commits(1) [where m = ?m, OF m this] ran(4) show ?thesis by simp
qed simp

lemma service_step_commits:
  assumes "service_step s s'" and "wf_keys (database s)"
  shows "commits_to (database s) (database s')"
  using assms(1)
proof cases
  case (unstake c k ureq ur)
  then show ?thesis unfolding request_unstake_def
    by (rule endpoint_commits)
      (use assms in \<open>auto simp: request_unstake_valid_def intro: simulates_request_unstake_body\<close>)
next
  case (cancel c k creq cr)
  then show ?thesis unfolding cancel_unstake_def
    by (rule endpoint_commits) (use assms in \<open>auto intro: simulates_cancel_unstake_body\<close>)
next
  case (claim c k req lr)
  then show ?thesis unfolding claim_rewards_def
    by (rule endpoint_commits) (use assms in \<open>auto intro: simulates_claim_rewards_body\<close>)
qed (use assms(2) in \<open>auto intro: process_one_commits
      scope_commits [OF _ simulates_snapshot_start] scope_commits [OF _ simulates_snapshot_block_session]
      scope_commits [OF _ simulates_snapshot_finish] scope_commits [OF _ simulates_watcher_block_session]
      scope_commits [OF _ simulates_claim_batch]\<close>)

context db_invariant
begin

lemma service_step_keeps:
  "service_step s s' \<Longrightarrow> wf_keys (database s) \<Longrightarrow> I (database s) \<Longrightarrow> I (database s')"
  using service_step_commits commits_to_keeps by blast

end

lemma wf_keys_empty: "wf_keys empty_db"
  by (simp add: wf_keys_def empty_db_def)

context db_invariant
begin

lemma reachable_keeps:
  assumes "reachable s" and "I empty_db"
  shows "wf_keys (database s) \<and> I (database s)"
  using assms(1) unfolding reachable_def
proof (induction rule: rtranclp_induct)
  case base
  with assms(2) show ?case by (simp add: initial_app_def wf_keys_empty)
next
  case (step s1 s2)
  then show ?case
    using service_step_keeps keys.service_step_keeps by blast
qed

end

section \<open>The invariant of the service\<close>

definition service_ok :: "db \<Rightarrow> bool" where
  "service_ok d \<longleftrightarrow> wf_keys d \<and> accounts_ok d \<and> flow_ok d \<and> payouts_ok d \<and> rewards_ok d"

interpretation service: db_invariant service_ok
proof unfold_locales
  fix d d' assume "db_step d d'" "service_ok d"
  then show "service_ok d'"
    unfolding service_ok_def using wf_step accounts_step flow_step payouts_step rewards_step by blast
next
  fix d i j assume "service_ok d" "next_request_id d \<le> i" "next_payout_id d \<le> j"
  then show "service_ok (d\<lparr>next_request_id := i, next_payout_id := j\<rparr>)"
    by (simp add: service_ok_def wf_sequences flow_sequences)
qed

lemma service_ok_empty: "service_ok empty_db"
  unfolding service_ok_def using wf_keys_empty
  by (simp add: accounts_ok_def flow_ok_def payouts_ok_def rewards_ok_def
      empty_db_def event_total_def locked_total_def stake_of_def get_staker_def total_inflow_def
      total_pending_def total_claims_def total_dust_def)

lemma reachable_ok: "reachable s \<Longrightarrow> service_ok (database s)"
  using service.reachable_keeps service_ok_empty by blast

text \<open>Accounts are opened under resolved addresses only.\<close>

definition canonical_accounts :: "db \<Rightarrow> bool" where
  "canonical_accounts d \<longleftrightarrow> (\<forall>a \<in> staker_address ` set (stakers d). canonicalize a = a)"

interpretation canonical: db_invariant canonical_accounts
proof unfold_locales
  fix d d' assume step: "db_step d d'" and ok: "canonical_accounts d"
  show "canonical_accounts d'"
    using step by cases (use ok in \<open>auto simp: canonical_accounts_def effect_defs\<close>)
qed (simp add: canonical_accounts_def)

text \<open>A payout that is SUBMITTED or FAILED is out of the reach of every transition.\<close>

lemma final_payout_step:
  assumes "db_step d d'" and keys: "wf_keys d" and p: "get_payout d i = Some p"
    and final: "payout_status p \<in> {SUBMITTED, FAILED}"
  shows "get_payout d' i = Some p"
  using assms(1)
proof cases
  case (refund j u u' q t)
  then show ?thesis
    using p by (simp add: get_payout_def queue_refund_def row_get_insert)
next
  case (claim j q)
  have "payout_id q = j" using claim payout_table.get_key by blast
  moreover have "j \<noteq> i" using claim p final by (auto simp: claimable_def)
  ultimately show ?thesis using claim(1) p by (simp add: payout_table.get_put)
next
  case (outcome j q exc_str r)
  have "payout_id q = j" using outcome payout_table.get_key by blast
  moreover have "j \<noteq> i" using outcome p final by auto
  ultimately show ?thesis using outcome(1) p by (simp add: payout_table.get_put)
qed (use p in \<open>simp_all add: get_payout_def effect_defs\<close>)

lemma final_payout_invariant:
  assumes "payout_status p \<in> {SUBMITTED, FAILED}"
  shows "db_invariant (\<lambda>d. wf_keys d \<and> get_payout d i = Some p)"
proof unfold_locales
  show "wf_keys d' \<and> get_payout d' i = Some p" if "db_step d d'" "wf_keys d \<and> get_payout d i = Some p" for d d'
    using that wf_step final_payout_step assms by blast
  show "wf_keys (d\<lparr>next_request_id := j, next_payout_id := k\<rparr>) \<and>
      get_payout (d\<lparr>next_request_id := j, next_payout_id := k\<rparr>) i = Some p"
    if "wf_keys d \<and> get_payout d i = Some p" "next_request_id d \<le> j" "next_payout_id d \<le> k" for d j k
    using that by (simp add: wf_sequences get_payout_def)
qed

section \<open>The loops of the components\<close>

text \<open>\<open>steps_to d d'\<close>: the service gets from \<open>d\<close> to \<open>d'\<close> in steps that leave the nonces alone.\<close>

definition steps_to :: "db \<Rightarrow> db \<Rightarrow> bool" where
  "steps_to d d' \<longleftrightarrow> (\<forall>s. database s = d \<longrightarrow> service_step\<^sup>*\<^sup>* s (s\<lparr>database := d'\<rparr>))"

lemma steps_to_refl [simp]: "steps_to d d"
  unfolding steps_to_def
proof (intro allI impI)
  fix s :: app assume "database s = d"
  then have "s\<lparr>database := d\<rparr> = s" by auto
  then show "service_step\<^sup>*\<^sup>* s (s\<lparr>database := d\<rparr>)" by simp
qed

lemma steps_to_trans: "steps_to d d' \<Longrightarrow> steps_to d' d'' \<Longrightarrow> steps_to d d''"
  unfolding steps_to_def
proof (intro allI impI)
  fix s :: app assume "database s = d"
    and 1: "\<forall>s. database s = d \<longrightarrow> service_step\<^sup>*\<^sup>* s (s\<lparr>database := d'\<rparr>)"
    and 2: "\<forall>s. database s = d' \<longrightarrow> service_step\<^sup>*\<^sup>* s (s\<lparr>database := d''\<rparr>)"
  then have "service_step\<^sup>*\<^sup>* s (s\<lparr>database := d'\<rparr>)" by blast
  moreover have "service_step\<^sup>*\<^sup>* (s\<lparr>database := d'\<rparr>) (s\<lparr>database := d''\<rparr>)"
    using 2 [rule_format, of "s\<lparr>database := d'\<rparr>"] by simp
  ultimately show "service_step\<^sup>*\<^sup>* s (s\<lparr>database := d''\<rparr>)" by (rule rtranclp_trans)
qed

lemma steps_to_step:
  "(\<And>s. database s = d \<Longrightarrow> service_step s (s\<lparr>database := d'\<rparr>)) \<Longrightarrow> steps_to d d'"
  by (simp add: steps_to_def r_into_rtranclp)

lemma in_session_scope_eq:
  "in_session_scope m t s = (fst (session_scope m t (walk_db s)), s\<lparr>walk_db := snd (session_scope m t (walk_db s))\<rparr>)"
  by (simp add: in_session_scope_def split: prod.split)

lemma snapshot_block_apply:
  "snapshot_block env t h s =
     (case on_rpc (block env h) s of
        (Inl e, s1) \<Rightarrow> (Inl e, s1)
      | (Inr blk, s1) \<Rightarrow> in_session_scope (snapshot_block_session blk h) t s1)"
  by (simp add: snapshot_block_def bind_def split: prod.split sum.split)

lemma on_rpc_db: "on_rpc m s = (r, s') \<Longrightarrow> walk_db s' = walk_db s"
  by (auto simp: on_rpc_def split: prod.splits)

lemma watch_blocks_steps:
  "watch_blocks env t hs s = (r, s') \<Longrightarrow> steps_to (walk_db s) (walk_db s')"
proof (induction hs arbitrary: s)
  case Nil
  then show ?case by (simp add: return_exec)
next
  case (Cons h hs)
  obtain rb s1 where b: "on_rpc (block env h) s = (rb, s1)" by fastforce
  have db: "walk_db s1 = walk_db s" using on_rpc_db [OF b] .
  show ?case
  proof (cases rb)
    case (Inl e)
    with b Cons.prems have "s' = s1" by (cases e) auto
    with db show ?thesis by simp
  next
    case (Inr blk)
    let ?m = "watcher_block_session blk h"
    obtain r2 d2 where sc: "session_scope ?m t (walk_db s1) = (r2, d2)" by fastforce
    have 1: "steps_to (walk_db s) d2"
      using sc db by (intro steps_to_step) (auto intro: service_step.watcher_applies)
    show ?thesis
    proof (cases r2)
      case (Inl e)
      with b Inr Cons.prems sc 1 show ?thesis by (auto simp: bind_def in_session_scope_eq)
    next
      case (Inr x)
      with b \<open>rb = Inr blk\<close> Cons.prems sc
      have "watch_blocks env t hs (s1\<lparr>walk_db := d2\<rparr>) = (r, s')"
        by (simp add: bind_def in_session_scope_eq)
      from Cons.IH [OF this] 1 show ?thesis by (auto intro: steps_to_trans)
    qed
  qed
qed

lemma tick_steps:
  assumes "tick env t s = (r, s')"
  shows "steps_to (walk_db s) (walk_db s')"
proof -
  obtain rt s1 where l: "on_rpc (latest_height env) s = (rt, s1)" by fastforce
  have db: "walk_db s1 = walk_db s" using on_rpc_db [OF l] .
  have "s' = s1 \<or> (\<exists>hs. watch_blocks env t hs s1 = (r, s'))"
    using assms l by (auto simp: tick_def bind_def gets_exec return_exec split: sum.splits option.splits if_splits)
  then show ?thesis using db watch_blocks_steps by fastforce
qed

lemma process_batch_steps:
  "for_each (snapshot_block env t) hs s = (r, s') \<Longrightarrow> steps_to (walk_db s) (walk_db s')"
proof (induction hs arbitrary: s)
  case Nil
  then show ?case by (simp add: return_exec)
next
  case (Cons h hs)
  obtain rb s1 where b: "on_rpc (block env h) s = (rb, s1)" by fastforce
  have db: "walk_db s1 = walk_db s" using on_rpc_db [OF b] .
  show ?case
  proof (cases rb)
    case (Inl e)
    with b Cons.prems db show ?thesis by (simp add: bind_def snapshot_block_apply)
  next
    case (Inr blk)
    let ?m = "snapshot_block_session blk h"
    obtain r2 d2 where sc: "session_scope ?m t (walk_db s1) = (r2, d2)" by fastforce
    have 1: "steps_to (walk_db s) d2"
      using sc db by (intro steps_to_step) (auto intro: service_step.snapshot_applies)
    show ?thesis
    proof (cases r2)
      case (Inl e)
      with b Inr Cons.prems sc 1 show ?thesis by (auto simp: bind_def in_session_scope_eq snapshot_block_apply)
    next
      case (Inr x)
      have "snapshot_block env t h s = (Inr (), s1\<lparr>walk_db := d2\<rparr>)"
        using b \<open>rb = Inr blk\<close> sc Inr by (simp add: snapshot_block_apply in_session_scope_eq)
      with Cons.prems have "for_each (snapshot_block env t) hs (s1\<lparr>walk_db := d2\<rparr>) = (r, s')"
        by (simp add: bind_def)
      from Cons.IH [OF this] 1 show ?thesis by (auto intro: steps_to_trans)
    qed
  qed
qed

lemma snapshot_loop_steps:
  "snapshot_loop env t fuel height tip s = Some (r, s') \<Longrightarrow> steps_to (walk_db s) (walk_db s')"
proof (induction env t fuel height tip s rule: snapshot_loop.induct)
  case (1 env t height tip s)
  then show ?case by (auto split: if_splits)
next
  case (2 env t fuel height tip s)
  let ?last = "min (height + snapshot_batch_size - 1) tip"
  obtain r1 s1 where pb: "process_batch env t height ?last s = (r1, s1)" by fastforce
  have 1: "steps_to (walk_db s) (walk_db s1)"
    using pb unfolding process_batch_def by (rule process_batch_steps)
  show ?case
  proof (cases "height \<le> tip")
    case False
    with 2 show ?thesis by simp
  next
    case le: True
    show ?thesis
    proof (cases r1)
      case (Inl e)
      with 2 pb le 1 show ?thesis by (simp add: Let_def)
    next
      case r1: (Inr u)
      show ?thesis
      proof (cases "tip < ?last + 1")
        case False
        with 2 pb le r1 have "steps_to (walk_db s1) (walk_db s')" by (simp add: Let_def)
        with 1 show ?thesis by (rule steps_to_trans)
      next
        case True
        obtain r2 s2 where l: "on_rpc (latest_height env) s1 = (r2, s2)" by fastforce
        have db: "walk_db s2 = walk_db s1" using on_rpc_db [OF l] .
        show ?thesis
        proof (cases r2)
          case (Inl e)
          with 2 pb le r1 True l 1 db show ?thesis by (simp add: Let_def)
        next
          case (Inr tip')
          with 2 pb le r1 True l have "steps_to (walk_db s2) (walk_db s')" by (simp add: Let_def)
          with 1 db show ?thesis by (auto intro: steps_to_trans)
        qed
      qed
    qed
  qed
qed

lemma run_snapshot_steps:
  assumes "run_snapshot env t fuel s = Some (r, s')"
  shows "steps_to (walk_db s) (walk_db s')"
proof -
  obtain rt s1 where l: "on_rpc (latest_height env) s = (rt, s1)" by fastforce
  have db1: "walk_db s1 = walk_db s" using on_rpc_db [OF l] .
  obtain r2 d2 where st: "session_scope (snapshot_start t) t (walk_db s) = (r2, d2)" by fastforce
  let ?s2 = "s1\<lparr>walk_db := d2\<rparr>"
  have 1: "steps_to (walk_db s) d2"
    using st by (intro steps_to_step) (auto intro: service_step.snapshot_begins)
  have "s' = s1 \<or> s' = ?s2 \<or> (\<exists>start tip r3 s3. snapshot_loop env t fuel start tip ?s2 = Some (r3, s3) \<and>
      (s' = s3 \<or> s' = snd (in_session_scope (snapshot_finish t) t s3)))"
    using assms l st
    by (auto simp: run_snapshot_def in_session_scope_eq db1 split: sum.splits option.splits prod.splits)
  then show ?thesis
  proof (elim disjE exE conjE)
    fix start tip r3 s3
    assume loop: "snapshot_loop env t fuel start tip ?s2 = Some (r3, s3)"
      and s': "s' = snd (in_session_scope (snapshot_finish t) t s3)"
    obtain r4 d4 where fin: "session_scope (snapshot_finish t) t (walk_db s3) = (r4, d4)" by fastforce
    have "steps_to (walk_db s3) d4"
      using fin by (intro steps_to_step) (auto intro: service_step.snapshot_ends)
    moreover have "steps_to d2 (walk_db s3)" using snapshot_loop_steps [OF loop] by simp
    ultimately show ?thesis using 1 s' fin by (auto simp: in_session_scope_eq intro: steps_to_trans)
  next
    fix start tip r3 s3
    assume loop: "snapshot_loop env t fuel start tip ?s2 = Some (r3, s3)" and "s' = s3"
    then show ?thesis using snapshot_loop_steps [OF loop] 1 by (auto intro: steps_to_trans)
  qed (use 1 db1 in simp_all)
qed

lemma process_list_steps:
  assumes "for_each (\<lambda>p. process_one (sign_and_submit c env show_json key) exc_str t (payout_id p)) ps (d, w)
      = (r, (d', w'))"
  shows "steps_to d d'"
  using assms
proof (induction ps arbitrary: d w)
  case Nil
  then show ?case by (simp add: return_exec)
next
  case (Cons p ps)
  obtain r1 d1 w1 where one: "process_one (sign_and_submit c env show_json key) exc_str t (payout_id p) (d, w)
      = (r1, d1, w1)" by (metis prod_cases3)
  have 1: "steps_to d d1"
    using one by (intro steps_to_step) (auto intro: service_step.runner_pays)
  show ?case
  proof (cases r1)
    case (Inl e)
    with one Cons.prems 1 show ?thesis by (simp add: bind_def)
  next
    case (Inr x)
    with one Cons.prems have "for_each (\<lambda>p. process_one (sign_and_submit c env show_json key) exc_str t (payout_id p))
        ps (d1, w1) = (r, (d', w'))" by (simp add: bind_def)
    from Cons.IH [OF this] 1 show ?thesis by (rule steps_to_trans [rotated])
  qed
qed

lemma runner_tick_steps:
  assumes "runner_tick (sign_and_submit c env show_json key) exc_str t (d, w) = (r, (d', w'))"
  shows "steps_to d d'"
proof -
  let ?each = "for_each (\<lambda>p. process_one (sign_and_submit c env show_json key) exc_str t (payout_id p))"
  obtain rc d1 where c: "session_scope claim_batch t d = (rc, d1)" by fastforce
  have 1: "steps_to d d1"
    using c by (intro steps_to_step) (auto intro: service_step.runner_claims)
  show ?thesis
  proof (cases rc)
    case (Inl e)
    with assms c 1 show ?thesis by (simp add: runner_tick_def)
  next
    case (Inr ps)
    obtain r2 d2 w2 where l: "?each ps (d1, w) = (r2, d2, w2)" by (metis prod_cases3)
    have "d' = d1 \<or> d' = d2"
      using assms c Inr l by (auto simp: runner_tick_def bind_def return_exec split: if_splits sum.splits)
    with 1 process_list_steps [OF l] show ?thesis by (auto intro: steps_to_trans)
  qed
qed

end
