(* ===== verification/Example.thy ===== *)
theory Example
  imports Service
begin

text \<open>
  One life of a stake, step by step through the code's own definitions: the snapshot sees a
  transfer to the escrow, the owner requests an unstake, the cooldown passes, the runner claims
  the refund. The witnesses of the properties of reachable states use these states.
\<close>

section \<open>The parties\<close>

text \<open>The staker's key is all zeros, the pool's all ones; the pool's hashes to its address.\<close>

definition ex_pool_pk :: bytes where
  "ex_pool_pk = replicate 1952 1"

definition ex_pool_digest :: "256 word" where
  "ex_pool_digest = 0x1006639349b6aceb65fc78be92a404e41edb7019000000000000000000000000"

definition ex_crypto :: crypto where
  "ex_crypto = \<lparr>sha3_256 = (\<lambda>bs. if bs = ex_pool_pk then ex_pool_digest else 0),
     ref_keypair = (\<lambda>seed. Some (if seed = 0 then replicate 1952 0 else ex_pool_pk, replicate 4032 0)),
     ref_signature = (\<lambda>_ _. Some (replicate 3309 0)), ml_dsa_verify = (\<lambda>_ _ _. True)\<rparr>"

definition ex_addr :: string where
  "ex_addr = ''NPC'' @ hex (replicate 20 0)"

definition ex_stake_tx :: json where
  "ex_stake_tx = JObj [(''type'', JStr ''transfer''), (''tx_hash'', JStr ''aa01''), (''from'', JStr ex_addr),
     (''to'', JStr stake_address), (''amount'', JInt 300)]"

definition ex_block :: json where
  "ex_block = JObj [(''height'', JInt 1), (''transactions'', JArr [ex_stake_tx])]"

definition ex_request :: RequestUnstake where
  "ex_request = \<lparr>req_address = ex_addr, req_nonce = ''nonce-01'', req_timestamp = 1000,
     req_signature = hex (replicate 3309 0), req_pubkey = hex (replicate 1952 0), req_amount = 100\<rparr>"

definition ex_readings :: readings where
  "ex_readings = \<lparr>clock1 = 1000, clock2 = 1000, clock3 = 1000\<rparr>"

definition ex_block2 :: json where
  "ex_block2 = JObj [(''height'', JInt 10081), (''transactions'', JArr [JObj [(''type'', JStr ''transfer''),
     (''tx_hash'', JStr ''aa02''), (''from'', JStr ''NPCminer''), (''to'', JStr VALIDATOR_REWARDS_ADDRESS),
     (''amount'', JInt 7)]])]"

section \<open>The states\<close>

definition ex_watcher :: "int \<Rightarrow> time option \<Rightarrow> WatcherState" where
  "ex_watcher h fin = \<lparr>last_processed_height = h, snapshot_complete = (fin \<noteq> None),
     snapshot_started_at = Some 0, snapshot_finished_at = fin\<rparr>"

definition ex_staker :: "int \<Rightarrow> Staker" where
  "ex_staker n = \<lparr>staker_address = ex_addr, staked_amount = n, tier = ''None'',
     first_stake_height = Some 1, last_activity_height = Some 1\<rparr>"

definition ex_event :: StakeEvent where
  "ex_event = \<lparr>event_address = ex_addr, event_type = ''STAKE'', event_amount = 300,
     event_block_height = 1, event_tx_hash = Some ''aa01'', event_note = Some ''transfer_to_escrow''\<rparr>"

definition ex_unstake :: "unstake_status \<Rightarrow> UnstakeRequest" where
  "ex_unstake st = \<lparr>request_id = 1, request_address = ex_addr, request_amount = 100, request_height = 1,
     unlock_height = 10081, request_status = st, refund_tx_hash = None, completed_height = None\<rparr>"

definition ex_payout :: "payout_state \<Rightarrow> PendingPayout" where
  "ex_payout st = \<lparr>payout_id = 1, recipient = ex_addr, payout_amount = 100,
     payout_kind = ''UNSTAKE_REFUND'', payout_status = st, payout_ref = ''unstake:1'',
     payout_tx_hash = None, submitted_height = None, confirmed_height = None, error_message = None,
     attempts = 0, payout_created_at = 2000\<rparr>"

definition ex_reward :: ValidatorReward where
  "ex_reward = \<lparr>reward_address = ex_addr, pending_rewards = 7, total_claimed = 0,
     last_credited_height = Some 10081, last_claimed_height = None\<rparr>"

definition ex_inflow :: RewardPoolInflow where
  "ex_inflow = \<lparr>inflow_block_height = 10081, inflow_amount = 7, distributed_to_count = 1, dust_remaining = 0\<rparr>"

definition ex_started :: db where
  "ex_started = empty_db\<lparr>watcher := Some (ex_watcher 0 None)\<rparr>"

definition ex_staked :: db where
  "ex_staked = empty_db\<lparr>watcher := Some (ex_watcher 1 None), stakers := [ex_staker 300],
     stake_events := [ex_event]\<rparr>"

definition ex_ready :: db where
  "ex_ready = ex_staked\<lparr>watcher := Some (ex_watcher 1 (Some 100))\<rparr>"

definition ex_requested :: db where
  "ex_requested = ex_ready\<lparr>stakers := [ex_staker 200], unstake_requests := [ex_unstake PENDING],
     next_request_id := 2\<rparr>"

definition ex_unlocked :: db where
  "ex_unlocked = ex_requested\<lparr>watcher := Some (ex_watcher 10081 (Some 100)),
     unstake_requests := [ex_unstake READY], pending_payouts := [ex_payout QUEUED],
     validator_rewards := [ex_reward], reward_pool_inflows := [ex_inflow], next_payout_id := 2\<rparr>"

definition ex_claimed :: db where
  "ex_claimed = ex_unlocked\<lparr>pending_payouts := [ex_payout SIGNING]\<rparr>"

lemmas ex_parts = ex_watcher_def ex_staker_def ex_event_def ex_unstake_def ex_payout_def
  ex_reward_def ex_inflow_def
lemma ex_fields [simp]:
  "staked_amount (ex_staker n) = n" "last_processed_height (ex_watcher h fin) = h"
  "snapshot_complete (ex_watcher h fin) = (fin \<noteq> None)"
  by (simp_all add: ex_staker_def ex_watcher_def)

lemmas ex_states = ex_started_def ex_staked_def ex_ready_def ex_requested_def ex_unlocked_def
  ex_claimed_def empty_db_def

section \<open>The steps\<close>

lemma length_ex_addr: "length ex_addr = 43" "sql_text ex_addr"
  by (simp_all add: ex_addr_def length_hex)

lemma ex_start: "session_scope (snapshot_start 0) 0 empty_db = (Inr 0, ex_started)"
  by (simp add: session_scope_def snapshot_start_def get_or_create_watcher_state_def bind_def
      write_watcher_run session_run begin_session_def empty_db_def ex_started_def new_watcher_state_def
      big_integer_def ex_watcher_def)

lemma ex_addr_chars: "ex_addr = ''NPC0000000000000000000000000000000000000000''"
  by code_simp

lemma ex_addr_canonical: "canonicalize ex_addr = ex_addr"
  by (simp add: ex_addr_chars canonicalize_def ADDRESS_MIGRATIONS_def startswith_def)

lemma ex_escrow_canonical: "canonicalize stake_address = stake_address"
  by (simp add: canonicalize_def ADDRESS_MIGRATIONS_def stake_address_def startswith_def)

lemma ex_addr_not_escrow: "ex_addr \<noteq> stake_address" "stake_address \<noteq> VALIDATOR_REWARDS_ADDRESS"
  by (simp_all add: ex_addr_chars stake_address_def VALIDATOR_REWARDS_ADDRESS_def)

lemma ex_stake_tx_run:
  "apply_single_tx ex_stake_tx h =
     apply_stake_event ''STAKE'' (staker_credit 300 h) (JStr ex_addr) 300 h (JStr ''aa01'') ''transfer_to_escrow''"
proof -
  have "lower ''transfer'' = ''transfer''" by code_simp
  then show ?thesis
    using ex_addr_not_escrow
    by (simp add: apply_single_tx_def ex_stake_tx_def lift_def bind_def return_def py_or_def
        ex_addr_canonical ex_escrow_canonical Let_def ex_addr_chars [symmetric])
qed

lemma ex_columns:
  "staker_columns (new_staker ex_addr)" "staker_columns (ex_staker 300)" "staker_columns (ex_staker 200)"
  "event_columns ex_event" "request_columns (ex_unstake st)" "payout_columns (ex_payout ps)"
  by (simp_all add: columns_defs ex_parts new_staker_def varchar_def big_integer_def sql_integer_def length_ex_addr)

lemma ex_tier_none: "n < 100000000000000 \<Longrightarrow> tier_name (tier_for n) = ''None''"
  by (simp add: tier_for_def TIERS_def NONE_TIER_def tier_mins)

lemma ex_staker_credit: "staker_credit 300 1 (new_staker ex_addr) = ex_staker 300"
  by (simp add: staker_credit_def refresh_tier_cache_def new_staker_def ex_staker_def ex_tier_none)

lemma ex_stake_event_run:
  "apply_stake_event ''STAKE'' (staker_credit 300 1) (JStr ex_addr) 300 1 (JStr ''aa01'')
     ''transfer_to_escrow'' (begin_session t ex_started) =
   (Inr (), (begin_session t ex_started)\<lparr>working := ex_staked\<lparr>watcher := Some (ex_watcher 0 None)\<rparr>\<rparr>)"
proof -
  let ?s0 = "begin_session t ex_started"
  let ?s1 = "?s0\<lparr>working := ex_started\<lparr>stakers := [new_staker ex_addr]\<rparr>\<rparr>"
  let ?s2 = "?s1\<lparr>working := ex_started\<lparr>stakers := [new_staker ex_addr], stake_events := [ex_event]\<rparr>\<rparr>"
  have 1: "get_or_create_staker ex_addr ?s0 = (Inr (new_staker ex_addr), ?s1)"
    by (simp add: get_or_create_staker_run begin_session_def ex_started_def empty_db_def get_staker_def
        ex_columns row_insert_def)
  have 2: "record_event ex_addr ''STAKE'' 300 1 (JStr ''aa01'') ''transfer_to_escrow'' ?s1 = (Inr True, ?s2)"
    using ex_columns(4)
    by (simp add: record_event_run begin_session_def ex_started_def empty_db_def event_clash_def
        row_insert_def ex_event_def [symmetric])
  show ?thesis
    by (simp add: apply_stake_event_def bind_def lift_exec 1 2 ex_staker_credit write_staker_run ex_columns)
      (simp add: put_staker_def begin_session_def ex_started_def ex_staked_def empty_db_def ex_staker_def)
qed

lemma ex_snapshot: "session_scope (snapshot_block_session ex_block 1) 1 ex_started = (Inr (), ex_staked)"
proof -
  have run: "apply_block_transactions ex_block (begin_session 1 ex_started) =
    (Inr (), (begin_session 1 ex_started)\<lparr>working := ex_staked\<lparr>watcher := Some (ex_watcher 0 None)\<rparr>\<rparr>)"
    by (simp add: apply_block_transactions_def ex_block_def bind_def lift_exec py_or_def Let_def
        ex_stake_tx_run ex_stake_event_run return_exec)
  show ?thesis
    by (simp add: session_scope_def snapshot_block_session_def bind_def run gets_exec return_exec
        get_or_create_watcher_state_def write_watcher_run ex_watcher_def big_integer_def commit_run)
      (simp add: begin_session_def ex_staked_def ex_watcher_def)
qed

lemma ex_finish: "session_scope (snapshot_finish 100) 100 ex_staked = (Inr (), ex_ready)"
  by (simp add: session_scope_def snapshot_finish_def get_or_create_watcher_state_def bind_def
      write_watcher_run session_run begin_session_def ex_staked_def ex_ready_def big_integer_def ex_watcher_def)

definition ex_app :: "db \<Rightarrow> app" where
  "ex_app d = \<lparr>nonces = [''nonce-01'' \<mapsto> 1000], database = d\<rparr>"

definition ex_after_request :: app where
  "ex_after_request = \<lparr>nonces = [''nonce-01'' \<mapsto> 1000], database = ex_requested\<rparr>"

lemma ex_pool_pk_distinct: "replicate 1952 0 \<noteq> ex_pool_pk" "0 # bs \<noteq> ex_pool_pk"
  by (auto simp: ex_pool_pk_def replicate_eq_replicate dest: arg_cong [of _ _ hd])

lemma ex_pool_pk_length [simp]: "length ex_pool_pk = 1952"
  by (simp add: ex_pool_pk_def)

lemma ex_derived: "''NPC'' @ hex (take 20 (digest (sha3_256 ex_crypto (replicate 1952 0)))) = ex_addr"
proof -
  have "take 20 (digest 0) = replicate 20 0"
    by (simp add: digest_def numeral_eq_Suc)
  then show ?thesis using ex_pool_pk_distinct by (simp add: ex_crypto_def ex_addr_def)
qed

lemma ex_pool_derived: "''NPC'' @ hex (take 20 (digest (sha3_256 ex_crypto ex_pool_pk))) = pool_address"
proof -
  have "take 20 (digest ex_pool_digest) = [0x10, 0x06, 0x63, 0x93, 0x49, 0xb6, 0xac, 0xeb, 0x65, 0xfc,
      0x78, 0xbe, 0x92, 0xa4, 0x04, 0xe4, 0x1e, 0xdb, 0x70, 0x19]"
    by (simp add: digest_def upt_conv_Cons ex_pool_digest_def)
  moreover have "''NPC'' @ hex [0x10, 0x06, 0x63, 0x93, 0x49, 0xb6, 0xac, 0xeb, 0x65, 0xfc,
      0x78, 0xbe, 0x92, 0xa4, 0x04, 0xe4, 0x1e, 0xdb, 0x70, 0x19] = pool_address"
    by (simp add: hex_def hex_digit_def pool_address_def char_of_def bit_iff_odd)
  ultimately show ?thesis by (simp add: ex_crypto_def)
qed

lemma ex_verified:
  assumes replay: "check_replay t t' nonce ts seen = (Inr (), seen')"
  shows "verify_signed_request ex_crypto t t' action ex_addr n nonce ts
    (hex (replicate 3309 0)) (hex (replicate 1952 0)) seen = (Inr (), seen')"
proof -
  have sig: "verify_dilithium_real ex_crypto (hex (replicate 1952 0)) msg (hex (replicate 3309 0))" for msg
    by (simp add: verify_dilithium_real_iff from_hex_hex length_hex dilithium_sizes ex_crypto_def)
  have addr: "derive_address_real ex_crypto (hex (replicate 1952 0)) = ex_addr"
    by (subst derive_address_real_eq [where pk = "replicate 1952 0"])
      (use ex_derived in \<open>simp_all add: from_hex_hex length_hex PK_SIZE_def\<close>)
  have "ex_addr \<noteq> []" by (simp add: ex_addr_def)
  with replay sig addr show ?thesis
    by (simp add: verify_signed_request_def bind_def return_exec Let_def)
qed

lemma ex_signature_accepted:
  "verify_signed_request ex_crypto 1000 1000 ''UNSTAKE'' ex_addr 100 ''nonce-01'' 1000
     (hex (replicate 3309 0)) (hex (replicate 1952 0)) Map.empty = (Inr (), [''nonce-01'' \<mapsto> 1000])"
  by (rule ex_verified) (simp add: check_replay_accepts purge_old_nonces_def trunc_int_def)

lemma ex_request_body:
  "fst (request_unstake_body ex_addr 100 (begin_session t ex_ready)) \<noteq> Inl e \<and>
   committed (snd (request_unstake_body ex_addr 100 (begin_session t ex_ready))) = ex_requested \<and>
   working (snd (request_unstake_body ex_addr 100 (begin_session t ex_ready))) = ex_requested"
proof -
  have u: "new_request ex_addr 100 1 (1 + unstake_cooldown_blocks) 1 = ex_unstake PENDING"
    by (simp add: new_request_def ex_unstake_def unstake_cooldown_blocks_def)
  have st: "set_stake 200 1 (ex_staker 300) = ex_staker 200"
    by (simp add: set_stake_def ex_staker_def ex_tier_none)
  have get: "get_staker ex_ready ex_addr = Some (ex_staker 300)" "watcher ex_ready = Some (ex_watcher 1 (Some 100))"
    "next_request_id ex_ready = 1" "unstake_requests ex_ready = []"
    by (simp_all add: get_staker_def ex_states row_get_Cons ex_staker_def)
  have final: "(put_staker (ex_staker 200) ex_ready)\<lparr>unstake_requests := [ex_unstake PENDING],
      next_request_id := 2\<rparr> = ex_requested"
    by (simp add: put_staker_def ex_states) (simp add: ex_staker_def)
  show ?thesis
    using get
    by (simp add: request_unstake_body_def bind_gets bind_current_height bind_rows bind_commit
        begin_session_def ex_columns u st row_insert_def return_exec raise_exec final Let_def)
qed

lemma ex_request_step:
  "fst (request_unstake ex_crypto ex_readings ex_request \<lparr>nonces = Map.empty, database = ex_ready\<rparr>) \<noteq> Inl e"
  "snd (request_unstake ex_crypto ex_readings ex_request \<lparr>nonces = Map.empty, database = ex_ready\<rparr>) =
     ex_after_request"
proof -
  have valid: "request_unstake_valid ex_request"
    by (simp add: request_unstake_valid_def signed_fields_valid_def ex_request_def length_ex_addr length_hex)
  have seqs: "rolled_back s = s\<lparr>working := ex_requested, epoch := Suc (epoch s)\<rparr>"
    if "committed s = ex_requested" "working s = ex_requested" for s
    using that by (cases s) (simp add: rolled_back_def keep_sequences_def)
  obtain r s where b: "request_unstake_body ex_addr 100 (begin_session 1000 ex_ready) = (r, s)" by fastforce
  with ex_request_body [where t = 1000] have s: "committed s = ex_requested" "working s = ex_requested"
    and r: "\<And>e. r \<noteq> Inl e" by auto
  have g: "get_session (request_unstake_body ex_addr 100) 1000 ex_ready = (r, ex_requested)"
    using b s by (simp add: get_session_def seqs)
  show "fst (request_unstake ex_crypto ex_readings ex_request \<lparr>nonces = Map.empty, database = ex_ready\<rparr>) \<noteq> Inl e"
    and "snd (request_unstake ex_crypto ex_readings ex_request \<lparr>nonces = Map.empty, database = ex_ready\<rparr>) =
      ex_after_request"
    using r g valid
    by (simp_all add: request_unstake_def endpoint_def ex_readings_def ex_signature_accepted
        ex_after_request_def ex_request_def)
qed

definition ex_rewarded :: db where
  "ex_rewarded = ex_requested\<lparr>validator_rewards := [ex_reward], reward_pool_inflows := [ex_inflow]\<rparr>"

lemma ex_credit_pool:
  "credit_validator_rewards_pool 7 10081 (begin_session t ex_requested) =
     (Inr (), (begin_session t ex_requested)\<lparr>working := ex_rewarded\<rparr>)"
proof -
  let ?s = "begin_session t ex_requested"
  let ?s1 = "?s\<lparr>working := ex_requested\<lparr>validator_rewards := [ex_reward]\<rparr>\<rparr>"
  have act: "filter (\<lambda>st. 0 < staked_amount st) (stakers ex_requested) = [ex_staker 200]"
    by (simp add: ex_states)
  have parts: "staker_address (ex_staker n) = ex_addr" "reward_pool_inflows ex_requested = []"
    "validator_rewards ex_requested = []" for n by (simp_all add: ex_states ex_staker_def)
  have cols: "reward_columns ex_reward" "inflow_columns ex_inflow"
    by (simp_all add: ex_parts columns_defs varchar_def big_integer_def sql_integer_def length_ex_addr)
  have credit: "credit_reward ex_addr 7 10081 ?s = (Inr (), ?s1)"
    using cols(1)
    by (simp add: credit_reward_def bind_def gets_exec get_reward_def parts
        insert_reward_run ex_reward_def [symmetric] row_insert_def)
  show ?thesis
    using cols(2)
    by (simp add: credit_validator_rewards_pool_def get_active_stakers_def bind_def gets_exec act parts
        reward_share_def credit return_exec insert_inflow_run ex_inflow_def [symmetric] Let_def
        row_insert_def ex_rewarded_def)
qed

lemma ex_pool_run:
  "apply_block_transactions ex_block2 (begin_session t ex_requested) =
     (Inr (), (begin_session t ex_requested)\<lparr>working := ex_rewarded\<rparr>)"
proof -
  have "lower ''transfer'' = ''transfer''" by code_simp
  moreover have "canonicalize ''NPCminer'' = ''NPCminer''"
    "canonicalize VALIDATOR_REWARDS_ADDRESS = VALIDATOR_REWARDS_ADDRESS"
    by (simp_all add: canonicalize_def ADDRESS_MIGRATIONS_def startswith_def VALIDATOR_REWARDS_ADDRESS_def)
  moreover have "VALIDATOR_REWARDS_ADDRESS \<noteq> []" by (simp add: VALIDATOR_REWARDS_ADDRESS_def)
  ultimately show ?thesis
    by (simp add: apply_block_transactions_def ex_block2_def bind_def lift_exec py_or_def Let_def
        apply_single_tx_def return_exec ex_credit_pool)
qed

lemma ex_refund_queued:
  assumes "unstake_requests d = [ex_unstake PENDING]" "pending_payouts d = []" "next_payout_id d = 1"
  shows "process_unlocked_unstakes 10081 ((begin_session 2000 d0)\<lparr>working := d\<rparr>) =
    (Inr 1, (begin_session 2000 d0)\<lparr>working := d\<lparr>unstake_requests := [ex_unstake READY],
       pending_payouts := [ex_payout QUEUED], next_payout_id := 2\<rparr>\<rparr>)"
proof -
  let ?s = "(begin_session 2000 d0)\<lparr>working := d\<rparr>"
  have us: "unlocked_requests 10081 d = [ex_unstake PENDING]"
    by (simp add: unlocked_requests_def assms(1)) (simp add: ex_unstake_def)
  have ready: "(ex_unstake PENDING)\<lparr>request_status := READY\<rparr> = ex_unstake READY"
    by (simp add: ex_unstake_def)
  have ref: "unstake_ref 1 = ''unstake:1''" by code_simp
  have pay: "new_payout ex_addr 100 ''UNSTAKE_REFUND'' ''unstake:1'' 2000 1 = ex_payout QUEUED"
    by (simp add: new_payout_def ex_payout_def)
  have put: "put_request (ex_unstake READY) d = d\<lparr>unstake_requests := [ex_unstake READY]\<rparr>"
    by (simp add: put_request_def assms(1)) (simp add: ex_unstake_def)
  have unst: "request_address (ex_unstake st) = ex_addr" "request_amount (ex_unstake st) = 100"
    "request_id (ex_unstake st) = 1" for st by (simp_all add: ex_unstake_def)
  have run: "process_unlocked 0 (ex_unstake PENDING) ?s =
      (Inr (), ?s\<lparr>working := d\<lparr>unstake_requests := [ex_unstake READY],
         pending_payouts := [ex_payout QUEUED], next_payout_id := 2\<rparr>\<rparr>)"
    by (simp add: process_unlocked_def bind_def write_request_run ex_columns ready enqueue_payout_def
        catch_def gets_exec insert_payout_run unst ref pay assms row_insert_def put
        loaded_attribute_run return_exec Let_def)
  with us show ?thesis by (simp add: process_unlocked_unstakes_def bind_def gets_exec return_exec raise_unless_exec big_integer_def)
qed

lemma ex_unlock:
  "session_scope (watcher_block_session ex_block2 10081) 2000 ex_requested = (Inr 1, ex_unlocked)"
proof -
  let ?w = "ex_rewarded\<lparr>watcher := Some (ex_watcher 10081 (Some 100))\<rparr>"
  note states = ex_states ex_rewarded_def
  have w: "watcher ex_rewarded = Some (ex_watcher 1 (Some 100))" by (simp add: states)
  have upd: "(ex_watcher 1 (Some 100))\<lparr>last_processed_height := 10081\<rparr> = ex_watcher 10081 (Some 100)"
    by (simp add: ex_watcher_def)
  have "?w\<lparr>unstake_requests := [ex_unstake READY], pending_payouts := [ex_payout QUEUED],
      next_payout_id := 2\<rparr> = ex_unlocked" by (simp add: states)
  then have refunds: "process_unlocked_unstakes 10081 ((begin_session 2000 ex_requested)\<lparr>working := ?w\<rparr>) =
      (Inr 1, (begin_session 2000 ex_requested)\<lparr>working := ex_unlocked\<rparr>)"
    by (simp add: ex_refund_queued states)
  have "watcher_block_session ex_block2 10081 (begin_session 2000 ex_requested) =
      process_unlocked_unstakes 10081 ((begin_session 2000 ex_requested)\<lparr>working := ?w\<rparr>)"
    using w by (simp add: watcher_block_session_def bind_def ex_pool_run gets_exec
        write_watcher_run upd big_integer_def)
  with refunds show ?thesis
    by (simp add: session_scope_def bind_def commit_run return_exec)
qed

lemma claim_single:
  assumes "pending_payouts d = [p]" "claimable p" "payout_columns (p\<lparr>payout_status := SIGNING\<rparr>)"
  shows "session_scope claim_batch t d =
    (Inr [p\<lparr>payout_status := SIGNING\<rparr>], d\<lparr>pending_payouts := [p\<lparr>payout_status := SIGNING\<rparr>]\<rparr>)"
proof -
  have q: "batch_query d = [p]" using assms(1,2) by (simp add: batch_query_def BATCH_SIZE_def)
  have put: "put_payout (p\<lparr>payout_status := SIGNING\<rparr>) d = d\<lparr>pending_payouts := [p\<lparr>payout_status := SIGNING\<rparr>]\<rparr>"
    by (simp add: put_payout_def assms(1))
  show ?thesis
    by (simp add: session_scope_def claim_batch_def bind_def gets_exec q
        write_payout_run assms(3) put commit_run return_exec)
qed

lemma ex_claim_from:
  assumes "pending_payouts d = [ex_payout QUEUED]"
  shows "session_scope claim_batch t d =
    (Inr [ex_payout SIGNING], d\<lparr>pending_payouts := [ex_payout SIGNING]\<rparr>)"
proof -
  have upd: "(ex_payout QUEUED)\<lparr>payout_status := SIGNING\<rparr> = ex_payout SIGNING"
    and "claimable (ex_payout QUEUED)"
    by (simp_all add: ex_payout_def claimable_def MAX_ATTEMPTS_def)
  with claim_single [OF assms] show ?thesis by (simp add: ex_columns)
qed

lemma ex_claim: "session_scope claim_batch 2010 ex_unlocked = (Inr [ex_payout SIGNING], ex_claimed)"
  by (simp add: ex_claim_from ex_unlocked_def ex_claimed_def)

subsection \<open>The payment\<close>

definition ex_key :: PoolKey where
  "ex_key = \<lparr>key_address = pool_address, public_key = ex_pool_pk, secret_key = replicate 4032 0\<rparr>"

definition ex_env :: env where
  "ex_env = \<lparr>answer = (\<lambda>_ _. Response 200 (Some (JObj [(''nonce'', JInt 4)]))), wall_clock = (\<lambda>_. 2020)\<rparr>"

definition ex_hash :: string where
  "ex_hash = hex (digest 0)"

definition ex_paid :: db where
  "ex_paid = ex_claimed\<lparr>pending_payouts := [(ex_payout SUBMITTED)\<lparr>payout_tx_hash := Some ex_hash, attempts := 1\<rparr>]\<rparr>"

lemma ex_rpc: "rpc_get ex_env path 5 w = (Inr (JObj [(''nonce'', JInt 4)]), \<lparr>requests = Suc (requests w), slept = slept w + 1 / 20\<rparr>)"
  "submit_tx ex_env payload w = (Inr (JObj [(''nonce'', JInt 4)]), \<lparr>requests = Suc (requests w), slept = slept w\<rparr>)"
  by (cases w; simp add: rpc_get_def submit_tx_def eval_nat_numeral retry_loop_step ex_env_def throttled_def
      is_success_def Let_def)+

lemma ex_canonical:
  "\<exists>bs. serialize_canonical (payout_tx ex_key (ex_payout SIGNING) 5 2020) = Inr (0 # bs)"
proof -
  let ?t = "payout_tx ex_key (ex_payout SIGNING) 5 2020"
  have "int_str 1 = ''1''" by code_simp
  moreover have "length (utf8_encode s) < 2 ^ 64" if "length s < 100" for s
    using that length_utf8_encode [of s] by simp
  ultimately have "\<exists>bs. serialize_canonical ?t = Inr bs"
    by (intro serialize_canonical_total)
      (simp_all add: payout_tx_def ex_payout_def ex_key_def TX_TYPE_TRANSFER_def PAYOUT_FEE_BASE_UNITS_def
        ex_addr_chars pool_address_def payout_memo_def)
  moreover have "append_byte (tx_type ?t) = Inr [0]"
    by (simp add: payout_tx_def TX_TYPE_TRANSFER_def append_byte_def)
  ultimately show ?thesis by (auto simp: serialize_canonical_def rbind_eq_Inr)
qed

lemma ex_submit:
  "\<exists>w'. sign_and_submit ex_crypto ex_env show_json ex_key (ex_payout SIGNING) w = (Inr ex_hash, w')"
proof -
  obtain bs where canon: "serialize_canonical (payout_tx ex_key (ex_payout SIGNING) 5 2020) = Inr (0 # bs)"
    using ex_canonical by blast
  have sig: "pool_key_sign ex_crypto ex_key m = Inr (replicate 3309 0)" for m
    by (simp add: pool_key_sign_def sign_def npc_dil3_sign_def ex_key_def ex_crypto_def dilithium_sizes)
  have now: "trunc_int (wall_clock ex_env k) = 2020" for k by (simp add: ex_env_def trunc_int_def)
  have hash: "hex (digest (sha3_256 ex_crypto (0 # bs))) = ex_hash"
    using ex_pool_pk_distinct by (simp add: ex_hash_def ex_crypto_def)
  show ?thesis
    by (simp add: sign_and_submit_def next_nonce_def bind_def ex_rpc lift_exec gets_exec return_exec now
        canon sig hash Let_def)
qed

abbreviation ex_submitted :: PendingPayout where
  "ex_submitted \<equiv> (ex_payout SUBMITTED)\<lparr>payout_tx_hash := Some ex_hash, attempts := 1\<rparr>"

lemma ex_pay_from:
  assumes "pending_payouts d = [ex_payout SIGNING]"
  shows "\<exists>w'. process_one (sign_and_submit ex_crypto ex_env show_json ex_key) exc_str t 1 (d, w) =
     (Inr (), d\<lparr>pending_payouts := [ex_submitted]\<rparr>, w')"
proof -
  obtain w' where s: "sign_and_submit ex_crypto ex_env show_json ex_key (ex_payout SIGNING) w = (Inr ex_hash, w')"
    using ex_submit by blast
  have out: "payout_outcome exc_str (Inr ex_hash) (ex_payout SIGNING) = ex_submitted"
    by (simp add: payout_outcome_def ex_payout_def)
  have "length ex_hash = 64" "sql_text ex_hash" by (simp_all add: ex_hash_def length_hex)
  then have cols: "payout_columns ex_submitted"
    using ex_columns(6) [of SUBMITTED] by (simp add: payout_columns_def varchar_def sql_integer_def)
  have get: "get_payout d 1 = Some (ex_payout SIGNING)" "payout_status (ex_payout SIGNING) = SIGNING"
    by (simp_all add: get_payout_def assms row_get_Cons) (simp_all add: ex_payout_def)
  have "put_payout ex_submitted d = d\<lparr>pending_payouts := [ex_submitted]\<rparr>"
    by (simp add: put_payout_def assms) (simp add: ex_payout_def)
  then show ?thesis
    using s get cols
    by (simp add: process_one_def out session_scope_def bind_def write_payout_run commit_run return_exec)
qed

lemma ex_pay:
  "\<exists>w'. process_one (sign_and_submit ex_crypto ex_env show_json ex_key) exc_str t 1 (ex_claimed, w) =
     (Inr (), ex_paid, w')"
  using ex_pay_from [of ex_claimed] by (simp add: ex_claimed_def ex_paid_def)

section \<open>Cancelling after the refund is queued\<close>

definition ex_cancel :: CancelUnstake where
  "ex_cancel = \<lparr>req_address = ex_addr, req_nonce = ''nonce-02'', req_timestamp = 3000,
     req_signature = hex (replicate 3309 0), req_pubkey = hex (replicate 1952 0), req_request_id = 1\<rparr>"

definition ex_cancelled :: db where
  "ex_cancelled = ex_unlocked\<lparr>stakers := [(ex_staker 300)\<lparr>last_activity_height := Some 10081\<rparr>],
     unstake_requests := [(ex_unstake CANCELLED)\<lparr>completed_height := Some 10081\<rparr>]\<rparr>"

lemma ex_cancellable: "cancellable ex_unlocked ex_addr 1 (ex_unstake READY) (ex_staker 200) 10081"
  by (simp add: cancellable_def get_request_def get_staker_def watcher_ready_def ex_states row_get_Cons
      big_integer_def) (simp add: ex_parts)

lemma ex_cancel_session:
  "\<exists>v. get_session (cancel_unstake_body ex_addr 1) t ex_unlocked = (Inr v, ex_cancelled)"
proof -
  have st: "set_stake 300 10081 (ex_staker 200) = (ex_staker 300)\<lparr>last_activity_height := Some 10081\<rparr>"
    by (simp add: set_stake_def ex_staker_def ex_tier_none)
  have u: "cancelled_request 10081 (ex_unstake READY) = (ex_unstake CANCELLED)\<lparr>completed_height := Some 10081\<rparr>"
    by (simp add: cancelled_request_def ex_unstake_def)
  have amt: "request_amount (ex_unstake READY) = 100" by (simp add: ex_unstake_def)
  have cols: "staker_columns ((ex_staker 300)\<lparr>last_activity_height := Some 10081\<rparr>)"
    "request_columns ((ex_unstake CANCELLED)\<lparr>completed_height := Some 10081\<rparr>)"
    using ex_columns(2) ex_columns(5) [of CANCELLED] by (simp_all add: columns_defs big_integer_def)
  have eff: "cancel_effect 10081 (ex_unstake READY) (ex_staker 200) ex_unlocked = ex_cancelled"
    by (simp add: cancel_effect_def st u amt put_request_def put_staker_def ex_cancelled_def ex_states)
      (simp add: ex_staker_def ex_unstake_def)
  have "rolled_back s = s\<lparr>epoch := Suc (epoch s)\<rparr>" if "committed s = working s" for s
    using that by (cases s) (simp add: rolled_back_def keep_sequences_def)
  then show ?thesis
    using cancel_unstake_body_run [of "begin_session t ex_unlocked" ex_addr 1 "ex_unstake READY" "ex_staker 200" 10081]
      ex_cancellable cols
    by (simp add: get_session_def st u amt eff)
qed

lemma ex_cancel_step:
  "snd (cancel_unstake ex_crypto \<lparr>clock1 = 3000, clock2 = 3000, clock3 = 3000\<rparr> ex_cancel (ex_app ex_unlocked)) =
     \<lparr>nonces = [''nonce-02'' \<mapsto> 3000], database = ex_cancelled\<rparr>"
proof -
  have valid: "cancel_unstake_valid ex_cancel"
    by (simp add: cancel_unstake_valid_def signed_fields_valid_def ex_cancel_def length_ex_addr length_hex)
  obtain v where "get_session (cancel_unstake_body ex_addr 1) 3000 ex_unlocked = (Inr v, ex_cancelled)"
    using ex_cancel_session by blast
  moreover have "verify_signed_request ex_crypto 3000 3000 ''CANCEL_UNSTAKE'' ex_addr 1 ''nonce-02'' 3000
      (hex (replicate 3309 0)) (hex (replicate 1952 0)) [''nonce-01'' \<mapsto> 1000] = (Inr (), [''nonce-02'' \<mapsto> 3000])"
  proof -
    have "purge_old_nonces 3000 [''nonce-01'' \<mapsto> 1000] = Map.empty"
      by (rule ext) (simp add: purge_old_nonces_def TIMESTAMP_WINDOW_SECONDS_def)
    then have "check_replay 3000 3000 ''nonce-02'' 3000 [''nonce-01'' \<mapsto> 1000] = (Inr (), [''nonce-02'' \<mapsto> 3000])"
      by (simp add: check_replay_accepts trunc_int_def)
    then show ?thesis by (rule ex_verified)
  qed
  ultimately show ?thesis
    using valid by (simp add: cancel_unstake_def endpoint_def ex_cancel_def ex_app_def)
qed

section \<open>The states are reachable\<close>

lemma reachable_step: "reachable s \<Longrightarrow> service_step s s' \<Longrightarrow> reachable s'"
  unfolding reachable_def by (rule rtranclp.rtrancl_into_rtrancl)

lemma reachable_initial: "reachable initial_app"
  by (simp add: reachable_def)

lemma step_to:
  assumes "reachable \<lparr>nonces = ns, database = d\<rparr>"
    and "\<And>s. database s = d \<Longrightarrow> service_step s (s\<lparr>database := d'\<rparr>)"
  shows "reachable \<lparr>nonces = ns, database = d'\<rparr>"
  using reachable_step [OF assms(1) assms(2)] by simp

lemma ex_reachable_ready: "reachable \<lparr>nonces = Map.empty, database = ex_ready\<rparr>"
proof -
  have "reachable \<lparr>nonces = Map.empty, database = empty_db\<rparr>"
    using reachable_initial by (simp add: initial_app_def)
  then have "reachable \<lparr>nonces = Map.empty, database = ex_started\<rparr>"
    by (rule step_to) (rule service_step.snapshot_begins [where t = 0], simp add: ex_start)
  then have "reachable \<lparr>nonces = Map.empty, database = ex_staked\<rparr>"
    by (rule step_to) (rule service_step.snapshot_applies [where t = 1 and blk = ex_block and h = 1], simp add: ex_snapshot)
  then show ?thesis
    by (rule step_to) (rule service_step.snapshot_ends [where t = 100], simp add: ex_finish)
qed

lemma ex_reachable:
  "reachable (ex_app ex_requested)" "reachable (ex_app ex_unlocked)" "reachable (ex_app ex_claimed)"
proof -
  let ?s = "\<lparr>nonces = Map.empty, database = ex_ready\<rparr>"
  obtain r where "request_unstake ex_crypto ex_readings ex_request ?s = (r, ex_after_request)"
    using ex_request_step(2) by (cases "request_unstake ex_crypto ex_readings ex_request ?s") auto
  from reachable_step [OF ex_reachable_ready service_step.unstake [OF this]]
  show 1: "reachable (ex_app ex_requested)" by (simp add: ex_after_request_def ex_app_def)
  then show 2: "reachable (ex_app ex_unlocked)" unfolding ex_app_def
    by (rule step_to) (rule service_step.watcher_applies [where t = 2000
        and blk = ex_block2 and h = 10081], simp add: ex_unlock)
  then show "reachable (ex_app ex_claimed)" unfolding ex_app_def
    by (rule step_to) (rule service_step.runner_claims [where t = 2010], simp add: ex_claim)
qed

lemma ex_pay_step: "service_step (ex_app ex_claimed) (ex_app ex_paid)"
proof -
  let ?w = "\<lparr>requests = 0, slept = 0\<rparr>"
  obtain w' where "process_one (sign_and_submit ex_crypto ex_env (\<lambda>_. []) ex_key) (\<lambda>_. []) 2030 1
      (database (ex_app ex_claimed), ?w) = (Inr (), ex_paid, w')"
    using ex_pay by (fastforce simp: ex_app_def)
  from service_step.runner_pays [OF this] show ?thesis by (simp add: ex_app_def)
qed

lemma ex_reachable_paid: "reachable (ex_app ex_paid)"
  using reachable_step [OF ex_reachable(3) ex_pay_step] .

text \<open>The cancelled request's refund is claimed and submitted all the same.\<close>

lemma ex_reachable_cancelled_and_paid:
  "reachable \<lparr>nonces = [''nonce-02'' \<mapsto> 3000], database = ex_cancelled\<lparr>pending_payouts := [ex_submitted]\<rparr>\<rparr>"
proof -
  let ?c = "ex_cancelled\<lparr>pending_payouts := [ex_payout SIGNING]\<rparr>" and ?w = "\<lparr>requests = 0, slept = 0\<rparr>"
  obtain r where "cancel_unstake ex_crypto \<lparr>clock1 = 3000, clock2 = 3000, clock3 = 3000\<rparr> ex_cancel
      (ex_app ex_unlocked) = (r, \<lparr>nonces = [''nonce-02'' \<mapsto> 3000], database = ex_cancelled\<rparr>)"
    using ex_cancel_step by (metis prod.collapse)
  from reachable_step [OF ex_reachable(2) service_step.cancel [OF this]]
  have claimed: "reachable \<lparr>nonces = [''nonce-02'' \<mapsto> 3000], database = ?c\<rparr>"
    by (rule step_to) (rule service_step.runner_claims [where t = 3010],
      simp add: ex_claim_from ex_cancelled_def ex_unlocked_def)
  obtain w' where paid: "process_one (sign_and_submit ex_crypto ex_env (\<lambda>_. []) ex_key) (\<lambda>_. []) 3020 1
      (?c, ?w) = (Inr (), ex_cancelled\<lparr>pending_payouts := [ex_submitted]\<rparr>, w')"
    using ex_pay_from [of ?c "\<lambda>_. []" "\<lambda>_. []" 3020 ?w] by auto
  from claimed show ?thesis
    by (rule step_to) (rule service_step.runner_pays [where t = 3020 and i = 1 and w = ?w], simp, rule paid)
qed

end
