(* ===== verification/Blocks.thy ===== *)
theory Blocks
  imports Example
begin

text \<open>
  What \<open>apply_block_transactions\<close> promises: a block applied again changes nothing, how an inflow
  of the rewards pool is divided, and three situations in which a block has another effect than
  its transactions suggest.
\<close>

section \<open>The kinds of transaction\<close>

text \<open>
  What a transaction does depends on the state only through the operation that it selects: it
  raises, is skipped, is an inflow of the pool or a stake event.
\<close>

datatype tx_kind =
    Raises py_error
  | Skipped
  | Inflow int
  | StakeChange string "Staker \<Rightarrow> Staker" string int json string

fun run_kind :: "int \<Rightarrow> tx_kind \<Rightarrow> (session, unit) exec" where
  "run_kind h (Raises e) = raise e"
| "run_kind h Skipped = return ()"
| "run_kind h (Inflow n) = credit_validator_rewards_pool n h"
| "run_kind h (StakeChange ty assign a n x note) =
     bind (get_or_create_staker a) (\<lambda>staker.
     bind (record_event a ty n h x note) (\<lambda>inserted.
       if inserted then write_staker (assign staker) else return ()))"

lemma bind_lift_kind:
  assumes "\<And>a. r = Inr a \<Longrightarrow> \<exists>k. f a = run_kind h k"
  shows "\<exists>k. bind (lift r) f = run_kind h k"
proof (cases r)
  case (Inl e)
  then have "bind (lift r) f = run_kind h (Raises e)"
    by (intro ext) (simp add: bind_def lift_exec raise_exec)
  then show ?thesis by blast
next
  case (Inr a)
  then have "bind (lift r) f = f a" by (intro ext) (simp add: bind_def lift_exec)
  with assms Inr show ?thesis by simp
qed

lemma apply_stake_event_kind: "\<exists>k. apply_stake_event ty assign addr n h x note = run_kind h k"
  unfolding apply_stake_event_def
  by (rule bind_lift_kind) (metis run_kind.simps(4))

lemma apply_single_tx_kind: "\<exists>k. apply_single_tx tx h = run_kind h k"
proof -
  have skip: "\<exists>k. return () = run_kind h k" by (metis run_kind.simps(2))
  have pool: "\<exists>k. credit_validator_rewards_pool n h = run_kind h k" for n by (metis run_kind.simps(3))
  have ite: "\<exists>k. (if b then m else m') = run_kind h k"
    if "\<exists>k. m = run_kind h k" "\<exists>k. m' = run_kind h k" for b m m' using that by simp
  show ?thesis
    unfolding apply_single_tx_def Let_def
    by (intro bind_lift_kind ite skip pool apply_stake_event_kind)
qed

section \<open>One step\<close>

definition event_keys :: "db \<Rightarrow> (string \<times> string option \<times> string) set" where
  "event_keys d = event_key ` set (stake_events d)"

fun kind_key :: "tx_kind \<Rightarrow> (string \<times> string option \<times> string) option" where
  "kind_key (StakeChange ty assign a n (JStr x) note) = Some (a, Some x, ty)"
| "kind_key _ = None"

definition clashes :: "tx_kind \<Rightarrow> db \<Rightarrow> bool" where
  "clashes k d \<longleftrightarrow> (\<exists>key. kind_key k = Some key \<and> key \<in> event_keys d)"

text \<open>\<open>settled h d k\<close>: what \<open>k\<close> asks for is already in \<open>d\<close>.\<close>

fun settled :: "int \<Rightarrow> db \<Rightarrow> tx_kind \<Rightarrow> bool" where
  "settled h d (Raises e) = True"
| "settled h d Skipped = True"
| "settled h d (Inflow n) = (n \<le> 0 \<or> row_get inflow_block_height (reward_pool_inflows d) h \<noteq> None)"
| "settled h d (StakeChange ty assign a n x note) =
     (get_staker d a \<noteq> None \<and> (\<forall>key. kind_key (StakeChange ty assign a n x note) = Some key \<longrightarrow> key \<in> event_keys d))"

text \<open>\<open>grows d d'\<close>: \<open>d'\<close> has every account, event and inflow of \<open>d\<close>.\<close>

definition grows :: "db \<Rightarrow> db \<Rightarrow> bool" where
  "grows d d' \<longleftrightarrow> event_keys d \<subseteq> event_keys d' \<and>
     (\<forall>a. get_staker d a \<noteq> None \<longrightarrow> get_staker d' a \<noteq> None) \<and>
     (\<forall>h. row_get inflow_block_height (reward_pool_inflows d) h \<noteq> None \<longrightarrow>
        row_get inflow_block_height (reward_pool_inflows d') h \<noteq> None)"

lemma grows_refl [simp]: "grows d d" by (simp add: grows_def)

lemma grows_trans: "grows d d' \<Longrightarrow> grows d' d'' \<Longrightarrow> grows d d''"
  unfolding grows_def by blast

lemma settled_grows: "settled h d k \<Longrightarrow> grows d d' \<Longrightarrow> settled h d' k"
  by (cases k) (auto simp: grows_def)

definition in_step :: "session \<Rightarrow> bool" where
  "in_step s \<longleftrightarrow> keep_sequences (working s) (committed s) = committed s"

lemma in_step_begin [simp]: "in_step (begin_session t d)"
  by (simp add: in_step_def keep_sequences_def)

lemma in_step_back:
  "in_step s \<Longrightarrow> committed (rolled_back s) = committed s \<and> working (rolled_back s) = committed s \<and>
     in_step (rolled_back s)"
  by (simp add: in_step_def rolled_back_def keep_sequences_def)

lemma in_step_work:
  "in_step s \<Longrightarrow> next_request_id d = next_request_id (working s) \<Longrightarrow>
   next_payout_id d = next_payout_id (working s) \<Longrightarrow> in_step (s\<lparr>working := d\<rparr>)"
  by (simp add: in_step_def keep_sequences_def)

text \<open>The outcomes of a step: an error, a roll back to what is committed, or growth.\<close>

definition step_outcome :: "int \<Rightarrow> tx_kind \<Rightarrow> session \<Rightarrow> unit res \<Rightarrow> session \<Rightarrow> bool" where
  "step_outcome h k s r s' \<longleftrightarrow> committed s' = committed s \<and> in_step s' \<and>
     (\<forall>u. r = Inr u \<longrightarrow>
        (if clashes k (working s) then working s' = committed s
         else grows (working s) (working s') \<and> settled h (working s') k \<and>
           event_keys (working s') = event_keys (working s) \<union> set_option (kind_key k) \<and>
           (settled h (working s) k \<longrightarrow> working s' = working s)))"

lemma step_outcome_error: "in_step s \<Longrightarrow> step_outcome h k s (Inl e) s"
  and step_outcome_error_back: "in_step s \<Longrightarrow> step_outcome h k s (Inl e) (rolled_back s)"
  by (simp_all add: step_outcome_def in_step_back)

lemma get_staker_None_iff: "get_staker d a = None \<longleftrightarrow> a \<notin> staker_address ` set (stakers d)"
  by (simp add: get_staker_def row_get_None_iff)

lemma pool_effect_grows:
  "grows d (pool_effect n h d)" "event_keys (pool_effect n h d) = event_keys d"
  "row_get inflow_block_height (reward_pool_inflows (pool_effect n h d)) h \<noteq> None"
  by (auto simp: grows_def event_keys_def get_staker_def pool_effect_def Let_def row_get_insert
      split: option.split)

lemma pool_outcome:
  assumes step: "in_step s" and run: "credit_validator_rewards_pool n h s = (r, s')"
  shows "step_outcome h (Inflow n) s r s'"
proof -
  have no_clash: "\<not> clashes (Inflow n) d" for d by (simp add: clashes_def)
  from credit_validator_rewards_pool_cases [OF run] show ?thesis
  proof (elim disjE exE conjE)
    assume eff: "s' = s\<lparr>working := pool_effect n h (working s)\<rparr>" and n: "0 < n"
      and new: "row_get inflow_block_height (reward_pool_inflows (working s)) h = None"
    have "in_step s'" unfolding eff using step by (rule in_step_work) simp_all
    with eff n new pool_effect_grows show ?thesis by (simp add: step_outcome_def no_clash)
  qed (use step no_clash in \<open>auto simp: step_outcome_def in_step_back\<close>)
qed

lemma new_account_grows:
  "grows d (d\<lparr>stakers := row_insert st (stakers d)\<rparr>)"
  "event_keys (d\<lparr>stakers := sts\<rparr>) = event_keys d"
  by (auto simp: grows_def event_keys_def get_staker_None_iff)

lemma new_event_grows:
  "grows d (put_staker st (d\<lparr>stake_events := row_insert e (stake_events d)\<rparr>))"
  "event_keys (put_staker st (d\<lparr>stake_events := row_insert e (stake_events d)\<rparr>)) =
     event_keys d \<union> {event_key e}"
  by (auto simp: grows_def event_keys_def get_staker_None_iff)

text \<open>The account is found or created; then the event is recorded.\<close>

lemma get_or_create_outcome:
  assumes step: "in_step s" and run: "get_or_create_staker a s = (r, s')"
  shows "committed s' = committed s \<and> in_step s' \<and>
    (\<forall>st. r = Inr st \<longrightarrow> grows (working s) (working s') \<and> event_keys (working s') = event_keys (working s) \<and>
       get_staker (working s') a \<noteq> None \<and> (get_staker (working s) a \<noteq> None \<longrightarrow> working s' = working s))"
proof (cases "get_staker (working s) a")
  case (Some st)
  with run step show ?thesis by (auto simp: get_or_create_staker_run)
next
  case None
  show ?thesis
  proof (cases "staker_columns (new_staker a)")
    case True
    let ?d = "(working s)\<lparr>stakers := row_insert (new_staker a) (stakers (working s))\<rparr>"
    have "in_step (s\<lparr>working := ?d\<rparr>)" using step by (rule in_step_work) simp_all
    with run True None show ?thesis
      by (auto simp: get_or_create_staker_run new_account_grows get_staker_None_iff)
  next
    case False
    with run None step show ?thesis by (auto simp: get_or_create_staker_run in_step_back)
  qed
qed

lemma stake_outcome:
  assumes step: "in_step s" and run: "run_kind h (StakeChange ty assign a n x note) s = (r, s')"
  shows "step_outcome h (StakeChange ty assign a n x note) s r s'"
proof -
  let ?k = "StakeChange ty assign a n x note"
  let ?tail = "\<lambda>st. bind (record_event a ty n h x note)
    (\<lambda>inserted. if inserted then write_staker (assign st) else return ())"
  obtain r1 s1 where g: "get_or_create_staker a s = (r1, s1)" by fastforce
  note create = get_or_create_outcome [OF step g]
  show ?thesis
  proof (cases r1)
    case (Inl e)
    with run g create show ?thesis by (auto simp: bind_def step_outcome_def)
  next
    case (Inr st)
    with run g have tail: "?tail st s1 = (r, s')" by (simp add: bind_def)
    have s1: "committed s1 = committed s" "in_step s1" "grows (working s) (working s1)"
      "event_keys (working s1) = event_keys (working s)" "get_staker (working s1) a \<noteq> None"
      "get_staker (working s) a \<noteq> None \<longrightarrow> working s1 = working s"
      using create Inr by auto
    show ?thesis
    proof (cases "hash_column x")
      case (Inl e)
      with tail s1 show ?thesis by (auto simp: bind_def record_event_run step_outcome_def)
    next
      case hash: (Inr txh)
      show ?thesis
      proof (cases txh)
        case None
        then have "kind_key ?k = None" using hash by (cases x) auto
        moreover from tail hash None have "r = Inr ()" "s' = s1"
          by (simp_all add: bind_def record_event_run return_exec)
        ultimately show ?thesis using s1 by (simp add: step_outcome_def clashes_def)
      next
        case (Some y)
        define e where "e = \<lparr>event_address = a, event_type = ty, event_amount = n,
          event_block_height = h, event_tx_hash = Some y, event_note = Some note\<rparr>"
        have key: "kind_key ?k = Some (event_key e)"
          using hash Some by (cases x) (auto simp: e_def event_key_def)
        have clash: "event_clash e (working s1) \<longleftrightarrow> clashes ?k (working s)"
          using s1(4) key by (simp add: event_clash_def clashes_def event_keys_def e_def)
        have rec: "record_event a ty n h x note s1 =
           (if \<not> event_columns e then (Inl DataError, rolled_back s1)
            else if event_clash e (working s1) then (Inr False, rolled_back (rolled_back s1))
            else (Inr True, s1\<lparr>working := (working s1)\<lparr>
                    stake_events := row_insert e (stake_events (working s1))\<rparr>\<rparr>))"
          unfolding record_event_run hash Some e_def Let_def by simp
        note undo = in_step_back [OF s1(2)] in_step_back [of "rolled_back s1"]
        consider "\<not> event_columns e" | "event_columns e" "clashes ?k (working s)"
          | "event_columns e" "\<not> clashes ?k (working s)" "\<not> staker_columns (assign st)"
          | "event_columns e" "\<not> clashes ?k (working s)" "staker_columns (assign st)" by blast
        then show ?thesis
        proof cases
          case 1
          with tail rec undo s1 show ?thesis by (auto simp: bind_def step_outcome_def)
        next
          case 2
          with tail rec clash undo s1 show ?thesis by (auto simp: bind_def step_outcome_def return_exec)
        next
          case 3
          with tail rec clash undo s1 show ?thesis
            by (auto simp: bind_def step_outcome_def write_staker_run rolled_back_pending)
        next
          case 4
          let ?d = "put_staker (assign st) ((working s1)\<lparr>stake_events := row_insert e (stake_events (working s1))\<rparr>)"
          have s': "r = Inr ()" "s' = s1\<lparr>working := ?d\<rparr>"
            using 4 tail rec clash by (simp_all add: bind_def write_staker_run)
          have "in_step s'" unfolding s'(2) using s1(2) by (rule in_step_work) simp_all
          moreover have "grows (working s) ?d"
            using s1(3) new_event_grows(1) by (rule grows_trans)
          moreover have "get_staker ?d a \<noteq> None" using s1(5) by (simp add: get_staker_None_iff)
          moreover have "event_keys ?d = event_keys (working s) \<union> {event_key e}"
            using s1(4) by (simp add: new_event_grows(2))
          ultimately show ?thesis using s' s1(1) 4(2) key
            by (auto simp: step_outcome_def clashes_def)
        qed
      qed
    qed
  qed
qed

lemma run_kind_outcome:
  assumes "in_step s" "run_kind h k s = (r, s')"
  shows "step_outcome h k s r s'"
proof (cases k)
  case (StakeChange ty assign a n x why)
  with assms stake_outcome show ?thesis by simp
next
  case (Inflow n)
  with assms pool_outcome show ?thesis by simp
next
  case (Raises e)
  with assms show ?thesis by (auto simp: raise_exec step_outcome_def)
next
  case Skipped
  with assms show ?thesis by (auto simp: return_exec step_outcome_def clashes_def)
qed

section \<open>A block applied twice\<close>

text \<open>
  The keys of the recorded events along a run that ends without an error: a clash resets them to
  those of the committed events \<open>C\<close>.
\<close>

definition key_clash :: "tx_kind \<Rightarrow> (string \<times> string option \<times> string) set \<Rightarrow> bool" where
  "key_clash k E \<longleftrightarrow> set_option (kind_key k) \<inter> E \<noteq> {}"

fun run_keys :: "(string \<times> string option \<times> string) set \<Rightarrow> tx_kind list \<Rightarrow>
    (string \<times> string option \<times> string) set" where
  "run_keys C [] = C"
| "run_keys C (k # ks) = (if key_clash k (run_keys C ks) then C else run_keys C ks \<union> set_option (kind_key k))"

lemma clashes_iff: "clashes k d \<longleftrightarrow> key_clash k (event_keys d)"
  by (cases "kind_key k") (auto simp: clashes_def key_clash_def)

lemma run_outcome:
  assumes "for_each (run_kind h) ks s = (Inr (), s')" "in_step s" "working s = committed s"
  shows "committed s' = committed s \<and> in_step s' \<and> grows (committed s) (working s') \<and>
    event_keys (working s') = run_keys (event_keys (committed s)) (rev ks)"
  using assms(1)
proof (induction ks arbitrary: s' rule: rev_induct)
  case Nil
  with assms(2,3) show ?case by (simp add: return_exec)
next
  case (snoc k ks)
  then obtain s1 where s1: "for_each (run_kind h) ks s = (Inr (), s1)" "run_kind h k s1 = (Inr (), s')"
    by (auto simp: for_each_snoc_Inr)
  note IH = snoc.IH [OF s1(1)]
  with s1(2) run_kind_outcome have "step_outcome h k s1 (Inr ()) s'" by blast
  with IH grows_trans show ?case
    by (auto simp: step_outcome_def clashes_iff split: if_splits)
qed

text \<open>The transactions after the last clash: all of them are settled in the end.\<close>

lemma run_suffix:
  assumes "for_each (run_kind h) ks s = (Inr (), s')" "in_step s" "working s = committed s"
  shows "\<exists>pre suf. ks = pre @ suf \<and>
    (pre = [] \<or> (\<exists>p k. pre = p @ [k] \<and> key_clash k (run_keys (event_keys (committed s)) (rev p)))) \<and>
    (\<forall>k \<in> set suf. settled h (working s') k) \<and>
    event_keys (working s') = event_keys (committed s) \<union> (\<Union>k \<in> set suf. set_option (kind_key k))"
  using assms(1)
proof (induction ks arbitrary: s' rule: rev_induct)
  case Nil
  with assms(3) show ?case by (simp add: return_exec)
next
  case (snoc k ks)
  then obtain s1 where s1: "for_each (run_kind h) ks s = (Inr (), s1)" "run_kind h k s1 = (Inr (), s')"
    by (auto simp: for_each_snoc_Inr)
  note run1 = run_outcome [OF s1(1) assms(2,3)]
  with s1(2) run_kind_outcome have out: "step_outcome h k s1 (Inr ()) s'" by blast
  show ?case
  proof (cases "clashes k (working s1)")
    case True
    with out run1 have "working s' = committed s" by (simp add: step_outcome_def)
    moreover have "key_clash k (run_keys (event_keys (committed s)) (rev ks))"
      using True run1 by (simp add: clashes_iff)
    ultimately show ?thesis by (intro exI [of _ "ks @ [k]"] exI [of _ "[]"]) auto
  next
    case False
    obtain pre suf where IH: "ks = pre @ suf"
      "pre = [] \<or> (\<exists>p k. pre = p @ [k] \<and> key_clash k (run_keys (event_keys (committed s)) (rev p)))"
      "\<forall>k \<in> set suf. settled h (working s1) k"
      "event_keys (working s1) = event_keys (committed s) \<union> (\<Union>k \<in> set suf. set_option (kind_key k))"
      using snoc.IH [OF s1(1)] by blast
    have step: "grows (working s1) (working s')" "settled h (working s') k"
      "event_keys (working s') = event_keys (working s1) \<union> set_option (kind_key k)"
      using out False by (auto simp: step_outcome_def)
    show ?thesis
    proof (intro exI conjI)
      show "ks @ [k] = pre @ (suf @ [k])" using IH(1) by simp
      show "\<forall>k' \<in> set (suf @ [k]). settled h (working s') k'"
        using IH(3) step(1,2) settled_grows by auto
      show "event_keys (working s') =
          event_keys (committed s) \<union> (\<Union>k' \<in> set (suf @ [k]). set_option (kind_key k'))"
        using IH(4) step(3) by auto
    qed (rule IH(2))
  qed
qed

text \<open>Transactions that are settled in the committed database end there, or change nothing.\<close>

lemma run_settled:
  assumes "for_each (run_kind h) ks s = (Inr (), s')" "in_step s" "grows (committed s) (working s)"
    and "\<forall>k \<in> set ks. settled h (committed s) k"
  shows "committed s' = committed s \<and> in_step s' \<and> grows (committed s) (working s') \<and>
    working s' = (if \<exists>k \<in> set ks. kind_key k \<noteq> None then committed s else working s)"
  using assms(1,4)
proof (induction ks arbitrary: s' rule: rev_induct)
  case Nil
  with assms(2,3) show ?case by (simp add: return_exec)
next
  case (snoc k ks)
  then obtain s1 where s1: "for_each (run_kind h) ks s = (Inr (), s1)" "run_kind h k s1 = (Inr (), s')"
    by (auto simp: for_each_snoc_Inr)
  have IH: "committed s1 = committed s" "in_step s1" "grows (committed s) (working s1)"
    "working s1 = (if \<exists>k \<in> set ks. kind_key k \<noteq> None then committed s else working s)"
    using snoc.IH [OF s1(1)] snoc.prems(2) by auto
  have out: "step_outcome h k s1 (Inr ()) s'" using s1(2) IH(2) by (rule run_kind_outcome [rotated])
  have known: "settled h (committed s) k" "settled h (working s1) k"
    using snoc.prems(2) IH(3) settled_grows by auto
  show ?case
  proof (cases "kind_key k")
    case None
    then have "\<not> clashes k (working s1)" by (simp add: clashes_def)
    with out known(2) have "working s' = working s1" by (auto simp: step_outcome_def)
    with out IH None show ?thesis by (auto simp: step_outcome_def)
  next
    case (Some key)
    with known(2) have "key \<in> event_keys (working s1)" by (cases k; cases key) auto
    with Some have "clashes k (working s1)" by (simp add: clashes_def)
    with out IH Some show ?thesis by (cases key) (auto simp: step_outcome_def)
  qed
qed

lemma run_twice:
  assumes first: "for_each (run_kind h) ks (begin_session t d) = (Inr (), s1)"
    and second: "for_each (run_kind h) ks (begin_session t' (working s1)) = (Inr (), s2)"
  shows "working s2 = working s1"
proof -
  let ?d1 = "working s1"
  obtain pre suf where split: "ks = pre @ suf"
    and pre: "pre = [] \<or> (\<exists>p k. pre = p @ [k] \<and> key_clash k (run_keys (event_keys d) (rev p)))"
    and suf: "\<forall>k \<in> set suf. settled h ?d1 k"
    and keys: "event_keys ?d1 = event_keys d \<union> (\<Union>k \<in> set suf. set_option (kind_key k))"
    using run_suffix [OF first] by auto
  obtain s where s: "for_each (run_kind h) pre (begin_session t' ?d1) = (Inr (), s)"
      "for_each (run_kind h) suf s = (Inr (), s2)"
    using second unfolding split for_each_append by (auto simp: bind_eq_Inr)
  note mid = run_outcome [OF s(1)]
  note final = run_settled [OF s(2)]
  show ?thesis
  proof (cases "\<exists>k \<in> set suf. kind_key k \<noteq> None")
    case True
    with mid final suf show ?thesis by simp
  next
    case False
    then have same: "event_keys ?d1 = event_keys d" using keys by auto
    have "working s = ?d1"
    proof (cases "pre = []")
      case True
      with s(1) show ?thesis by (auto simp: return_exec)
    next
      case False
      then obtain p k where p: "pre = p @ [k]" "key_clash k (run_keys (event_keys d) (rev p))"
        using pre by blast
      obtain s0 where s0: "for_each (run_kind h) p (begin_session t' ?d1) = (Inr (), s0)"
          "run_kind h k s0 = (Inr (), s)"
        using s(1) by (auto simp: p(1) for_each_snoc_Inr)
      note before = run_outcome [OF s0(1)]
      then have "clashes k (working s0)" using p(2) same by (simp add: clashes_iff)
      moreover have "step_outcome h k s0 (Inr ()) s" using s0(2) before by (simp add: run_kind_outcome)
      ultimately show ?thesis using before by (simp add: step_outcome_def)
    qed
    with False mid final suf show ?thesis by simp
  qed
qed

text \<open>A run depends on the two databases of its session only: not on the clock or the epoch.\<close>

definition same_db :: "session \<Rightarrow> session \<Rightarrow> bool" where
  "same_db s s' \<longleftrightarrow> working s = working s' \<and> committed s = committed s'"

definition db_only :: "(session, 'a) exec \<Rightarrow> bool" where
  "db_only m \<longleftrightarrow> (\<forall>s s'. same_db s s' \<longrightarrow> fst (m s) = fst (m s') \<and> same_db (snd (m s)) (snd (m s')))"

named_theorems db_only_intros

lemma db_onlyE:
  assumes "db_only m" "same_db s s'" "m s = (r, s1)"
  obtains s1' where "m s' = (r, s1')" "same_db s1 s1'"
  using assms unfolding db_only_def by (metis fst_conv snd_conv prod.exhaust)

lemma db_only_basic [db_only_intros]:
  "db_only (return a)" "db_only (raise e)" "db_only (lift r)"
  "db_only (gets (\<lambda>s. f (working s)))" "db_only (update_db g)" "db_only rollback"
  by (simp_all add: db_only_def same_db_def return_exec raise_exec lift_exec gets_exec update_db_def
      rollback_def modify_exec rolled_back_def)

lemma db_only_bind [db_only_intros]:
  assumes "db_only m" "\<And>a. db_only (f a)"
  shows "db_only (bind m f)"
  unfolding db_only_def
proof (intro allI impI)
  fix s s' assume same: "same_db s s'"
  obtain r s1 where m: "m s = (r, s1)" by fastforce
  with assms(1) same obtain s1' where m': "m s' = (r, s1')" "same_db s1 s1'" by (rule db_onlyE)
  show "fst (bind m f s) = fst (bind m f s') \<and> same_db (snd (bind m f s)) (snd (bind m f s'))"
  proof (cases r)
    case (Inr a)
    with assms(2) [of a] m m' show ?thesis by (simp add: bind_def db_only_def)
  qed (use m m' in \<open>simp add: bind_def\<close>)
qed

lemma db_only_catch [db_only_intros]:
  assumes "db_only m" "\<And>e. db_only (f e)"
  shows "db_only (catch m f)"
  unfolding db_only_def
proof (intro allI impI)
  fix s s' assume same: "same_db s s'"
  obtain r s1 where m: "m s = (r, s1)" by fastforce
  with assms(1) same obtain s1' where m': "m s' = (r, s1')" "same_db s1 s1'" by (rule db_onlyE)
  show "fst (catch m f s) = fst (catch m f s') \<and> same_db (snd (catch m f s)) (snd (catch m f s'))"
  proof (cases r)
    case (Inl e)
    with assms(2) [of e] m m' show ?thesis by (simp add: catch_def db_only_def)
  qed (use m m' in \<open>simp add: catch_def\<close>)
qed

lemma db_only_cases [db_only_intros]:
  "db_only m \<Longrightarrow> db_only m' \<Longrightarrow> db_only (if b then m else m')"
  "db_only m \<Longrightarrow> (\<And>a. db_only (f a)) \<Longrightarrow> db_only (case x of None \<Rightarrow> m | Some a \<Rightarrow> f a)"
  "(\<And>a b. db_only (g a b)) \<Longrightarrow> db_only (case y of (a, b) \<Rightarrow> g a b)"
  by (simp_all split: option.split prod.split)

lemma db_only_distribute [db_only_intros]: "db_only (distribute n tot h sts x y)"
  by (induction sts arbitrary: x y)
    (auto simp: Let_def credit_reward_def write_reward_def insert_reward_def flush_unless_def intro!: db_only_intros)

lemma db_only_run_kind: "db_only (run_kind h k)"
  by (cases k) (auto simp: get_or_create_staker_def record_event_def credit_validator_rewards_pool_def
      get_active_stakers_def Let_def write_staker_def insert_staker_def insert_event_def insert_inflow_def
      flush_unless_def intro!: db_only_intros)

lemma db_only_run: "db_only (for_each (run_kind h) ks)"
  by (induction ks) (auto intro!: db_only_intros db_only_run_kind)

lemma run_any_clock:
  "fst (for_each (run_kind h) ks (begin_session t d)) = fst (for_each (run_kind h) ks (begin_session t' d))"
  using db_only_run unfolding db_only_def by (simp add: same_db_def)

text \<open>The session around a run commits what it worked on, or nothing.\<close>

lemma run_in_step:
  "in_step s \<Longrightarrow> in_step (snd (for_each (run_kind h) ks s)) \<and>
     committed (snd (for_each (run_kind h) ks s)) = committed s"
proof (induction ks arbitrary: s)
  case (Cons k ks)
  obtain r s1 where k: "run_kind h k s = (r, s1)" by fastforce
  with run_kind_outcome [OF Cons.prems] have "in_step s1" "committed s1 = committed s"
    by (auto simp: step_outcome_def)
  with Cons.IH [of s1] k show ?case by (cases r) (simp_all add: bind_def)
qed (simp add: return_exec)

lemma session_scope_run:
  "snd (session_scope (for_each (run_kind h) ks) t d) =
     (case for_each (run_kind h) ks (begin_session t d) of
        (Inl e, s) \<Rightarrow> d | (Inr u, s) \<Rightarrow> working s)"
proof -
  obtain r s where run: "for_each (run_kind h) ks (begin_session t d) = (r, s)" by fastforce
  with run_in_step [of "begin_session t d" h ks] have "in_step s" "committed s = d" by simp_all
  with run show ?thesis
    by (cases r) (simp_all add: session_scope_def bind_def commit_def modify_exec return_exec in_step_back)
qed

text \<open>A block is one run, or raises, or has nothing to do.\<close>

lemma bind_lift_cases: "bind (lift r) f = (case r of Inl e \<Rightarrow> raise e | Inr a \<Rightarrow> f a)"
  by (intro ext) (simp add: bind_def lift_exec raise_exec split: sum.split)

lemma for_each_map: "for_each f (map g xs) = for_each (\<lambda>x. f (g x)) xs"
  by (induction xs) simp_all

lemma apply_block_kinds:
  obtains e where "apply_block_transactions blk = raise e"
  | h ks where "apply_block_transactions blk = for_each (run_kind h) ks"
proof -
  have "\<exists>ks. for_each (\<lambda>tx. apply_single_tx tx h) ts = for_each (run_kind h) ks" for h ts
  proof -
    obtain K where "\<And>tx. apply_single_tx tx h = run_kind h (K tx)"
      using choice [of "\<lambda>tx k. apply_single_tx tx h = run_kind h k"] apply_single_tx_kind by blast
    then have "for_each (\<lambda>tx. apply_single_tx tx h) ts = for_each (run_kind h) (map K ts)"
      by (simp add: for_each_map)
    then show ?thesis by blast
  qed
  moreover have "\<exists>ks. return () = for_each (run_kind 0) ks" by (rule exI [of _ "[]"]) simp
  ultimately have "(\<exists>e. apply_block_transactions blk = raise e) \<or>
      (\<exists>h ks. apply_block_transactions blk = for_each (run_kind h) ks)"
    unfolding apply_block_transactions_def bind_lift_cases Let_def
    by (simp split: sum.split) blast
  then show ?thesis using that by blast
qed

text \<open>
  C7. A block is applied once. Applying a block a second time, in a later session, leaves the
  database exactly as the first time left it, whatever its transactions are, and also when
  either session raises.
\<close>

theorem block_is_idempotent:
  "snd (session_scope (apply_block_transactions blk) t'
     (snd (session_scope (apply_block_transactions blk) t d)))
   = snd (session_scope (apply_block_transactions blk) t d)"
proof -
  let ?run = "\<lambda>t d. session_scope (apply_block_transactions blk) t d"
  show ?thesis
  proof (cases rule: apply_block_kinds [of blk])
    case (1 e)
    then show ?thesis
      by (simp add: session_scope_def bind_def raise_exec in_step_back)
  next
    case (2 h ks)
    have scope: "snd (?run t d) = (case for_each (run_kind h) ks (begin_session t d) of
        (Inl e, s) \<Rightarrow> d | (Inr u, s) \<Rightarrow> working s)" for t d
      unfolding 2 by (rule session_scope_run)
    obtain r1 s1 where first: "for_each (run_kind h) ks (begin_session t d) = (r1, s1)" by fastforce
    obtain r2 s2 where second: "for_each (run_kind h) ks (begin_session t' (snd (?run t d))) = (r2, s2)"
      by fastforce
    show ?thesis
    proof (cases r1)
      case (Inl e)
      with first second run_any_clock [of h ks t' d t] have "isl r2" by (simp add: scope)
      with first second Inl show ?thesis by (cases r2) (simp_all add: scope)
    next
      case (Inr u)
      with first scope have d1: "snd (?run t d) = working s1" by simp
      with first second Inr run_twice [of h ks t d s1 t' s2] show ?thesis
        by (cases r2) (simp_all add: scope)
    qed
  qed
qed

section \<open>A block with a transaction that is already recorded\<close>

definition block_of :: "int \<Rightarrow> json list \<Rightarrow> json" where
  "block_of h txs = JObj [(''height'', JInt h), (''transactions'', JArr txs)]"

lemma apply_block_of:
  "apply_block_transactions (block_of h txs) = for_each (\<lambda>tx. apply_single_tx tx h) txs"
  by (cases txs) (simp_all add: apply_block_transactions_def block_of_def bind_lift_cases py_or_def Let_def)

text \<open>
  C8. A recorded transaction undoes what came before it. When a block holds a stake transaction
  whose event is already recorded, and its session commits, the result is that of the
  transactions after it alone: the stakes, refunds and inflows before it in the same block are
  lost, although the block counts as processed.
\<close>

theorem recorded_transaction_undoes_earlier:
  assumes commits: "fst (session_scope (apply_block_transactions (block_of h (xs @ tx # ys))) t d) = Inr ()"
    and event: "apply_single_tx tx h = apply_stake_event ty assign (JStr a) n h (JStr x) note1"
    and recorded: "(a, Some x, ty) \<in> event_key ` set (stake_events d)"
  shows "snd (session_scope (apply_block_transactions (block_of h (xs @ tx # ys))) t d) =
    snd (session_scope (apply_block_transactions (block_of h ys)) t d)"
proof -
  obtain K where K: "\<And>tx. apply_single_tx tx h = run_kind h (K tx)"
    using choice [of "\<lambda>tx k. apply_single_tx tx h = run_kind h k"] apply_single_tx_kind by blast
  let ?k = "StakeChange ty assign a n (JStr x) note1"
  have tx: "run_kind h (K tx) = run_kind h ?k"
    using event by (simp add: K [symmetric] apply_stake_event_def bind_lift_cases)
  have blk: "apply_block_transactions (block_of h zs) = for_each (run_kind h) (map K zs)" for zs
    by (simp add: apply_block_of K for_each_map)
  have split: "apply_block_transactions (block_of h (xs @ tx # ys)) =
      andthen (for_each (run_kind h) (map K xs))
        (andthen (run_kind h ?k) (for_each (run_kind h) (map K ys)))"
    by (simp add: apply_block_of for_each_append K for_each_map tx)
  obtain r s' where run: "apply_block_transactions (block_of h (xs @ tx # ys)) (begin_session t d) = (r, s')"
    by fastforce
  with commits have r: "r = Inr ()"
    by (cases r) (auto simp: session_scope_def bind_def)
  with run obtain s1 s2 where s1: "for_each (run_kind h) (map K xs) (begin_session t d) = (Inr (), s1)"
      and s2: "run_kind h ?k s1 = (Inr (), s2)"
      and s3: "for_each (run_kind h) (map K ys) s2 = (Inr (), s')"
    unfolding split by (auto simp: bind_eq_Inr)
  note before = run_outcome [OF s1]
  then have "grows d (working s1)" by simp
  then have "event_keys d \<subseteq> event_keys (working s1)" unfolding grows_def by (rule conjunct1)
  with recorded have "clashes ?k (working s1)" by (auto simp: clashes_def event_keys_def)
  moreover have "step_outcome h ?k s1 (Inr ()) s2" using s2 before by (simp add: run_kind_outcome)
  ultimately have "same_db s2 (begin_session t d)"
    using before by (simp add: step_outcome_def same_db_def)
  then obtain s3' where s3': "for_each (run_kind h) (map K ys) (begin_session t d) = (Inr (), s3')"
      "same_db s' s3'"
    by (rule db_onlyE [OF db_only_run _ s3])
  have "snd (session_scope (apply_block_transactions (block_of h (xs @ tx # ys))) t d) = working s'"
    using run r by (simp add: session_scope_def bind_def commit_def modify_exec return_exec)
  moreover have "snd (session_scope (apply_block_transactions (block_of h ys)) t d) = working s3'"
    using s3'(1) by (simp add: blk session_scope_def bind_def commit_def modify_exec return_exec)
  ultimately show ?thesis using s3'(2) by (simp add: same_db_def)
qed

end
