(* ===== verification/Rewards.thy ===== *)
theory Rewards
  imports Blocks
begin

text \<open>
  How one inflow of the validator rewards pool is divided, and what becomes of a second one in
  the same block.
\<close>

section \<open>The rows after the distribution\<close>

definition pending_in :: "string \<Rightarrow> ValidatorReward list \<Rightarrow> int" where
  "pending_in a rewards = (case row_get reward_address rewards a of None \<Rightarrow> 0 | Some r \<Rightarrow> pending_rewards r)"

definition pending_of :: "string \<Rightarrow> db \<Rightarrow> int" where
  "pending_of a d = pending_in a (validator_rewards d)"

lemma pending_in_credit_row:
  "pending_in a (credit_row b x h rewards) = pending_in a rewards + (if a = b then x else 0)"
  by (auto simp: pending_in_def credit_row_def row_get_insert row_get_put split: option.splits
      dest: row_get_key)

lemma pending_in_credit_rows:
  assumes "\<forall>st \<in> set sts. 0 \<le> reward_share n tot st" and "distinct (map staker_address sts)"
  shows "pending_in a (credit_rows n tot h sts rewards) = pending_in a rewards +
    (case row_get staker_address sts a of None \<Rightarrow> 0 | Some st \<Rightarrow> reward_share n tot st)"
  using assms
proof (induction n tot h sts rewards rule: credit_rows.induct)
  case (2 n tot h st sts rewards)
  then have "row_get staker_address sts (staker_address st) = None" by (simp add: row_get_None_iff)
  with 2 show ?case by (auto simp: Let_def pending_in_credit_row row_get_Cons)
qed simp

lemma row_get_filter:
  assumes "distinct (map key rows)"
  shows "row_get key (filter P rows) k =
    (case row_get key rows k of None \<Rightarrow> None | Some r \<Rightarrow> if P r then Some r else None)"
  using assms
proof (induction rows)
  case (Cons r rows)
  then have "row_get key rows (key r) = None" by (simp add: row_get_None_iff)
  with Cons show ?case by (auto simp: row_get_Cons split: option.split)
qed simp

lemma pending_of_pool_effect:
  assumes keys: "distinct (map staker_address (stakers d))" and n: "0 < n" and pos: "0 \<le> stake_of a d"
  shows "pending_of a (pool_effect n h d) = pending_of a d + n * stake_of a d div total_active_stake d"
proof (cases "total_active_stake d = 0")
  case False
  then have T: "0 < total_active_stake d" using total_active_nonneg [of d] by simp
  have "0 \<le> reward_share n (total_active_stake d) st" if "st \<in> set (active_stakers d)" for st
    using that T n active_stakers_pos [OF that] by (intro reward_share_nonneg) simp_all
  moreover have "distinct (map staker_address (active_stakers d))"
    unfolding active_stakers_def using keys by (rule distinct_map_filter)
  ultimately have "pending_of a (pool_effect n h d) = pending_of a d +
      (case row_get staker_address (active_stakers d) a of
         None \<Rightarrow> 0 | Some st \<Rightarrow> reward_share n (total_active_stake d) st)"
    using False by (simp add: pending_of_def pool_effect_def Let_def pending_in_credit_rows)
  also have "(case row_get staker_address (active_stakers d) a of
         None \<Rightarrow> 0 | Some st \<Rightarrow> reward_share n (total_active_stake d) st) =
      n * stake_of a d div total_active_stake d"
    using pos keys
    by (auto simp: active_stakers_def row_get_filter stake_of_def get_staker_def reward_share_def
        split: option.split)
  finally show ?thesis .
qed (simp add: pending_of_def pool_effect_def Let_def)

section \<open>The properties\<close>

lemma session_scope_pool:
  assumes "session_scope (credit_validator_rewards_pool n h) t d = (Inr (), d')" and "0 < n"
    and "row_get inflow_block_height (reward_pool_inflows d) h = None"
  shows "d' = pool_effect n h d"
proof -
  obtain r s where run: "credit_validator_rewards_pool n h (begin_session t d) = (r, s)" by fastforce
  with assms(1) have "r = Inr ()" "d' = working s"
    by (auto simp: session_scope_def bind_def commit_def modify_exec return_exec split: sum.splits)
  with credit_validator_rewards_pool_cases [OF run] assms(2,3) show ?thesis by auto
qed

text \<open>
  C9. An inflow is shared by stake. The first inflow of a block, when its session commits, adds
  to the pending rewards of every address the floor of its share: the amount times its stake
  over the total active stake. The row recorded for the block holds the amount and what the
  shares leave over, which is less than one base unit per active staker.
\<close>

theorem pool_is_shared_by_stake:
  assumes "reachable s" and "0 < n"
    and "row_get inflow_block_height (reward_pool_inflows (database s)) h = None"
    and "session_scope (credit_validator_rewards_pool n h) t (database s) = (Inr (), d')"
  shows "(\<forall>a. pending_of a d' = pending_of a (database s) +
      n * stake_of a (database s) div total_active_stake (database s)) \<and>
    (\<exists>i \<in> set (reward_pool_inflows d'). inflow_block_height i = h \<and> inflow_amount i = n \<and>
      0 \<le> dust_remaining i \<and>
      (if total_active_stake (database s) = 0 then dust_remaining i = n
       else dust_remaining i < int (length (active_stakers (database s)))))"
proof -
  let ?d = "database s"
  have d': "d' = pool_effect n h ?d" using assms(4,2,3) by (rule session_scope_pool)
  have "distinct (map staker_address (stakers ?d))" "accounts_ok ?d"
    using reachable_ok [OF assms(1)] by (simp_all add: service_ok_def flow_ok_def wf_keys_def)
  moreover have "0 \<le> stake_of a ?d" for a
    using accounts_okD(3) [OF \<open>accounts_ok ?d\<close>, of a]
    by (auto simp: stake_of_def staker_ok_def split: option.split)
  ultimately have "\<forall>a. pending_of a d' = pending_of a ?d + n * stake_of a ?d div total_active_stake ?d"
    using assms(2) by (simp add: d' pending_of_pool_effect)
  moreover have "0 < total_active_stake ?d" if "total_active_stake ?d \<noteq> 0"
    using that total_active_nonneg [of ?d] by simp
  ultimately show ?thesis
    using assms(2) paid_shares_bounds [of n ?d] by (auto simp: d' pool_effect_def Let_def)
qed

lemma pool_is_shared_by_stake_witness:
  "pending_of ex_addr ex_rewarded = 7 * stake_of ex_addr ex_requested div total_active_stake ex_requested \<and>
   stake_of ex_addr ex_requested = 200 \<and> total_active_stake ex_requested = 200"
proof -
  have parts: "stake_of ex_addr ex_requested = 200" "total_active_stake ex_requested = 200"
    "pending_of ex_addr ex_requested = 0" "reward_pool_inflows ex_requested = []"
    by (simp_all add: stake_of_def get_staker_def total_active_stake_def active_stakers_def pending_of_def
        pending_in_def ex_states row_get_Cons) (simp_all add: ex_staker_def)
  have "session_scope (credit_validator_rewards_pool 7 10081) 0 ex_requested = (Inr (), ex_rewarded)"
    by (simp add: session_scope_def bind_def ex_credit_pool commit_def modify_exec return_exec)
  then show ?thesis
    using pool_is_shared_by_stake [OF ex_reachable(1), of 7 10081 0 ex_rewarded] parts
    by (simp add: ex_app_def)
qed

definition inflow_tx :: "int \<Rightarrow> json" where
  "inflow_tx n = JObj [(''type'', JStr ''transfer''), (''from'', JStr ''NPCminer''),
     (''to'', JStr VALIDATOR_REWARDS_ADDRESS), (''amount'', JInt n)]"

lemma inflow_tx_run: "apply_single_tx (inflow_tx n) h = credit_validator_rewards_pool n h"
proof -
  have "lower ''transfer'' = ''transfer''" by code_simp
  moreover have "canonicalize ''NPCminer'' = ''NPCminer''"
    "canonicalize VALIDATOR_REWARDS_ADDRESS = VALIDATOR_REWARDS_ADDRESS"
    by (simp_all add: canonicalize_def ADDRESS_MIGRATIONS_def startswith_def VALIDATOR_REWARDS_ADDRESS_def)
  ultimately show ?thesis
    by (simp add: apply_single_tx_def inflow_tx_def bind_lift_cases py_or_def Let_def
        credit_validator_rewards_pool_def)
qed




lemma recorded_transaction_undoes_earlier_witness:
  "snd (session_scope (apply_block_transactions (block_of 10081 [inflow_tx 7, ex_stake_tx])) 0 ex_requested)
     = ex_requested \<and>
   snd (session_scope (apply_block_transactions (block_of 10081 [inflow_tx 7])) 0 ex_requested) = ex_rewarded"
proof -
  let ?s = "begin_session 0 ex_requested"
  let ?s1 = "?s\<lparr>working := ex_rewarded\<rparr>"
  let ?e = "\<lparr>event_address = ex_addr, event_type = ''STAKE'', event_amount = 300,
    event_block_height = 10081, event_tx_hash = Some ''aa01'', event_note = Some ''transfer_to_escrow''\<rparr>"
  have known: "(ex_addr, Some ''aa01'', ''STAKE'') \<in> event_key ` set (stake_events ex_requested)"
    by (simp add: ex_states event_key_def) (simp add: ex_event_def)
  have acc: "get_or_create_staker ex_addr ?s1 = (Inr (ex_staker 200), ?s1)"
    by (simp add: get_or_create_staker_run ex_rewarded_def ex_states get_staker_def row_get_Cons)
      (simp add: ex_staker_def)
  have "event_columns ?e" by (simp add: columns_defs varchar_def big_integer_def sql_integer_def length_ex_addr)
  moreover have "event_clash ?e ex_rewarded"
    using known by (simp add: event_clash_def ex_rewarded_def event_key_def)
  ultimately have "record_event ex_addr ''STAKE'' 300 10081 (JStr ''aa01'') ''transfer_to_escrow'' ?s1 =
      (Inr False, rolled_back (rolled_back ?s1))"
    by (simp add: record_event_run)
  then have "apply_single_tx ex_stake_tx 10081 ?s1 = (Inr (), rolled_back (rolled_back ?s1))"
    by (simp add: ex_stake_tx_run apply_stake_event_def lift_exec bind_def acc return_exec)
  then have commits: "fst (session_scope (apply_block_transactions
      (block_of 10081 ([inflow_tx 7] @ ex_stake_tx # []))) 0 ex_requested) = Inr ()"
    by (simp add: apply_block_of inflow_tx_run session_scope_def bind_def ex_credit_pool commit_def
        modify_exec return_exec)
  have "snd (session_scope (apply_block_transactions (block_of 10081 [])) 0 ex_requested) = ex_requested"
    by (simp add: apply_block_of session_scope_def commit_def bind_def modify_exec return_exec)
  moreover have "apply_single_tx ex_stake_tx 10081 = apply_stake_event ''STAKE'' (staker_credit 300 10081)
      (JStr ex_addr) 300 10081 (JStr ''aa01'') ''transfer_to_escrow''" by (rule ex_stake_tx_run)
  ultimately show ?thesis
    using recorded_transaction_undoes_earlier [OF commits _ known]
    by (simp add: apply_block_of inflow_tx_run session_scope_def bind_def ex_credit_pool commit_def
        modify_exec return_exec)
qed

end
