(* ===== verification/Sessions.thy ===== *)
theory Sessions
  imports Blocks
begin

text \<open>
  What holds at every point of a session that processes a block, stated once as a locale over
  a predicate on sessions, and three uses of it: a session that fails leaves the tables as they
  were, a block's transactions leave the watcher's row alone, and so do the refunds.
\<close>

section \<open>Predicates that a session keeps\<close>

text \<open>
  A predicate that survives roll backs, every write that leaves the watcher's row and the payouts
  alone, and a payout that is added to the queue.
\<close>

definition fresh_payout :: "PendingPayout \<Rightarrow> bool" where
  "fresh_payout p \<longleftrightarrow> payout_status p = QUEUED \<and> attempts p = 0"

lemma fresh_new_payout [simp]: "fresh_payout (new_payout a n kind ref t i)"
  by (simp add: fresh_payout_def new_payout_def)

locale session_invariant =
  fixes P :: "session \<Rightarrow> bool"
  assumes rolls: "P s \<Longrightarrow> P (rolled_back s)"
    and writes: "P s \<Longrightarrow> watcher d = watcher (working s) \<Longrightarrow>
      pending_payouts d = pending_payouts (working s) \<Longrightarrow> P (s\<lparr>working := d\<rparr>)"
    and queues: "P s \<Longrightarrow> fresh_payout p \<Longrightarrow> P (s\<lparr>working :=
      (working s)\<lparr>pending_payouts := row_insert p (pending_payouts (working s))\<rparr>\<rparr>)"
begin

lemma keeps_rollback: "preserves P rollback"
  by (simp add: preserves_def rollback_run rolls)

lemma keeps_flush: "preserves P (flush_unless b e)"
  unfolding flush_unless_def by (intro preserves_intros keeps_rollback)

lemma keeps_update:
  "(\<And>d. watcher (f d) = watcher d \<and> pending_payouts (f d) = pending_payouts d) \<Longrightarrow> preserves P (update_db f)"
  by (simp add: preserves_def update_db_run writes)

lemma keeps_queue: "fresh_payout p \<Longrightarrow>
  preserves P (update_db (\<lambda>d. d\<lparr>pending_payouts := row_insert p (pending_payouts d)\<rparr>))"
  by (simp add: preserves_def update_db_run queues)

lemma keeps_loaded: "preserves P (loaded_attribute ep)"
  unfolding loaded_attribute_def by (intro preserves_intros)

lemma keeps_rows:
  "preserves P (write_staker st)" "preserves P (insert_staker st)" "preserves P (insert_event e)"
  "preserves P (write_request u)" "preserves P (insert_request mk)" "preserves P (write_reward r)"
  "preserves P (insert_reward r)" "preserves P (insert_inflow i)"
  unfolding write_staker_def insert_staker_def insert_event_def write_request_def insert_request_def
    write_reward_def insert_reward_def insert_inflow_def
  by (intro preserves_intros keeps_flush keeps_update; simp add: put_staker_def put_request_def put_reward_def)+

lemma preserves_bind_gets: "(\<And>s. preserves P (f (g s))) \<Longrightarrow> preserves P (bind (gets g) f)"
  by (simp add: preserves_def bind_gets)

lemma keeps_insert_payout: "(\<And>i. fresh_payout (mk i)) \<Longrightarrow> preserves P (insert_payout mk)"
  unfolding insert_payout_def
  by (rule preserves_bind_gets) (intro preserves_intros keeps_flush keeps_update keeps_queue; simp)

lemma keeps_enqueue: "preserves P (enqueue_payout a n kind ref)"
  unfolding enqueue_payout_def
  by (auto intro!: preserves_intros keeps_rollback keeps_insert_payout)

lemma keeps_distribute: "preserves P (distribute n tot h sts x y)"
proof (induction sts arbitrary: x y)
  case (Cons st sts)
  then show ?case
    by (auto simp: Let_def credit_reward_def intro!: preserves_intros keeps_rows)
qed (simp add: preserves_return)

lemma keeps_pool: "preserves P (credit_validator_rewards_pool n h)"
  unfolding credit_validator_rewards_pool_def get_active_stakers_def Let_def
  by (auto intro!: preserves_intros keeps_rows keeps_distribute)

lemma keeps_stake_event: "preserves P (apply_stake_event ty assign a n h x why)"
  unfolding apply_stake_event_def get_or_create_staker_def record_event_def
  by (auto intro!: preserves_intros keeps_rows keeps_rollback)

lemma keeps_apply_block: "preserves P (apply_block_transactions blk)"
  unfolding apply_block_transactions_def apply_single_tx_def Let_def
  by (auto intro!: preserves_intros keeps_pool keeps_stake_event)

lemma keeps_refunds: "preserves P (process_unlocked_unstakes h)"
  unfolding process_unlocked_unstakes_def process_unlocked_def
  by (auto intro!: preserves_intros keeps_rows keeps_enqueue keeps_loaded)

end

section \<open>A failed session changes no table\<close>

definition same_tables :: "db \<Rightarrow> db \<Rightarrow> bool" where
  "same_tables d d' \<longleftrightarrow> keep_sequences d' d = d'"

lemma same_tables_refl [simp]: "same_tables d d"
  by (simp add: same_tables_def keep_sequences_def)

lemma same_tables_trans: "same_tables d d' \<Longrightarrow> same_tables d' d'' \<Longrightarrow> same_tables d d''"
  unfolding same_tables_def keep_sequences_def by (cases d; cases d'; cases d'') simp

lemma same_tables_keep: "same_tables d (keep_sequences w c) = same_tables d c"
  unfolding same_tables_def keep_sequences_def by (cases d; cases w; cases c) auto

lemma same_tables_rolled_back [simp]: "same_tables d (committed (rolled_back s)) = same_tables d (committed s)"
  by (simp add: rolled_back_def same_tables_keep)

lemma same_tables_watcher: "same_tables d d' \<Longrightarrow> watcher d' = watcher d"
  by (cases d; cases d') (simp add: same_tables_def keep_sequences_def)

interpretation atomic: session_invariant "\<lambda>s. same_tables d (committed s)"
  by unfold_locales simp_all

lemma keeps_committed_watcher: "preserves (\<lambda>s. same_tables d (committed s)) (write_watcher w)"
  "preserves (\<lambda>s. same_tables d (committed s)) get_or_create_watcher_state"
proof -
  show *: "preserves (\<lambda>s. same_tables d (committed s)) (write_watcher w)" for w
    unfolding write_watcher_def
    by (intro preserves_intros atomic.keeps_flush) (simp add: preserves_def update_db_run)
  show "preserves (\<lambda>s. same_tables d (committed s)) get_or_create_watcher_state"
    unfolding get_or_create_watcher_state_def by (intro preserves_intros *)
qed

lemma session_scope_atomic:
  assumes "preserves (\<lambda>s. same_tables d (committed s)) m" and "session_scope m t d = (Inl e, d')"
  shows "same_tables d d'"
proof -
  obtain r s where m: "m (begin_session t d) = (r, s)" by fastforce
  have "same_tables d (committed s)" using preservesD [OF assms(1), of "begin_session t d"] m by simp
  with assms(2) m show ?thesis
    by (cases r) (auto simp: session_scope_def bind_def commit_run return_exec)
qed

lemma snapshot_session_keeps: "preserves (\<lambda>s. same_tables d (committed s)) (snapshot_block_session blk h)"
  unfolding snapshot_block_session_def
  by (intro preserves_intros atomic.keeps_apply_block keeps_committed_watcher)

lemma watcher_session_keeps: "preserves (\<lambda>s. same_tables d (committed s)) (watcher_block_session blk h)"
  unfolding watcher_block_session_def
  by (intro preserves_intros atomic.keeps_apply_block atomic.keeps_refunds keeps_committed_watcher)

text \<open>
  A block is applied as a whole or not at all. When the session of a block, of the snapshot
  or of the watcher, ends with an error at whatever point, no table has changed, the height of
  the last processed block included; at most an identity sequence has moved on.
\<close>


theorem failed_block_changes_no_table:
  assumes "session_scope (snapshot_block_session blk h) t d = (Inl e, d') \<or>
    session_scope (watcher_block_session blk h) t d = (Inl e, d')"
  shows "same_tables d d' \<and> watcher d' = watcher d"
  using assms session_scope_atomic [OF snapshot_session_keeps [of d blk h]]
    session_scope_atomic [OF watcher_session_keeps [of d blk h]] same_tables_watcher [of d d'] by blast

lemma failed_block_changes_no_table_witness:
  "\<exists>d'. session_scope (snapshot_block_session (block_of 1 [ex_stake_tx, JNull]) 1) 1 ex_started =
     (Inl AttributeError, d') \<and> same_tables ex_started d' \<and> watcher d' = watcher ex_started"
proof -
  obtain d' where "session_scope (snapshot_block_session (block_of 1 [ex_stake_tx, JNull]) 1) 1 ex_started =
      (Inl AttributeError, d')"
    by (simp add: session_scope_def snapshot_block_session_def apply_block_of bind_def ex_stake_tx_run
        ex_stake_event_run apply_single_tx_def [of JNull] lift_exec)
  with failed_block_changes_no_table [of "block_of 1 [ex_stake_tx, JNull]" 1 1 ex_started AttributeError d']
  show ?thesis by blast
qed

section \<open>The watcher's row\<close>

interpretation unwatched: session_invariant "\<lambda>s. watcher (working s) = w \<and> watcher (committed s) = w"
  by unfold_locales (simp_all add: rolled_back_def keep_sequences_def)

text \<open>A roll back is seen in the epoch: until one happens, the row is as it was.\<close>

interpretation unrolled: session_invariant "\<lambda>s. ep \<le> epoch s \<and> (epoch s = ep \<longrightarrow> watcher (working s) = w)"
  by unfold_locales (simp_all add: rolled_back_def)

lemma process_unlocked_epoch: "process_unlocked ep u s = (Inr x, s') \<Longrightarrow> epoch s' = ep"
  by (auto simp: process_unlocked_def bind_def catch_def loaded_attribute_run
      split: prod.splits sum.splits if_splits)

lemma process_unlocked_list_epoch:
  "for_each (process_unlocked ep) us s = (Inr x, s') \<Longrightarrow> epoch s = ep \<Longrightarrow> epoch s' = ep"
proof (induction us arbitrary: s)
  case (Cons u us)
  then obtain s1 where "process_unlocked ep u s = (Inr (), s1)" "for_each (process_unlocked ep) us s1 = (Inr x, s')"
    by (auto simp: bind_eq_Inr)
  with Cons.IH process_unlocked_epoch show ?case by blast
qed (simp add: return_exec)

lemma refunds_keep_watcher:
  assumes "process_unlocked_unstakes h s = (Inr n, s')"
  shows "watcher (working s') = watcher (working s)"
proof -
  have "epoch s' = epoch s"
    using assms process_unlocked_list_epoch [of "epoch s" "unlocked_requests h (working s)" s]
    by (auto simp: process_unlocked_unstakes_def bind_def gets_exec return_exec raise_unless_exec split: if_splits prod.splits sum.splits)
  then show ?thesis
    using preservesD [OF unrolled.keeps_refunds [of "epoch s" "watcher (working s)" h], of s] assms by simp
qed

lemma session_scope_Inr:
  assumes "session_scope m t d = (Inr a, d')"
  obtains s where "m (begin_session t d) = (Inr a, s)" "d' = working s"
  using assms by (auto simp: session_scope_def bind_def commit_run return_exec split: prod.splits sum.splits)

lemma watcher_session_height:
  assumes "session_scope (watcher_block_session blk h) t d = (Inr n, d')" and "watcher d = Some w"
  shows "watcher d' = Some (w\<lparr>last_processed_height := h\<rparr>)"
proof -
  from assms(1) obtain s where run: "watcher_block_session blk h (begin_session t d) = (Inr n, s)" "d' = working s"
    by (rule session_scope_Inr)
  then obtain s1 where s1: "apply_block_transactions blk (begin_session t d) = (Inr (), s1)"
    and rest: "bind (gets (\<lambda>s. watcher (working s))) (\<lambda>state.
     andthen (case state of None \<Rightarrow> return ()
              | Some w \<Rightarrow> write_watcher (w\<lparr>last_processed_height := h\<rparr>))
       (process_unlocked_unstakes h)) s1 = (Inr n, s)"
    by (auto simp: watcher_block_session_def bind_eq_Inr)
  have "watcher (working s1) = Some w"
    using preservesD [OF unwatched.keeps_apply_block [of "Some w" blk], of "begin_session t d"] s1 assms(2) by simp
  with rest have "process_unlocked_unstakes h
      (s1\<lparr>working := (working s1)\<lparr>watcher := Some (w\<lparr>last_processed_height := h\<rparr>)\<rparr>\<rparr>) = (Inr n, s)"
    by (auto simp: bind_def gets_exec write_watcher_run split: if_splits)
  from refunds_keep_watcher [OF this] show ?thesis using run(2) by simp
qed

lemma snapshot_session_height:
  assumes "session_scope (snapshot_block_session blk h) t d = (Inr u, d')" and "watcher d = Some w"
  shows "watcher d' = Some (w\<lparr>last_processed_height := h\<rparr>)"
proof -
  from assms(1) obtain s where run: "snapshot_block_session blk h (begin_session t d) = (Inr u, s)" "d' = working s"
    by (rule session_scope_Inr)
  then obtain s1 where s1: "apply_block_transactions blk (begin_session t d) = (Inr (), s1)"
    and rest: "bind get_or_create_watcher_state (\<lambda>w. write_watcher (w\<lparr>last_processed_height := h\<rparr>)) s1 = (Inr u, s)"
    by (auto simp: snapshot_block_session_def bind_eq_Inr)
  have "watcher (working s1) = Some w"
    using preservesD [OF unwatched.keeps_apply_block [of "Some w" blk], of "begin_session t d"] s1 assms(2) by simp
  with rest run(2) show ?thesis
    by (auto simp: get_or_create_watcher_state_def bind_def gets_exec return_exec write_watcher_run split: if_splits)
qed

section \<open>Predicates that survive commits\<close>

text \<open>
  With commits and the watcher's own row added, such a predicate holds of what every session of
  the endpoints, the snapshot and the watcher leaves behind.
\<close>

locale committing_invariant = session_invariant +
  assumes commits: "P s \<Longrightarrow> P (s\<lparr>committed := working s\<rparr>)"
    and watches: "P s \<Longrightarrow> P (s\<lparr>working := (working s)\<lparr>watcher := w\<rparr>\<rparr>)"
begin

lemma keeps_commit: "preserves P commit"
  by (simp add: preserves_def commit_run commits)

lemma keeps_watcher: "preserves P (write_watcher w)" "preserves P get_or_create_watcher_state"
proof -
  show *: "preserves P (write_watcher w)" for w
    unfolding write_watcher_def
    by (intro preserves_intros keeps_flush) (simp add: preserves_def update_db_run watches)
  show "preserves P get_or_create_watcher_state"
    unfolding get_or_create_watcher_state_def by (intro preserves_intros *)
qed

lemma keeps_walks:
  "preserves P (snapshot_start t)" "preserves P (snapshot_finish t)"
  "preserves P (snapshot_block_session blk h)" "preserves P (watcher_block_session blk h)"
  unfolding snapshot_start_def snapshot_finish_def snapshot_block_session_def watcher_block_session_def Let_def
  by (intro preserves_intros keeps_watcher keeps_apply_block keeps_refunds)+

lemma keeps_current_height: "preserves P current_height"
  unfolding current_height_def by (intro preserves_intros)

lemma keeps_endpoints:
  "preserves P (request_unstake_body a n)" "preserves P (cancel_unstake_body a i)"
  "preserves P (claim_rewards_body a nonce)"
  unfolding request_unstake_body_def cancel_unstake_body_def claim_rewards_body_def payout_id_attribute_def Let_def
  by (intro preserves_intros keeps_rows keeps_commit keeps_current_height keeps_enqueue)+

lemma keeps_session_scope:
  assumes "preserves P m" and "P (begin_session t d)" and "session_scope m t d = (r, d')"
  obtains s where "P s" "committed s = d'"
proof -
  have "preserves P (bind m (\<lambda>a. andthen commit (return a)))"
    using assms(1) by (intro preserves_intros keeps_commit)
  from preservesD [OF this assms(2)] assms(3) rolls that show ?thesis
    by (auto simp: session_scope_def split: prod.splits sum.splits)
qed

lemma keeps_get_session:
  assumes "preserves P m" and "P (begin_session t d)" and "get_session m t d = (r, d')"
  obtains s where "P s" "committed s = d'"
  using preservesD [OF assms(1,2)] assms(3) rolls that
  by (auto simp: get_session_def split: prod.splits)

end

text \<open>Payouts that are stored stay as they are; new ones are QUEUED and untried.\<close>

definition queue_grows :: "db \<Rightarrow> db \<Rightarrow> bool" where
  "queue_grows d d' \<longleftrightarrow> (\<exists>new. pending_payouts d' = pending_payouts d @ new \<and> (\<forall>p \<in> set new. fresh_payout p))"

lemma queue_grows_same: "pending_payouts d' = pending_payouts d \<Longrightarrow> queue_grows d d'"
  by (simp add: queue_grows_def)

lemma queue_grows_cong: "pending_payouts e = pending_payouts d' \<Longrightarrow> queue_grows d e = queue_grows d d'"
  by (simp add: queue_grows_def)

lemma queue_grows_insert: "queue_grows d d' \<Longrightarrow> fresh_payout p \<Longrightarrow>
  queue_grows d (d'\<lparr>pending_payouts := row_insert p (pending_payouts d')\<rparr>)"
  by (force simp: queue_grows_def row_insert_def)

lemma queue_grows_old: "queue_grows d d' \<Longrightarrow> get_payout d i = Some p \<Longrightarrow> get_payout d' i = Some p"
  by (auto simp: queue_grows_def get_payout_def row_get_append)

lemma queue_grows_new:
  assumes "queue_grows d d'" and "get_payout d i = None" and "get_payout d' i = Some p"
  shows "fresh_payout p"
proof -
  from assms(1) obtain new where new: "pending_payouts d' = pending_payouts d @ new" "\<forall>p \<in> set new. fresh_payout p"
    by (auto simp: queue_grows_def)
  with assms(2,3) have "row_get payout_id new i = Some p" by (simp add: get_payout_def row_get_append)
  then have "p \<in> set new" by (blast dest: row_get_Some)
  with new show ?thesis by blast
qed

interpretation queue: committing_invariant "\<lambda>s. queue_grows d (working s) \<and> queue_grows d (committed s)"
proof unfold_locales
  fix s p assume "queue_grows d (working s) \<and> queue_grows d (committed s)" "fresh_payout p"
  then show "queue_grows d (working (s\<lparr>working := (working s)\<lparr>pending_payouts :=
        row_insert p (pending_payouts (working s))\<rparr>\<rparr>)) \<and>
      queue_grows d (committed (s\<lparr>working := (working s)\<lparr>pending_payouts :=
        row_insert p (pending_payouts (working s))\<rparr>\<rparr>))"
    using queue_grows_insert [of d "working s" p] by simp
qed (auto simp: rolled_back_def keep_sequences_def queue_grows_def)

lemma scope_queue_grows:
  assumes "\<And>d. preserves (\<lambda>s. queue_grows d (working s) \<and> queue_grows d (committed s)) m"
  shows "session_scope m t d = (r, d') \<Longrightarrow> queue_grows d d'" and "get_session m t d = (r, d') \<Longrightarrow> queue_grows d d'"
  using queue.keeps_session_scope [OF assms, of d t d r d'] queue.keeps_get_session [OF assms, of d t d r d']
  by (auto simp: queue_grows_same)

end
