(* ===== verification/Walks.thy ===== *)
theory Walks
  imports Sessions
begin

text \<open>
  The two walks over the chain: each applies the blocks it fetches in the order of their heights,
  none skipped and none twice, and records the last one; the snapshot ends when the chain stops
  growing.
\<close>

section \<open>Blocks applied in order\<close>

text \<open>
  \<open>blocks_applied env m t hs d d'\<close>: for each height of \<open>hs\<close>, in order, the block that the node
  answered for it was applied by the session \<open>m\<close>, which committed.
\<close>

inductive blocks_applied ::
  "env \<Rightarrow> (json \<Rightarrow> int \<Rightarrow> (session, 'a) exec) \<Rightarrow> time \<Rightarrow> int list \<Rightarrow> db \<Rightarrow> db \<Rightarrow> bool"
  for env m t where
  none: "blocks_applied env m t [] d d"
| one: "block env h w = (Inr blk, w') \<Longrightarrow> session_scope (m blk h) t d = (Inr a, d1) \<Longrightarrow>
    blocks_applied env m t hs d1 d2 \<Longrightarrow> blocks_applied env m t (h # hs) d d2"

inductive_cases blocks_applied_NilE [elim!]: "blocks_applied env m t [] d d'"
inductive_cases blocks_applied_ConsE: "blocks_applied env m t (h # hs) d d'"

lemma blocks_applied_append:
  "blocks_applied env m t hs d d1 \<Longrightarrow> blocks_applied env m t hs' d1 d2 \<Longrightarrow> blocks_applied env m t (hs @ hs') d d2"
  by (induction rule: blocks_applied.induct) (auto intro: blocks_applied.one)

text \<open>A session that records the height it processed, and leaves the rest of the row alone.\<close>

locale block_session =
  fixes m :: "json \<Rightarrow> int \<Rightarrow> (session, 'a) exec"
  assumes records: "session_scope (m blk h) t d = (Inr a, d') \<Longrightarrow> watcher d = Some w \<Longrightarrow>
      watcher d' = Some (w\<lparr>last_processed_height := h\<rparr>)"
    and atomic: "session_scope (m blk h) t d = (Inl e, d') \<Longrightarrow> same_tables d d'"
begin

lemma height_after:
  "blocks_applied env m t hs d d' \<Longrightarrow> watcher d = Some w \<Longrightarrow>
   watcher d' = Some (w\<lparr>last_processed_height := last (last_processed_height w # hs)\<rparr>)"
proof (induction arbitrary: w rule: blocks_applied.induct)
  case (one h n blk n' d a d1 hs d2)
  then show ?case using records [OF one(2)] by (cases hs) auto
qed simp

end

interpretation live: block_session watcher_block_session
proof unfold_locales
  show "watcher d' = Some (w\<lparr>last_processed_height := h\<rparr>)"
    if "session_scope (watcher_block_session blk h) t d = (Inr a, d')" "watcher d = Some w" for blk h t d a d' w
    using that by (rule watcher_session_height)
  show "same_tables d d'" if "session_scope (watcher_block_session blk h) t d = (Inl e, d')" for blk h t d e d'
    using that by (rule session_scope_atomic [OF watcher_session_keeps])
qed

interpretation catch_up: block_session snapshot_block_session
proof unfold_locales
  show "watcher d' = Some (w\<lparr>last_processed_height := h\<rparr>)"
    if "session_scope (snapshot_block_session blk h) t d = (Inr a, d')" "watcher d = Some w" for blk h t d a d' w
    using that by (rule snapshot_session_height)
  show "same_tables d d'" if "session_scope (snapshot_block_session blk h) t d = (Inl e, d')" for blk h t d e d'
    using that by (rule session_scope_atomic [OF snapshot_session_keeps])
qed

section \<open>The watcher\<close>

lemma on_rpc_result: "on_rpc m s = (r, s') \<Longrightarrow> \<exists>w'. m (rpc_state s) = (r, w')"
  by (auto simp: on_rpc_def split: prod.splits)

definition walked :: "env \<Rightarrow> time \<Rightarrow> int list \<Rightarrow> unit res \<Rightarrow> db \<Rightarrow> db \<Rightarrow> bool" where
  "walked env t hs r d d' \<longleftrightarrow> (\<exists>ys zs d1. hs = ys @ zs \<and>
     blocks_applied env watcher_block_session t ys d d1 \<and> same_tables d1 d' \<and>
     (r = Inr () \<longrightarrow> zs = [] \<or> (\<exists>w msg w'. block env (hd zs) w = (Inl (ChainRPCError msg), w'))))"

lemma walkedI:
  "hs = ys @ zs \<Longrightarrow> blocks_applied env watcher_block_session t ys d d1 \<Longrightarrow> same_tables d1 d' \<Longrightarrow>
   (r = Inr () \<Longrightarrow> zs = [] \<or> (\<exists>w msg w'. block env (hd zs) w = (Inl (ChainRPCError msg), w'))) \<Longrightarrow>
   walked env t hs r d d'"
  unfolding walked_def by blast

lemma watch_blocks_walked:
  "watch_blocks env t hs s = (r, s') \<Longrightarrow> walked env t hs r (walk_db s) (walk_db s')"
proof (induction hs arbitrary: s)
  case Nil
  then have "s' = s" by (simp add: return_exec)
  then show ?case
    using walkedI [of "[]" "[]" "[]", OF _ blocks_applied.none] by simp
next
  case (Cons h hs)
  obtain rb s1 where b: "on_rpc (block env h) s = (rb, s1)" by fastforce
  have db: "walk_db s1 = walk_db s" using on_rpc_db [OF b] .
  obtain w' where ans: "block env h (rpc_state s) = (rb, w')" using on_rpc_result [OF b] by blast
  have stop: "?case" if "s' = s1" "r = Inr () \<longrightarrow> (\<exists>msg. rb = Inl (ChainRPCError msg))"
    using that db ans by (intro walkedI [of _ "[]" "h # hs", OF _ blocks_applied.none]) auto
  show ?case
  proof (cases rb)
    case (Inl e)
    with b Cons.prems show ?thesis by (intro stop; cases e) auto
  next
    case (Inr blk)
    obtain r2 d2 where sc: "session_scope (watcher_block_session blk h) t (walk_db s1) = (r2, d2)" by fastforce
    show ?thesis
    proof (cases r2)
      case (Inl e)
      with b Inr Cons.prems sc have "r = Inl e" "walk_db s' = d2"
        by (auto simp: bind_def in_session_scope_eq)
      moreover have "same_tables (walk_db s) d2" using sc Inl db live.atomic by simp
      ultimately show ?thesis
        by (intro walkedI [of _ "[]" "h # hs", OF _ blocks_applied.none]) simp_all
    next
      case r2: (Inr x)
      with b Inr Cons.prems sc have "watch_blocks env t hs (s1\<lparr>walk_db := d2\<rparr>) = (r, s')"
        by (simp add: bind_def in_session_scope_eq)
      from Cons.IH [OF this] have "walked env t hs r d2 (walk_db s')" by simp
      then obtain ys zs d1 where rest: "hs = ys @ zs"
        "blocks_applied env watcher_block_session t ys d2 d1" "same_tables d1 (walk_db s')"
        "r = Inr () \<longrightarrow> zs = [] \<or> (\<exists>w msg w'. block env (hd zs) w = (Inl (ChainRPCError msg), w'))"
        unfolding walked_def by blast
      have "blocks_applied env watcher_block_session t (h # ys) (walk_db s) d1"
        using ans Inr sc r2 db rest(2) by (auto intro: blocks_applied.one)
      with rest show ?thesis by (intro walkedI [of _ "h # ys" zs]) simp_all
    qed
  qed
qed

text \<open>A prefix of an interval of heights is an interval.\<close>

lemma upto_prefix:
  assumes "[i..j] = ys @ zs" and "i \<le> j + 1"
  shows "\<exists>k. i - 1 \<le> k \<and> k \<le> j \<and> ys = [i..k] \<and> zs = [k + 1..j]"
  using assms
proof (induction ys arbitrary: i)
  case Nil
  then show ?case by (intro exI [of _ "i - 1"]) simp
next
  case (Cons y ys)
  then have ij: "i \<le> j" by (cases "i \<le> j") simp_all
  with Cons.prems have "y = i" "[i + 1..j] = ys @ zs" by (auto simp: upto_rec1)
  with Cons.IH [of "i + 1"] ij obtain k where "i \<le> k" "k \<le> j" "ys = [i + 1..k]" "zs = [k + 1..j]" by auto
  with \<open>y = i\<close> show ?case by (intro exI [of _ k]) (simp add: upto_rec1)
qed

lemma last_upto: "i - 1 \<le> k \<Longrightarrow> last ((i - 1) # [i..k]) = k"
proof (cases "i \<le> k")
  case True
  then have "[i..k] = [i..k - 1] @ [k]" by (rule upto_rec2)
  then show ?thesis by simp
qed simp

text \<open>
  C20. A tick of the watcher. When the service is at height \<open>l\<close> and the node reports the higher
  tip, a tick applies exactly the blocks \<open>l + 1\<close> to some \<open>k\<close>, in order, each in a session of its
  own that commits, and records \<open>k\<close>; what comes after \<open>k\<close> changed no table. If the tick ends
  without an error, \<open>k\<close> is the tip, or the node failed to give the next block.
\<close>

theorem tick_applies_in_order:
  assumes "tick env t s = (r, s')" and "watcher (walk_db s) = Some w" and "snapshot_complete w"
    and "latest_height env (rpc_state s) = (Inr tip, n)" and "last_processed_height w < tip"
  shows "\<exists>k d1. last_processed_height w \<le> k \<and> k \<le> tip \<and>
    blocks_applied env watcher_block_session t [last_processed_height w + 1..k] (walk_db s) d1 \<and>
    same_tables d1 (walk_db s') \<and> watcher (walk_db s') = Some (w\<lparr>last_processed_height := k\<rparr>) \<and>
    (r = Inr () \<longrightarrow> k = tip \<or> (\<exists>v msg v'. block env (k + 1) v = (Inl (ChainRPCError msg), v')))"
proof -
  let ?l = "last_processed_height w"
  have "watch_blocks env t [?l + 1..tip] (s\<lparr>rpc_state := n\<rparr>) = (r, s')"
    using assms by (simp add: tick_def bind_def on_rpc_def gets_exec)
  from watch_blocks_walked [OF this] have "walked env t [?l + 1..tip] r (walk_db s) (walk_db s')" by simp
  then obtain ys zs d1 where split: "[?l + 1..tip] = ys @ zs"
    and app: "blocks_applied env watcher_block_session t ys (walk_db s) d1" and same: "same_tables d1 (walk_db s')"
    and fin: "r = Inr () \<longrightarrow> zs = [] \<or> (\<exists>v msg v'. block env (hd zs) v = (Inl (ChainRPCError msg), v'))"
    unfolding walked_def by blast
  from upto_prefix [OF split] assms(5) obtain k where k: "?l \<le> k" "k \<le> tip" "ys = [?l + 1..k]" "zs = [k + 1..tip]"
    by auto
  have "watcher d1 = Some (w\<lparr>last_processed_height := k\<rparr>)"
    using live.height_after [OF app assms(2)] last_upto [of "?l + 1" k] k by simp
  then have "watcher (walk_db s') = Some (w\<lparr>last_processed_height := k\<rparr>)"
    using same_tables_watcher [OF same] by simp
  moreover have "r = Inr () \<longrightarrow> k = tip \<or> (\<exists>v msg v'. block env (k + 1) v = (Inl (ChainRPCError msg), v'))"
  proof (cases "k = tip")
    case False
    then have "zs = (k + 1) # [k + 1 + 1..tip]" using k(2,4) upto_rec1 [of "k + 1" tip] by simp
    with fin show ?thesis by simp
  qed simp
  ultimately show ?thesis using k(1,2) app [unfolded k(3)] same by blast
qed

section \<open>The snapshot\<close>

lemma upto_append: "i - 1 \<le> j \<Longrightarrow> j \<le> k \<Longrightarrow> [i..j] @ [j + 1..k] = [i..k]"
  using upto_split1 [of i "j + 1" k] by (cases "j = k") simp_all

text \<open>A run of the snapshot over the heights from \<open>i\<close>: where it stopped and what it left.\<close>

definition caught_up :: "env \<Rightarrow> time \<Rightarrow> int \<Rightarrow> int \<Rightarrow> db \<Rightarrow> db \<Rightarrow> bool" where
  "caught_up env t i k d d' \<longleftrightarrow> i - 1 \<le> k \<and>
     (\<exists>d1. blocks_applied env snapshot_block_session t [i..k] d d1 \<and> same_tables d1 d')"

lemma caught_up_exact: "i - 1 \<le> k \<Longrightarrow> blocks_applied env snapshot_block_session t [i..k] d d' \<Longrightarrow> caught_up env t i k d d'"
  unfolding caught_up_def by auto

lemma caught_up_trans:
  assumes "blocks_applied env snapshot_block_session t [i..j] d d1" "i - 1 \<le> j" "caught_up env t (j + 1) k d1 d'"
  shows "caught_up env t i k d d'"
proof -
  from assms(3) obtain d2 where k: "j \<le> k" "blocks_applied env snapshot_block_session t [j + 1..k] d1 d2" "same_tables d2 d'"
    by (auto simp: caught_up_def)
  have "blocks_applied env snapshot_block_session t ([i..j] @ [j + 1..k]) d d2"
    using assms(1) k(2) by (rule blocks_applied_append)
  with k assms(2) upto_append [of i j k] show ?thesis by (auto simp: caught_up_def)
qed

lemma batch_applied:
  "for_each (snapshot_block env t) hs s = (r, s') \<Longrightarrow> \<exists>ys zs d1. hs = ys @ zs \<and>
     blocks_applied env snapshot_block_session t ys (walk_db s) d1 \<and> same_tables d1 (walk_db s') \<and>
     (r = Inr () \<longrightarrow> zs = [] \<and> walk_db s' = d1)"
proof (induction hs arbitrary: s)
  case Nil
  then have "s' = s" by (simp add: return_exec)
  then show ?case
    by (intro exI [of _ "[]"] exI [of _ "[]"] exI [of _ "walk_db s"]) (simp add: blocks_applied.none)
next
  case (Cons h hs)
  have stop: ?case if "same_tables (walk_db s) (walk_db s')" "r \<noteq> Inr ()"
    using that by (intro exI [of _ "[]"] exI [of _ "h # hs"] exI [of _ "walk_db s"]) (simp add: blocks_applied.none)
  obtain rb s1 where b: "on_rpc (block env h) s = (rb, s1)" by fastforce
  have db: "walk_db s1 = walk_db s" using on_rpc_db [OF b] .
  obtain w' where ans: "block env h (rpc_state s) = (rb, w')" using on_rpc_result [OF b] by blast
  show ?case
  proof (cases rb)
    case (Inl e)
    with b Cons.prems db show ?thesis by (intro stop) (auto simp: bind_def snapshot_block_apply)
  next
    case (Inr blk)
    obtain r2 d2 where sc: "session_scope (snapshot_block_session blk h) t (walk_db s1) = (r2, d2)" by fastforce
    show ?thesis
    proof (cases r2)
      case (Inl e)
      with b Inr Cons.prems sc have "r = Inl e" "walk_db s' = d2"
        by (auto simp: bind_def in_session_scope_eq snapshot_block_apply)
      with sc Inl db catch_up.atomic show ?thesis by (intro stop) simp_all
    next
      case r2: (Inr u)
      have "snapshot_block env t h s = (Inr (), s1\<lparr>walk_db := d2\<rparr>)"
        using b Inr sc r2 by (simp add: snapshot_block_apply in_session_scope_eq)
      with Cons.prems have "for_each (snapshot_block env t) hs (s1\<lparr>walk_db := d2\<rparr>) = (r, s')"
        by (simp add: bind_def)
      from Cons.IH [OF this] obtain ys zs d1 where rest: "hs = ys @ zs"
        "blocks_applied env snapshot_block_session t ys (walk_db (s1\<lparr>walk_db := d2\<rparr>)) d1"
        "same_tables d1 (walk_db s')" "r = Inr () \<longrightarrow> zs = [] \<and> walk_db s' = d1"
        by blast
      from rest(2) have "blocks_applied env snapshot_block_session t ys d2 d1" by simp
      with ans Inr sc r2 db have "blocks_applied env snapshot_block_session t (h # ys) (walk_db s) d1"
        by (auto intro: blocks_applied.one)
      moreover have "h # hs = (h # ys) @ zs" using rest(1) by simp
      ultimately show ?thesis using rest(3,4) by blast
    qed
  qed
qed

lemma process_batch_applied:
  assumes "process_batch env t i j s = (r, s')" and "i \<le> j + 1"
  shows "\<exists>k. k \<le> j \<and> caught_up env t i k (walk_db s) (walk_db s')"
    and "r = Inr () \<Longrightarrow> blocks_applied env snapshot_block_session t [i..j] (walk_db s) (walk_db s')"
proof -
  from batch_applied [OF assms(1) [unfolded process_batch_def]] obtain ys zs d1 where split: "[i..j] = ys @ zs"
    and app: "blocks_applied env snapshot_block_session t ys (walk_db s) d1" and same: "same_tables d1 (walk_db s')"
    and fin: "r = Inr () \<longrightarrow> zs = [] \<and> walk_db s' = d1" by blast
  from upto_prefix [OF split assms(2)] obtain k where "i - 1 \<le> k" "k \<le> j" "ys = [i..k]" by blast
  with app same show "\<exists>k. k \<le> j \<and> caught_up env t i k (walk_db s) (walk_db s')"
    unfolding caught_up_def by blast
  show "blocks_applied env snapshot_block_session t [i..j] (walk_db s) (walk_db s')" if "r = Inr ()"
    using that fin app split by simp
qed

lemma snapshot_loop_applied:
  "snapshot_loop env t fuel i tip s = Some (r, s') \<Longrightarrow> tip \<le> limit \<Longrightarrow> \<exists>k. caught_up env t i k (walk_db s) (walk_db s') \<and>
     (\<forall>v. r = Inr v \<longrightarrow> tip \<le> k \<and> blocks_applied env snapshot_block_session t [i..k] (walk_db s) (walk_db s'))"
proof (induction fuel arbitrary: i tip s limit)
  case 0
  then have "r = Inr tip" "s' = s" "tip < i" by (auto split: if_splits)
  then show ?case
    by (intro exI [of _ "i - 1"]) (simp add: caught_up_exact blocks_applied.none)
next
  case (Suc fuel)
  let ?last = "min (i + snapshot_batch_size - 1) tip"
  show ?case
  proof (cases "i \<le> tip")
    case False
    with Suc.prems show ?thesis
      by (intro exI [of _ "i - 1"]) (auto simp: caught_up_exact blocks_applied.none)
  next
    case le: True
    then have last: "i \<le> ?last" "?last \<le> tip" by (simp_all add: snapshot_batch_size_def)
    obtain r1 s1 where pb: "process_batch env t i ?last s = (r1, s1)" by fastforce
    note batch = process_batch_applied [OF pb]
    show ?thesis
    proof (cases r1)
      case (Inl e)
      with Suc.prems(1) pb le have "s' = s1" "r = Inl e" by (simp_all add: Let_def)
      with batch(1) last show ?thesis by auto
    next
      case r1: (Inr u)
      then have app: "blocks_applied env snapshot_block_session t [i..?last] (walk_db s) (walk_db s1)"
        using batch(2) last by simp
      have go: ?thesis if "\<exists>k. caught_up env t (?last + 1) k (walk_db s1) (walk_db s') \<and>
          (\<forall>v. r = Inr v \<longrightarrow> tip \<le> k \<and>
             blocks_applied env snapshot_block_session t [?last + 1..k] (walk_db s1) (walk_db s'))"
      proof -
        from that obtain k where k: "caught_up env t (?last + 1) k (walk_db s1) (walk_db s')"
          "\<forall>v. r = Inr v \<longrightarrow> tip \<le> k \<and>
             blocks_applied env snapshot_block_session t [?last + 1..k] (walk_db s1) (walk_db s')" by blast
        have "?last \<le> k" using k(1) by (simp add: caught_up_def)
        then have "[i..?last] @ [?last + 1..k] = [i..k]" using last by (intro upto_append) simp_all
        with k app last caught_up_trans [OF app _ k(1)] blocks_applied_append [OF app] show ?thesis
          by (intro exI [of _ k]) fastforce
      qed
      show ?thesis
      proof (cases "tip < ?last + 1")
        case False
        with Suc.prems(1) pb le r1 have "snapshot_loop env t fuel (?last + 1) tip s1 = Some (r, s')"
          by (simp add: Let_def)
        from Suc.IH [OF this] show ?thesis by (intro go) blast
      next
        case True
        obtain r2 s2 where l: "on_rpc (latest_height env) s1 = (r2, s2)" by fastforce
        have db: "walk_db s2 = walk_db s1" using on_rpc_db [OF l] .
        show ?thesis
        proof (cases r2)
          case (Inl e)
          with Suc.prems(1) pb le r1 True l have "s' = s2" "r = Inl e" by (simp_all add: Let_def)
          with app db last show ?thesis by (intro exI [of _ ?last]) (simp add: caught_up_exact)
        next
          case (Inr new_tip)
          with Suc.prems(1) pb le r1 True l
          have "snapshot_loop env t fuel (?last + 1) (max tip new_tip) s2 = Some (r, s')"
            by (simp add: Let_def)
          from Suc.IH [OF this order_refl] db show ?thesis by (intro go) fastforce
        qed
      qed
    qed
  qed
qed

definition next_height :: "db \<Rightarrow> int" where
  "next_height d = (case watcher d of None \<Rightarrow> 0
     | Some w \<Rightarrow> if 0 < last_processed_height w then last_processed_height w + 1 else 0)"

lemma snapshot_start_result:
  assumes "session_scope (snapshot_start t) t d = (Inr i, d')"
  shows "i = next_height d \<and> (\<exists>w. watcher d' = Some w)"
proof -
  from assms obtain s where "snapshot_start t (begin_session t d) = (Inr i, s)" "d' = working s"
    by (rule session_scope_Inr)
  then show ?thesis
    by (cases "watcher d") (auto simp: snapshot_start_def get_or_create_watcher_state_def bind_def gets_exec
        return_exec write_watcher_run next_height_def new_watcher_state_def Let_def split: if_splits)
qed

lemma snapshot_finish_result:
  assumes "session_scope (snapshot_finish t) t d = (r, d')" and "watcher d = Some w"
  shows "r = Inr () \<Longrightarrow> watcher d' = Some (w\<lparr>snapshot_complete := True, snapshot_finished_at := Some t\<rparr>)"
    and "r = Inl e \<Longrightarrow> same_tables d d'"
proof -
  have "preserves (\<lambda>s. same_tables d (committed s)) (snapshot_finish t)"
    unfolding snapshot_finish_def by (intro preserves_intros keeps_committed_watcher)
  then show "same_tables d d'" if "r = Inl e"
    using session_scope_atomic assms(1) that by blast
  assume "r = Inr ()"
  with assms(1) obtain s where "snapshot_finish t (begin_session t d) = (Inr (), s)" "d' = working s"
    by (auto elim: session_scope_Inr)
  with assms(2) show "watcher d' = Some (w\<lparr>snapshot_complete := True, snapshot_finished_at := Some t\<rparr>)"
    by (auto simp: snapshot_finish_def get_or_create_watcher_state_def bind_def gets_exec
        return_exec write_watcher_run split: if_splits)
qed

text \<open>
  C21. The snapshot. A run starts after the last height that an earlier run recorded (at 0 when
  there is none), applies the blocks from there to some \<open>k\<close> in order, each in a session of its
  own that commits, and records \<open>k\<close>, also when it is interrupted by an error; so the next run
  goes on at \<open>k + 1\<close>. If it ends without an error, \<open>k\<close> has reached the tip that the node
  reported at the start, and the snapshot is marked complete.
\<close>

theorem snapshot_applies_in_order:
  assumes run: "run_snapshot env t fuel s = Some (r, s')"
    and tip: "latest_height env (rpc_state s) = (Inr tip, n)"
    and start: "session_scope (snapshot_start t) t (walk_db s) = (Inr i, d0)"
  shows "i = next_height (walk_db s) \<and>
    (\<exists>k d1 w. i - 1 \<le> k \<and> blocks_applied env snapshot_block_session t [i..k] d0 d1 \<and>
      watcher (walk_db s') = Some w \<and> (i \<le> k \<longrightarrow> last_processed_height w = k) \<and>
      (r = Inr () \<longrightarrow> tip \<le> k \<and> snapshot_complete w) \<and>
      (r \<noteq> Inr () \<longrightarrow> same_tables d1 (walk_db s')))"
proof -
  let ?s = "s\<lparr>rpc_state := n, walk_db := d0\<rparr>"
  note i = snapshot_start_result [OF start]
  then obtain w0 where w0: "watcher d0 = Some w0" by blast
  have s2: "on_rpc (latest_height env) s = (Inr tip, s\<lparr>rpc_state := n\<rparr>)"
    "in_session_scope (snapshot_start t) t (s\<lparr>rpc_state := n\<rparr>) = (Inr i, ?s)"
    using tip start by (simp_all add: on_rpc_def in_session_scope_def)
  from run s2 obtain r1 s1 where loop: "snapshot_loop env t fuel i tip ?s = Some (r1, s1)"
    by (auto simp: run_snapshot_def split: option.splits)
  from snapshot_loop_applied [OF loop order_refl] obtain k where k: "caught_up env t i k d0 (walk_db s1)"
    "\<forall>v. r1 = Inr v \<longrightarrow> tip \<le> k \<and> blocks_applied env snapshot_block_session t [i..k] d0 (walk_db s1)" by auto
  from k(1) obtain d1 where d1: "i - 1 \<le> k" "blocks_applied env snapshot_block_session t [i..k] d0 d1"
    "same_tables d1 (walk_db s1)" by (auto simp: caught_up_def)
  have height: "\<exists>w. watcher d = Some w \<and> (i \<le> k \<longrightarrow> last_processed_height w = k)"
    if "blocks_applied env snapshot_block_session t [i..k] d0 d" for d
    using catch_up.height_after [OF that w0] by (auto simp: upto_rec2)
  show ?thesis
  proof (cases r1)
    case (Inl e)
    with run s2 loop have "r = Inl e" "s' = s1" by (simp_all add: run_snapshot_def)
    with i d1 height [OF d1(2)] same_tables_watcher [OF d1(3)] show ?thesis by auto
  next
    case (Inr v)
    then have app: "blocks_applied env snapshot_block_session t [i..k] d0 (walk_db s1)" and tk: "tip \<le> k"
      using k(2) by simp_all
    obtain r2 d2 where fin: "session_scope (snapshot_finish t) t (walk_db s1) = (r2, d2)" by fastforce
    with run s2 loop Inr have s': "r = r2" "walk_db s' = d2"
      by (auto simp: run_snapshot_def in_session_scope_def)
    from height [OF app] obtain w where w: "watcher (walk_db s1) = Some w" "i \<le> k \<longrightarrow> last_processed_height w = k"
      by blast
    note fini = snapshot_finish_result [OF fin w(1)]
    show ?thesis
    proof (cases r2)
      case (Inl e)
      with fini(2) have "same_tables (walk_db s1) (walk_db s')" using s' by simp
      with i d1(1) app w same_tables_watcher show ?thesis using Inl s' by fastforce
    next
      case (Inr u)
      with fini(1) s' have "watcher (walk_db s') = Some (w\<lparr>snapshot_complete := True, snapshot_finished_at := Some t\<rparr>)"
        by simp
      with i d1(1) app w tk Inr s' show ?thesis by auto
    qed
  qed
qed

section \<open>The snapshot ends\<close>

lemma snapshot_loop_ends:
  assumes bounded: "\<And>w v w'. latest_height env w = (Inr v, w') \<Longrightarrow> v \<le> limit"
  shows "tip \<le> limit \<Longrightarrow> nat (limit + 1 - i) \<le> fuel \<Longrightarrow> \<exists>y. \<forall>more. snapshot_loop env t (fuel + more) i tip s = Some y"
proof (induction fuel arbitrary: i tip s)
  case 0
  then have "\<not> i \<le> tip" by simp
  then have "snapshot_loop env t more i tip s = Some (Inr tip, s)" for more by (cases more) simp_all
  then show ?case by auto
next
  case (Suc fuel)
  let ?last = "min (i + snapshot_batch_size - 1) tip"
  show ?case
  proof (cases "i \<le> tip")
    case le: True
    have fuel: "nat (limit + 1 - (?last + 1)) \<le> fuel"
      using Suc.prems le by (simp add: snapshot_batch_size_def)
    obtain r1 s1 where pb: "process_batch env t i ?last s = (r1, s1)" by fastforce
    show ?thesis
    proof (cases r1)
      case (Inl e)
      with pb le show ?thesis by (simp add: Let_def)
    next
      case r1: (Inr u)
      show ?thesis
      proof (cases "tip < ?last + 1")
        case False
        with pb le r1 Suc.IH [OF Suc.prems(1) fuel] show ?thesis by (simp add: Let_def)
      next
        case True
        obtain r2 s2 where l: "on_rpc (latest_height env) s1 = (r2, s2)" by fastforce
        show ?thesis
        proof (cases r2)
          case (Inl e)
          with pb le r1 True l show ?thesis by (simp add: Let_def)
        next
          case (Inr v)
          with on_rpc_result [OF l] bounded have "v \<le> limit" by auto
          with Suc.prems(1) have "max tip v \<le> limit" by simp
          from Suc.IH [OF this fuel] pb le r1 True l Inr show ?thesis by (simp add: Let_def)
        qed
      qed
    qed
  qed simp
qed

text \<open>
  C22. The snapshot ends. If the heights that the node reports stay below some limit, the run
  ends, with a result or an error, and the fuel \<open>limit + 1\<close> is enough: with any more the outcome
  is the same.
\<close>

theorem snapshot_terminates:
  assumes "\<And>w v w'. latest_height env w = (Inr v, w') \<Longrightarrow> v \<le> limit"
  shows "\<exists>y. \<forall>fuel. nat (limit + 1) \<le> fuel \<longrightarrow> run_snapshot env t fuel s = Some y"
proof -
  obtain r1 s1 where l: "on_rpc (latest_height env) s = (r1, s1)" by fastforce
  obtain r2 s2 where b: "in_session_scope (snapshot_start t) t s1 = (r2, s2)" by fastforce
  consider e where "r1 = Inl e" | tip e where "r1 = Inr tip" "r2 = Inl e" | tip i where "r1 = Inr tip" "r2 = Inr i"
    by (cases r1; cases r2) auto
  then show ?thesis
  proof cases
    case 1
    with l show ?thesis by (simp add: run_snapshot_def)
  next
    case 2
    with l b show ?thesis by (simp add: run_snapshot_def)
  next
    case (3 tip i)
    have "tip \<le> limit" using on_rpc_result [OF l] 3(1) assms by auto
    moreover have "0 \<le> i"
      using b 3(2) snapshot_start_result [of t "walk_db s1" i]
      by (auto simp: in_session_scope_eq next_height_def prod_eq_iff split: option.splits if_splits)
    then have "nat (limit + 1 - i) \<le> nat (limit + 1)" by simp
    ultimately obtain y where y: "\<forall>more. snapshot_loop env t (nat (limit + 1) + more) i tip s2 = Some y"
      using snapshot_loop_ends [of env limit tip i "nat (limit + 1)" t s2] assms by blast
    have "snapshot_loop env t fuel i tip s2 = Some y" if "nat (limit + 1) \<le> fuel" for fuel
      using y [rule_format, of "fuel - nat (limit + 1)"] that by simp
    with l b 3 show ?thesis by (simp add: run_snapshot_def split: prod.split sum.split)
  qed
qed

section \<open>On a concrete chain\<close>

text \<open>A node that answers every request with the height and no transactions.\<close>

definition ex_chain :: "int \<Rightarrow> env" where
  "ex_chain h = \<lparr>answer = (\<lambda>_ _. Response 200 (Some (JObj [(''height'', JInt h)]))), wall_clock = (\<lambda>_. 0)\<rparr>"

definition ex_walk :: "db \<Rightarrow> walk" where
  "ex_walk d = \<lparr>rpc_state = \<lparr>requests = 0, slept = 0\<rparr>, walk_db = d\<rparr>"

lemma ex_chain_height:
  "latest_height (ex_chain h) w = (Inr h, \<lparr>requests = Suc (requests w), slept = slept w + 1 / 20\<rparr>)"
  by (cases w; simp add: latest_height_def status_def rpc_get_def eval_nat_numeral retry_loop_step ex_chain_def
      throttled_def is_success_def Let_def bind_def lift_exec)

lemma snapshot_terminates_witness:
  "\<exists>y. run_snapshot (ex_chain 7) 0 8 (ex_walk empty_db) = Some y"
  using snapshot_terminates [of "ex_chain 7" 7 0 "ex_walk empty_db"] by (auto simp: ex_chain_height)

lemma tick_applies_in_order_witness:
  "\<exists>k. 1 \<le> k \<and> k \<le> 2 \<and> watcher (walk_db (snd (tick (ex_chain 2) 0 (ex_walk ex_ready)))) = Some (ex_watcher k (Some 100))"
proof -
  obtain r s' where t: "tick (ex_chain 2) 0 (ex_walk ex_ready) = (r, s')" by fastforce
  have "watcher (walk_db (ex_walk ex_ready)) = Some (ex_watcher 1 (Some 100))"
    by (simp add: ex_walk_def ex_ready_def)
  from tick_applies_in_order [OF t this] ex_chain_height [of 2 "rpc_state (ex_walk ex_ready)"] t
  show ?thesis by (auto simp: ex_watcher_def)
qed

lemma snapshot_applies_in_order_witness:
  "\<exists>r s' k w. run_snapshot (ex_chain 7) 0 8 (ex_walk empty_db) = Some (r, s') \<and> -1 \<le> k \<and>
     watcher (walk_db s') = Some w \<and> (0 \<le> k \<longrightarrow> last_processed_height w = k)"
proof -
  have loop: "\<exists>y. snapshot_loop (ex_chain 7) 0 8 0 7 s = Some y" for s
  proof -
    have "\<exists>y. \<forall>more. snapshot_loop (ex_chain 7) 0 (8 + more) 0 7 s = Some y"
      by (rule snapshot_loop_ends [where limit = 7]) (auto simp: ex_chain_height)
    then show ?thesis by (metis add.right_neutral)
  qed
  have start: "session_scope (snapshot_start 0) 0 (walk_db (ex_walk empty_db)) = (Inr 0, ex_started)"
    by (simp add: ex_walk_def ex_start)
  obtain r s' where run: "run_snapshot (ex_chain 7) 0 8 (ex_walk empty_db) = Some (r, s')"
  proof -
    let ?w = "(ex_walk empty_db)\<lparr>rpc_state := \<lparr>requests = Suc 0, slept = 1 / 20\<rparr>, walk_db := ex_started\<rparr>"
    obtain r1 s1 where "snapshot_loop (ex_chain 7) 0 8 0 7 ?w = Some (r1, s1)" using loop [of ?w] by auto
    with that start show ?thesis
      by (cases r1; cases "in_session_scope (snapshot_finish 0) 0 s1")
        (auto simp: run_snapshot_def on_rpc_def ex_chain_height in_session_scope_def ex_walk_def)
  qed
  from snapshot_applies_in_order [OF run ex_chain_height start] run show ?thesis by auto
qed

end
