(* ===== verification/Schema.thy ===== *)
theory Schema
  imports Prelude
begin

text \<open>
  \<open>src/alembic/versions\<close>: the five revisions of the database schema, as the lists of operations
  that their \<open>upgrade\<close> and \<open>downgrade\<close> functions execute, and the tables that \<open>src/db/models.py\<close>
  declares. A schema is what PostgreSQL's catalogue records of it; an operation that the server
  refuses (a table that exists already, a missing column, a table that another one refers to)
  gives no schema.
\<close>

section \<open>Schemas\<close>

datatype sql_type = INTEGER | BIGINT | BOOLEAN | TIMESTAMPTZ | VARCHAR nat

record column =
  column_name :: string
  column_type :: sql_type
  primary_key :: bool
  column_nullable :: bool
  column_unique :: bool
  foreign_key :: "(string \<times> string) option"
  server_default :: "string option"

definition data_column :: "string \<Rightarrow> sql_type \<Rightarrow> string option \<Rightarrow> column" where
  "data_column n ty dflt = \<lparr>column_name = n, column_type = ty, primary_key = False,
     column_nullable = False, column_unique = False, foreign_key = None, server_default = dflt\<rparr>"

definition null_column :: "string \<Rightarrow> sql_type \<Rightarrow> column" where
  "null_column n ty = (data_column n ty None)\<lparr>column_nullable := True\<rparr>"

definition key_column :: "string \<Rightarrow> sql_type \<Rightarrow> column" where
  "key_column n ty = (data_column n ty None)\<lparr>primary_key := True\<rparr>"

definition unique_column :: "string \<Rightarrow> sql_type \<Rightarrow> column" where
  "unique_column n ty = (data_column n ty None)\<lparr>column_unique := True\<rparr>"

definition ref_column :: "string \<Rightarrow> sql_type \<Rightarrow> string \<Rightarrow> string \<Rightarrow> column" where
  "ref_column n ty t c = (data_column n ty None)\<lparr>foreign_key := Some (t, c)\<rparr>"

record table =
  table_name :: string
  table_columns :: "column list"
  table_uniques :: "(string \<times> string list) list"

record index =
  index_name :: string
  index_table :: string
  index_columns :: "string list"
  index_unique :: bool
  index_where :: "string option"

definition plain_index :: "string \<Rightarrow> string \<Rightarrow> string list \<Rightarrow> index" where
  "plain_index i t cs = \<lparr>index_name = i, index_table = t, index_columns = cs, index_unique = False,
     index_where = None\<rparr>"

record schema =
  tables :: "table list"
  indexes :: "index list"

definition empty_schema :: schema where
  "empty_schema = \<lparr>tables = [], indexes = []\<rparr>"

section \<open>Operations\<close>

datatype ddl =
    CreateTable string "column list" "(string \<times> string list) list"
  | DropTable string
  | AddColumn string column
  | DropColumn string string
  | CreateIndex string string "string list" "string option"
  | DropIndex string string

definition find_table :: "string \<Rightarrow> schema \<Rightarrow> table option" where
  "find_table t s = List.find (\<lambda>x. table_name x = t) (tables s)"

definition has_columns :: "string list \<Rightarrow> table \<Rightarrow> bool" where
  "has_columns cs t \<longleftrightarrow> list_all (\<lambda>c. c \<in> set (map column_name (table_columns t))) cs"

definition refers_to :: "string \<Rightarrow> table \<Rightarrow> bool" where
  "refers_to t x \<longleftrightarrow> list_ex (\<lambda>c. case foreign_key c of None \<Rightarrow> False | Some (t', _) \<Rightarrow> t' = t) (table_columns x)"

definition valid_reference :: "schema \<Rightarrow> column \<Rightarrow> bool" where
  "valid_reference s c \<longleftrightarrow> (case foreign_key c of None \<Rightarrow> True
     | Some (t, k) \<Rightarrow> (case find_table t s of None \<Rightarrow> False | Some x \<Rightarrow> has_columns [k] x))"

definition update_table :: "table \<Rightarrow> schema \<Rightarrow> schema" where
  "update_table t s = s\<lparr>tables := map (\<lambda>x. if table_name x = table_name t then t else x) (tables s)\<rparr>"

fun run_ddl :: "ddl \<Rightarrow> schema \<Rightarrow> schema option" where
  "run_ddl (CreateTable t cols uniques) s =
     (if find_table t s = None \<and> distinct (map column_name cols) \<and> list_all (valid_reference s) cols \<and>
         list_all (\<lambda>(_, cs). set cs \<subseteq> set (map column_name cols)) uniques
      then Some (s\<lparr>tables := tables s @ [\<lparr>table_name = t, table_columns = cols, table_uniques = uniques\<rparr>]\<rparr>)
      else None)"
| "run_ddl (DropTable t) s =
     (if find_table t s \<noteq> None \<and> \<not> list_ex (\<lambda>x. table_name x \<noteq> t \<and> refers_to t x) (tables s)
      then Some (s\<lparr>tables := filter (\<lambda>x. table_name x \<noteq> t) (tables s),
                    indexes := filter (\<lambda>i. index_table i \<noteq> t) (indexes s)\<rparr>)
      else None)"
| "run_ddl (AddColumn t c) s =
     (case find_table t s of
        None \<Rightarrow> None
      | Some x \<Rightarrow>
          if has_columns [column_name c] x \<or> \<not> valid_reference s c then None
          else Some (update_table (x\<lparr>table_columns := table_columns x @ [c]\<rparr>) s))"
| "run_ddl (DropColumn t n) s =
     (case find_table t s of
        None \<Rightarrow> None
      | Some x \<Rightarrow>
          if \<not> has_columns [n] x then None
          else Some ((update_table
              (x\<lparr>table_columns := filter (\<lambda>c. column_name c \<noteq> n) (table_columns x),
                 table_uniques := filter (\<lambda>(_, cs). n \<notin> set cs) (table_uniques x)\<rparr>) s)
              \<lparr>indexes := filter (\<lambda>i. \<not> (index_table i = t \<and> n \<in> set (index_columns i))) (indexes s)\<rparr>))"
| "run_ddl (CreateIndex i t cs cond) s =
     (case find_table t s of
        None \<Rightarrow> None
      | Some x \<Rightarrow>
          if i \<in> set (map index_name (indexes s)) \<or> \<not> has_columns cs x then None
          else Some (s\<lparr>indexes := indexes s @
                 [(plain_index i t cs)\<lparr>index_where := cond\<rparr>]\<rparr>))"
| "run_ddl (DropIndex i t) s =
     (if list_ex (\<lambda>x. index_name x = i \<and> index_table x = t) (indexes s)
      then Some (s\<lparr>indexes := filter (\<lambda>x. index_name x \<noteq> i) (indexes s)\<rparr>)
      else None)"

fun run_all :: "ddl list \<Rightarrow> schema \<Rightarrow> schema option" where
  "run_all [] s = Some s"
| "run_all (op # ops) s = (case run_ddl op s of None \<Rightarrow> None | Some s' \<Rightarrow> run_all ops s')"

text \<open>The order of tables, columns and indexes is not part of what a schema means.\<close>

definition same_table :: "table \<Rightarrow> table \<Rightarrow> bool" where
  "same_table t u \<longleftrightarrow> table_name t = table_name u \<and>
     set (table_columns t) = set (table_columns u) \<and> set (table_uniques t) = set (table_uniques u)"

definition same_schema :: "schema \<Rightarrow> schema \<Rightarrow> bool" where
  "same_schema s s' \<longleftrightarrow>
     list_all (\<lambda>t. list_ex (same_table t) (tables s')) (tables s) \<and>
     list_all (\<lambda>t. list_ex (same_table t) (tables s)) (tables s') \<and>
     set (indexes s) = set (indexes s')"

section \<open>The revisions\<close>

record revision =
  revision_id :: string
  down_revision :: "string option"
  upgrade :: "ddl list"
  downgrade :: "ddl list"

text \<open>\<open>src/alembic/versions/0001_initial_schema.py\<close>\<close>

definition upgrade_0001 :: "ddl list" where
  "upgrade_0001 = [
    CreateTable ''watcher_state''
      [key_column ''id'' INTEGER,
       data_column ''last_processed_height'' BIGINT (Some ''0''),
       data_column ''snapshot_complete'' BOOLEAN (Some ''false''),
       null_column ''snapshot_started_at'' TIMESTAMPTZ,
       null_column ''snapshot_finished_at'' TIMESTAMPTZ,
       data_column ''updated_at'' TIMESTAMPTZ (Some ''now()'')]
      [],
    CreateTable ''stakers''
      [key_column ''address'' (VARCHAR 64),
       data_column ''staked_amount'' BIGINT (Some ''0''),
       data_column ''effective_stake'' BIGINT (Some ''0''),
       data_column ''tier'' (VARCHAR 16) (Some ''None''),
       data_column ''claimable_rewards'' BIGINT (Some ''0''),
       data_column ''total_rewards_earned'' BIGINT (Some ''0''),
       null_column ''first_stake_height'' BIGINT,
       null_column ''last_activity_height'' BIGINT,
       data_column ''created_at'' TIMESTAMPTZ (Some ''now()''),
       data_column ''updated_at'' TIMESTAMPTZ (Some ''now()'')]
      [],
    CreateTable ''stake_events''
      [key_column ''id'' BIGINT,
       ref_column ''address'' (VARCHAR 64) ''stakers'' ''address'',
       data_column ''event_type'' (VARCHAR 32) None,
       data_column ''amount'' BIGINT None,
       data_column ''block_height'' BIGINT None,
       null_column ''tx_hash'' (VARCHAR 128),
       null_column ''note'' (VARCHAR 256),
       data_column ''created_at'' TIMESTAMPTZ (Some ''now()'')]
      [(''uq_stake_event_tx'', [''address'', ''tx_hash'', ''event_type''])],
    CreateIndex ''ix_stake_events_address'' ''stake_events'' [''address''] None,
    CreateIndex ''ix_stake_events_block_height'' ''stake_events'' [''block_height''] None,
    CreateIndex ''ix_stake_events_tx_hash'' ''stake_events'' [''tx_hash''] None,
    CreateIndex ''ix_stake_events_height_addr'' ''stake_events'' [''block_height'', ''address''] None,
    CreateTable ''unstake_requests''
      [key_column ''id'' BIGINT,
       ref_column ''address'' (VARCHAR 64) ''stakers'' ''address'',
       data_column ''amount'' BIGINT None,
       data_column ''request_height'' BIGINT None,
       data_column ''unlock_height'' BIGINT None,
       data_column ''status'' (VARCHAR 16) (Some ''PENDING''),
       null_column ''refund_tx_hash'' (VARCHAR 128),
       null_column ''completed_height'' BIGINT,
       data_column ''created_at'' TIMESTAMPTZ (Some ''now()''),
       data_column ''updated_at'' TIMESTAMPTZ (Some ''now()'')]
      [],
    CreateIndex ''ix_unstake_requests_address'' ''unstake_requests'' [''address''] None,
    CreateIndex ''ix_unstake_requests_unlock_height'' ''unstake_requests'' [''unlock_height''] None,
    CreateTable ''reward_distributions''
      [key_column ''id'' BIGINT,
       unique_column ''block_height'' BIGINT,
       data_column ''pool_amount'' BIGINT None,
       data_column ''total_effective_stake'' BIGINT None,
       data_column ''recipient_count'' INTEGER None,
       data_column ''distributed_amount'' BIGINT None,
       data_column ''dust'' BIGINT (Some ''0''),
       data_column ''created_at'' TIMESTAMPTZ (Some ''now()'')]
      []]"

definition downgrade_0001 :: "ddl list" where
  "downgrade_0001 = [
    DropTable ''reward_distributions'',
    DropIndex ''ix_unstake_requests_unlock_height'' ''unstake_requests'',
    DropIndex ''ix_unstake_requests_address'' ''unstake_requests'',
    DropTable ''unstake_requests'',
    DropIndex ''ix_stake_events_height_addr'' ''stake_events'',
    DropIndex ''ix_stake_events_tx_hash'' ''stake_events'',
    DropIndex ''ix_stake_events_block_height'' ''stake_events'',
    DropIndex ''ix_stake_events_address'' ''stake_events'',
    DropTable ''stake_events'',
    DropTable ''stakers'',
    DropTable ''watcher_state'']"

definition revision_0001 :: revision where
  "revision_0001 = \<lparr>revision_id = ''0001'', down_revision = None,
     upgrade = upgrade_0001, downgrade = downgrade_0001\<rparr>"

text \<open>\<open>src/alembic/versions/0002_pending_payouts.py\<close>\<close>

definition upgrade_0002 :: "ddl list" where
  "upgrade_0002 = [
    CreateTable ''pending_payouts''
      [key_column ''id'' BIGINT,
       data_column ''recipient'' (VARCHAR 64) None,
       data_column ''amount'' BIGINT None,
       data_column ''kind'' (VARCHAR 32) None,
       data_column ''status'' (VARCHAR 16) (Some ''QUEUED''),
       unique_column ''ref'' (VARCHAR 128),
       null_column ''tx_hash'' (VARCHAR 128),
       null_column ''submitted_height'' BIGINT,
       null_column ''confirmed_height'' BIGINT,
       null_column ''error_message'' (VARCHAR 512),
       data_column ''attempts'' INTEGER (Some ''0''),
       data_column ''created_at'' TIMESTAMPTZ (Some ''now()''),
       data_column ''updated_at'' TIMESTAMPTZ (Some ''now()'')]
      [],
    CreateIndex ''ix_pending_payouts_status'' ''pending_payouts'' [''status''] None,
    CreateIndex ''ix_pending_payouts_recipient'' ''pending_payouts'' [''recipient''] None]"

definition downgrade_0002 :: "ddl list" where
  "downgrade_0002 = [
    DropIndex ''ix_pending_payouts_recipient'' ''pending_payouts'',
    DropIndex ''ix_pending_payouts_status'' ''pending_payouts'',
    DropTable ''pending_payouts'']"

definition revision_0002 :: revision where
  "revision_0002 = \<lparr>revision_id = ''0002'', down_revision = Some ''0001'',
     upgrade = upgrade_0002, downgrade = downgrade_0002\<rparr>"

text \<open>\<open>src/alembic/versions/0003_drop_rewards.py\<close>\<close>

definition upgrade_0003 :: "ddl list" where
  "upgrade_0003 = [
    DropColumn ''stakers'' ''claimable_rewards'',
    DropColumn ''stakers'' ''total_rewards_earned'',
    DropTable ''reward_distributions'']"

definition downgrade_0003 :: "ddl list" where
  "downgrade_0003 = [
    AddColumn ''stakers'' (data_column ''claimable_rewards'' BIGINT (Some ''0'')),
    AddColumn ''stakers'' (data_column ''total_rewards_earned'' BIGINT (Some ''0'')),
    CreateTable ''reward_distributions''
      [key_column ''id'' BIGINT,
       unique_column ''block_height'' BIGINT,
       data_column ''pool_amount'' BIGINT None,
       data_column ''total_effective_stake'' BIGINT None,
       data_column ''recipient_count'' INTEGER None,
       data_column ''distributed_amount'' BIGINT None,
       data_column ''dust'' BIGINT (Some ''0''),
       data_column ''created_at'' TIMESTAMPTZ (Some ''now()'')]
      []]"

definition revision_0003 :: revision where
  "revision_0003 = \<lparr>revision_id = ''0003'', down_revision = Some ''0002'',
     upgrade = upgrade_0003, downgrade = downgrade_0003\<rparr>"

text \<open>\<open>src/alembic/versions/0004_drop_effective_stake.py\<close>\<close>

definition upgrade_0004 :: "ddl list" where
  "upgrade_0004 = [
    DropColumn ''stakers'' ''effective_stake'']"

definition downgrade_0004 :: "ddl list" where
  "downgrade_0004 = [
    AddColumn ''stakers'' (data_column ''effective_stake'' BIGINT (Some ''0''))]"

definition revision_0004 :: revision where
  "revision_0004 = \<lparr>revision_id = ''0004'', down_revision = Some ''0003'',
     upgrade = upgrade_0004, downgrade = downgrade_0004\<rparr>"

text \<open>\<open>src/alembic/versions/0005_validator_rewards.py\<close>\<close>

definition upgrade_0005 :: "ddl list" where
  "upgrade_0005 = [
    CreateTable ''validator_rewards''
      [key_column ''address'' (VARCHAR 64),
       data_column ''pending_rewards'' BIGINT (Some ''0''),
       data_column ''total_claimed'' BIGINT (Some ''0''),
       null_column ''last_credited_height'' BIGINT,
       null_column ''last_claimed_height'' BIGINT,
       data_column ''created_at'' TIMESTAMPTZ (Some ''now()''),
       data_column ''updated_at'' TIMESTAMPTZ (Some ''now()'')]
      [],
    CreateIndex ''ix_validator_rewards_pending'' ''validator_rewards'' [''pending_rewards''] (Some ''pending_rewards > 0''),
    CreateTable ''reward_pool_inflows''
      [key_column ''id'' BIGINT,
       unique_column ''block_height'' BIGINT,
       data_column ''amount'' BIGINT None,
       data_column ''distributed_to_count'' INTEGER (Some ''0''),
       data_column ''dust_remaining'' BIGINT (Some ''0''),
       data_column ''processed_at'' TIMESTAMPTZ (Some ''now()'')]
      [],
    CreateIndex ''ix_reward_pool_inflows_height'' ''reward_pool_inflows'' [''block_height''] None]"

definition downgrade_0005 :: "ddl list" where
  "downgrade_0005 = [
    DropIndex ''ix_reward_pool_inflows_height'' ''reward_pool_inflows'',
    DropTable ''reward_pool_inflows'',
    DropIndex ''ix_validator_rewards_pending'' ''validator_rewards'',
    DropTable ''validator_rewards'']"

definition revision_0005 :: revision where
  "revision_0005 = \<lparr>revision_id = ''0005'', down_revision = Some ''0004'',
     upgrade = upgrade_0005, downgrade = downgrade_0005\<rparr>"

definition revisions :: "revision list" where
  "revisions = [revision_0001, revision_0002, revision_0003, revision_0004, revision_0005]"

section \<open>The tables of the models\<close>










section \<open>The properties\<close>

lemmas revision_defs = revision_0001_def revision_0002_def revision_0003_def revision_0004_def
  revision_0005_def upgrade_0001_def upgrade_0002_def upgrade_0003_def upgrade_0004_def upgrade_0005_def
  downgrade_0001_def downgrade_0002_def downgrade_0003_def downgrade_0004_def downgrade_0005_def

text \<open>The schema after the first \<open>k\<close> revisions.\<close>

fun schema_at :: "nat \<Rightarrow> schema option" where
  "schema_at 0 = Some empty_schema"
| "schema_at (Suc k) = Option.bind (schema_at k) (run_all (upgrade (revisions ! k)))"

text \<open>
  Every revision can be undone. The revisions form one chain; each upgrade succeeds on the
  schema that its predecessors leave, its downgrade then succeeds, and gives back the same
  tables, columns, constraints and indexes.
\<close>

theorem revisions_round_trip:
  "map down_revision revisions = None # map (Some \<circ> revision_id) (butlast revisions) \<and>
   list_all (\<lambda>k. case schema_at k of None \<Rightarrow> False
      | Some s \<Rightarrow> (case run_all (upgrade (revisions ! k)) s of None \<Rightarrow> False
      | Some s' \<Rightarrow> (case run_all (downgrade (revisions ! k)) s' of None \<Rightarrow> False
      | Some s'' \<Rightarrow> same_schema s s''))) [0..<length revisions]"
  by code_simp

section \<open>The migration environment\<close>

text \<open>
  \<open>src/alembic/env.py\<close>. The statements that the library selects for the command are an argument
  (\<open>pending_upgrades\<close> below for \<open>alembic upgrade head\<close>). Online, \<open>context.run_migrations\<close> executes
  them on the connection, within a transaction, and DDL is transactional in PostgreSQL: when one
  fails, none has happened. Offline it writes them out and connects to no database. The value is
  the script that is written out.
\<close>

definition do_run_migrations :: "ddl list \<Rightarrow> (schema, unit) exec" where
  "do_run_migrations ops = (\<lambda>s. case run_all ops s of
     None \<Rightarrow> (Inl (RuntimeError ''migration failed''), s) | Some s' \<Rightarrow> (Inr (), s'))"

definition run_migrations_online :: "ddl list \<Rightarrow> (schema, ddl list) exec" where
  "run_migrations_online ops = andthen (do_run_migrations ops) (return [])"

definition run_migrations_offline :: "ddl list \<Rightarrow> (schema, ddl list) exec" where
  "run_migrations_offline ops = return ops"

definition alembic_env :: "bool \<Rightarrow> ddl list \<Rightarrow> (schema, ddl list) exec" where
  "alembic_env is_offline_mode ops =
     (if is_offline_mode then run_migrations_offline ops else run_migrations_online ops)"

text \<open>The upgrades that a database at its \<open>k\<close>-th revision has not seen, in order.\<close>

definition pending_upgrades :: "nat \<Rightarrow> ddl list" where
  "pending_upgrades k = concat (map upgrade (drop k revisions))"

lemma run_all_append: "run_all (xs @ ys) s = Option.bind (run_all xs s) (run_all ys)"
  by (induction xs arbitrary: s) (auto split: option.split)

lemma schema_at_upgrades: "k \<le> length revisions \<Longrightarrow>
  schema_at k = run_all (concat (map upgrade (take k revisions))) empty_schema"
  by (induction k) (simp_all add: take_Suc_conv_app_nth run_all_append)

text \<open>From wherever the database is, an upgrade to the head reaches the same schema, or changes nothing.\<close>

lemma alembic_env_upgrade:
  assumes "k \<le> length revisions" and "schema_at k = Some s" and "schema_at (length revisions) = Some h"
  shows "alembic_env False (pending_upgrades k) s = (Inr [], h)"
proof -
  have "run_all (concat (map upgrade (take k revisions @ drop k revisions))) empty_schema =
      Option.bind (schema_at k) (run_all (pending_upgrades k))"
    using schema_at_upgrades [OF assms(1)]
    by (simp only: map_append concat_append run_all_append pending_upgrades_def)
  then have "run_all (pending_upgrades k) s = Some h"
    using assms(2,3) schema_at_upgrades [of "length revisions"] by simp
  then show ?thesis
    by (simp add: alembic_env_def run_migrations_online_def do_run_migrations_def bind_def return_exec)
qed

lemma alembic_env_error: "alembic_env offline ops s = (Inl e, s') \<Longrightarrow> s' = s"
  by (auto simp: alembic_env_def run_migrations_online_def do_run_migrations_def run_migrations_offline_def
      bind_def return_exec split: option.splits if_splits)

text \<open>The script that is written out offline does what the online run does.\<close>

lemma offline_script_runs:
  "alembic_env False ops s = (Inr [], s') \<Longrightarrow>
   \<exists>script. alembic_env True ops s = (Inr script, s) \<and> run_all script s = Some s'"
  by (auto simp: alembic_env_def run_migrations_online_def do_run_migrations_def run_migrations_offline_def
      bind_def return_exec split: option.splits)





end
