(* ===== verification/Smoke.thy ===== *)
theory Smoke
  imports HotKeySigner
begin

text \<open>
  \<open>scripts/smoke_pool_l1.py\<close>: the manual check that the pool key signs a transfer the node accepts.
  It has its own copies of the decryption, the serialisation and the wrappers of the native
  library; the properties compare them with those of the service. The environment variable, the
  prompt, the content of the key file, the clock and the text of the node's answer are arguments.
\<close>

section \<open>The script\<close>

definition POOL_ADDR :: string where
  "POOL_ADDR = ''NPC1006639349b6aceb65fc78be92a404e41edb7019''"

definition smoke_derive_address :: "crypto \<Rightarrow> bytes \<Rightarrow> string res" where
  "smoke_derive_address c pk =
     (case npc_dil3_derive_address c pk 48 of
        None \<Rightarrow> Inl (RuntimeError ''derive_address failed'')
      | Some a \<Rightarrow> Inr a)"

definition smoke_sign :: "crypto \<Rightarrow> bytes \<Rightarrow> bytes \<Rightarrow> bytes \<Rightarrow> bytes res" where
  "smoke_sign c msg pk sk =
     (case npc_dil3_sign c msg pk sk SIG_SIZE of
        None \<Rightarrow> Inl (RuntimeError ''sign failed'')
      | Some sig \<Rightarrow> Inr sig)"

definition decrypt_keyfile :: "decryption \<Rightarrow> bytes \<Rightarrow> string \<Rightarrow> bytes res" where
  "decrypt_keyfile dec data passphrase =
     (if take 8 data \<noteq> map char_byte ''Salted__'' then
        Inl (ValueError ''not an OpenSSL Salted__ file'')
      else
        let salt = take 8 (drop 8 data);
            ct = drop 16 data;
            dk = kdf dec passphrase salt;
            key = take 32 dk;
            iv = take 16 (drop 32 dk)
        in rbind (cbc_decrypt dec key iv ct) (\<lambda>padded. unpad dec padded))"

text \<open>The bytes are appended to one buffer, field by field.\<close>

definition serialize_tx :: "tx \<Rightarrow> bytes res" where
  "serialize_tx tx =
     foldl (\<lambda>out part. rbind out (\<lambda>bs. rbind part (\<lambda>p. Inr (bs @ p)))) (Inr [])
       [append_byte (tx_type tx),
        pack_q (tx_timestamp tx),
        pack_q (tx_nonce tx),
        rbind (ascii_encode (tx_from tx)) (\<lambda>from_b. rbind (pack_q (int (length from_b))) (\<lambda>n. Inr (n @ from_b))),
        rbind (ascii_encode (tx_to tx)) (\<lambda>to_b. rbind (pack_q (int (length to_b))) (\<lambda>n. Inr (n @ to_b))),
        pack_q (tx_amount tx),
        pack_q (tx_fee tx),
        (let memo_b = utf8_encode (tx_memo tx) in rbind (pack_q (int (length memo_b))) (\<lambda>n. Inr (n @ memo_b))),
        (let data_b = utf8_encode (tx_data tx) in rbind (pack_q (int (length data_b))) (\<lambda>n. Inr (n @ data_b)))]"

definition smoke_tx :: "int \<Rightarrow> tx" where
  "smoke_tx now = \<lparr>tx_type = 0, tx_timestamp = now, tx_nonce = 1, tx_from = POOL_ADDR, tx_to = POOL_ADDR,
     tx_amount = 100000000, tx_fee = 100000000, tx_memo = ''smoke-test'', tx_data = []\<rparr>"

definition smoke_payload :: "tx \<Rightarrow> bytes \<Rightarrow> bytes \<Rightarrow> json" where
  "smoke_payload tx sig pk =
     JObj [(''type'', JStr ''transfer''), (''from'', JStr (tx_from tx)), (''to'', JStr (tx_to tx)),
       (''amount'', JStr (int_str (tx_amount tx))), (''fee'', JStr (int_str (tx_fee tx))),
       (''nonce'', JStr (int_str (tx_nonce tx))), (''timestamp'', JStr (int_str (tx_timestamp tx))),
       (''memo'', JStr (tx_memo tx)), (''data'', JStr (tx_data tx)),
       (''dilithium_sig'', JStr (hex sig)), (''sender_pubkey'', JStr (hex pk))]"

text \<open>Steps 1 and 2: the keys of the file, or \<open>None\<close> where the script returns 1.\<close>

definition smoke_keys :: "crypto \<Rightarrow> decryption \<Rightarrow> bytes \<Rightarrow> string \<Rightarrow> (bytes \<times> bytes) option res" where
  "smoke_keys c dec keyfile passphrase =
     rbind (decrypt_keyfile dec keyfile passphrase) (\<lambda>kb.
       if length kb \<noteq> PK_SIZE + SK_SIZE then Inr None
       else
         let pk = take PK_SIZE kb; sk = drop PK_SIZE kb
         in rbind (smoke_derive_address c pk) (\<lambda>addr.
            if addr \<noteq> POOL_ADDR then Inr None else Inr (Some (pk, sk))))"

definition smoke_main ::
  "crypto \<Rightarrow> decryption \<Rightarrow> env \<Rightarrow> (json option \<Rightarrow> string) \<Rightarrow> string option \<Rightarrow> string \<Rightarrow> bytes \<Rightarrow> (rpc, int) exec" where
  "smoke_main c dec env text environ prompt keyfile =
     (let passphrase = (case environ of None \<Rightarrow> prompt | Some p \<Rightarrow> if p = [] then prompt else p)
      in bind (lift (smoke_keys c dec keyfile passphrase)) (\<lambda>keys.
        case keys of
          None \<Rightarrow> return 1
        | Some (pk, sk) \<Rightarrow>
            bind (gets (\<lambda>s. trunc_int (wall_clock env (requests s)))) (\<lambda>now.
            let tx = smoke_tx now
            in bind (lift (serialize_tx tx)) (\<lambda>canon.
               let tx_hash = digest (sha3_256 c canon)
               in bind (lift (smoke_sign c tx_hash pk sk)) (\<lambda>sig.
                  bind (send env (POST ''/api/v1/tx/submit'' (smoke_payload tx sig pk))) (\<lambda>r.
                    case r of
                      TransportError m \<Rightarrow> raise (HTTPError m)
                    | Response st body \<Rightarrow>
                        return (if is_success st \<and> \<not> contains ''error'' (lower (text body)) then 0 else 1)))))))"

section \<open>The script agrees with the service\<close>

lemma rbind_assoc: "rbind (rbind r f) g = rbind r (\<lambda>a. rbind (f a) g)"
  by (cases r) simp_all

lemma pool_addr: "POOL_ADDR = pool_address"
  by (simp add: POOL_ADDR_def pool_address_def)

text \<open>
  The script's buffer, filled field by field, ends up with the bytes of the service's
  serialisation, and raises exactly when, and as, the service's does.
\<close>

lemma smoke_serialises_alike: "serialize_tx t = serialize_canonical t"
  by (simp add: serialize_tx_def serialize_canonical_def pack_bytes_def Let_def rbind_assoc)

lemma smoke_derive_Inr:
  "smoke_derive_address c pk = Inr a \<longleftrightarrow> derive_address c pk = Inr a"
  by (auto simp: smoke_derive_address_def derive_address_def npc_dil3_derive_address_def split: if_splits)

lemma decrypt_keyfile_Inr:
  "decrypt_keyfile dec data p = Inr kb \<longleftrightarrow> decrypt_openssl_cbc_pbkdf2 dec data p = Inr kb"
  by (simp add: decrypt_keyfile_def decrypt_openssl_cbc_pbkdf2_def Let_def)

text \<open>
  One key check. The script goes on to sign with a key pair exactly when the service, started
  with the same key file and passphrase, loads that pair as the key of the pool address.
\<close>

theorem smoke_key_iff_service_key:
  "(passphrase \<noteq> [] \<and> smoke_keys c dec keyfile passphrase = Inr (Some (pk, sk))) =
   (load_key c dec (Some passphrase) (Some keyfile) None =
     (Inr \<lparr>key_address = pool_address, public_key = pk, secret_key = sk\<rparr>,
      Some \<lparr>key_address = pool_address, public_key = pk, secret_key = sk\<rparr>))"
  (is "?smoke = ?service")
proof -
  have "?smoke \<longleftrightarrow> passphrase \<noteq> [] \<and> (\<exists>kb. decrypt_openssl_cbc_pbkdf2 dec keyfile passphrase = Inr kb \<and>
      length kb = PK_SIZE + SK_SIZE \<and> derive_address c (take PK_SIZE kb) = Inr pool_address \<and>
      pk = take PK_SIZE kb \<and> sk = drop PK_SIZE kb)"
    by (auto simp: smoke_keys_def rbind_eq_Inr decrypt_keyfile_Inr Let_def smoke_derive_Inr pool_addr
        split: if_splits)
  also have "\<dots> \<longleftrightarrow> ?service"
    by (auto simp: load_key_def bind_def gets_exec lift_exec return_exec raise_exec modify_exec Let_def
        split: sum.splits if_splits)
  finally show ?thesis .
qed

end
