(* ===== verification/Endpoints.thy ===== *)
theory Endpoints
  imports Example
begin

text \<open>
  What the signed endpoints of \<open>src/api/write.py\<close> promise: who may change which rows, the exact
  effect of a request and of a cancellation, and two places where the code does not do what its
  documentation says (claims, and cancelling a request whose refund is already queued).
\<close>

lemma keep_sequences_same [simp]: "keep_sequences d d = d"
  by (simp add: keep_sequences_def)

lemma committed_rolled_back_begin [simp]:
  "committed (rolled_back (begin_session t d)) = d"
  "committed (rolled_back (rolled_back (begin_session t d))) = d"
  by (simp_all add: rolled_back_def keep_sequences_def)

lemma committed_rolled_back_pending:
  "next_request_id d' = next_request_id d \<Longrightarrow> next_payout_id d' = next_payout_id d \<Longrightarrow>
   committed (rolled_back ((begin_session t d)\<lparr>working := d'\<rparr>)) = d"
  by (simp add: rolled_back_def keep_sequences_def)

lemma committed_rolled_back_same:
  "committed s = d \<Longrightarrow> working s = d \<Longrightarrow> committed (rolled_back s) = d"
  by (simp add: rolled_back_def)

section \<open>Requests to unstake\<close>

text \<open>
  C26. A request to unstake. It succeeds exactly when the address has the stake, the snapshot is
  complete and the new values fit their columns; then the amount has moved from the stake into
  a new pending request that unlocks 10080 blocks later, and the answer says so. Otherwise it
  answers with an error and the database is as before.
\<close>

theorem request_unstake_effect:
  "case get_session (request_unstake_body a n) t d of (r, d') \<Rightarrow>
     (case r of
        Inl e \<Rightarrow> d' = d \<and> (\<nexists>st h. get_staker d a = Some st \<and> n \<le> staked_amount st \<and> watcher_ready d h \<and>
          staker_columns (set_stake (staked_amount st - n) h st) \<and>
          request_columns (new_request a n h (h + 10080) (next_request_id d)))
      | Inr v \<Rightarrow> \<exists>st h. get_staker d a = Some st \<and> n \<le> staked_amount st \<and> watcher_ready d h \<and>
          d' = lock_unstake (set_stake (staked_amount st - n) h st)
                 (new_request a n h (h + 10080) (next_request_id d)) d \<and>
          ur_request_id v = next_request_id d \<and> ur_unlock_height v = h + 10080 \<and>
          ur_blocks_until_unlock v = 10080 \<and> ur_new_staked_amount v = staked_amount st - n \<and>
          ur_new_tier v = tier_name (tier_for (staked_amount st - n)))"
proof (cases "\<exists>st h. get_staker d a = Some st \<and> n \<le> staked_amount st \<and> watcher_ready d h")
  case False
  then obtain e where "request_unstake_body a n (begin_session t d) = (Inl e, begin_session t d)"
    using request_unstake_body_refused [of "begin_session t d" a n] by auto
  with False show ?thesis by (auto simp: get_session_def)
next
  case True
  then obtain st h where pre: "get_staker d a = Some st" "n \<le> staked_amount st" and h: "watcher_ready d h"
    by blast
  have unique: "h' = h" if "watcher_ready d h'" for h' using h that by (auto simp: watcher_ready_def)
  note run = request_unstake_body_run [of "begin_session t d" a st n h, simplified, OF pre h]
  show ?thesis
  proof (cases "staker_columns (set_stake (staked_amount st - n) h st) \<and>
      request_columns (new_request a n h (h + unstake_cooldown_blocks) (next_request_id d))")
    case True
    then show ?thesis
      using pre h
      by (auto simp: get_session_def run committed_rolled_back_same unstake_cooldown_blocks_def
          new_request_def [of a n h "h + 10080"])
  next
    case False
    then show ?thesis
      using pre unique by (auto simp: get_session_def run unstake_cooldown_blocks_def)
  qed
qed

text \<open>
  C29. A cancellation. It succeeds exactly when the request exists, is the caller's, is PENDING or
  READY, the snapshot is complete and the new values fit; then the amount is back in the stake
  and the request is CANCELLED at the current height. Otherwise nothing changes.
\<close>

theorem cancel_unstake_effect:
  "case get_session (cancel_unstake_body a i) t d of (r, d') \<Rightarrow>
     (case r of
        Inl e \<Rightarrow> d' = d \<and> (\<nexists>u st h. cancellable d a i u st h \<and>
          staker_columns (set_stake (staked_amount st + request_amount u) h st) \<and>
          request_columns (u\<lparr>request_status := CANCELLED, completed_height := Some h\<rparr>))
      | Inr v \<Rightarrow> \<exists>u st h. cancellable d a i u st h \<and>
          d' = put_request (u\<lparr>request_status := CANCELLED, completed_height := Some h\<rparr>)
                 (put_staker (set_stake (staked_amount st + request_amount u) h st) d) \<and>
          cr_amount_restored v = request_amount u \<and>
          cr_new_staked_amount v = staked_amount st + request_amount u)"
proof (cases "\<exists>u st h. cancellable d a i u st h")
  case False
  then obtain e where "cancel_unstake_body a i (begin_session t d) = (Inl e, begin_session t d)"
    using cancel_unstake_body_refused [of "begin_session t d" a i] by auto
  with False show ?thesis by (auto simp: get_session_def)
next
  case True
  then obtain u st h where pre: "cancellable d a i u st h" by blast
  have unique: "u' = u \<and> st' = st \<and> h' = h" if "cancellable d a i u' st' h'" for u' st' h'
    using pre that by (auto simp: cancellable_def watcher_ready_def)
  note run = cancel_unstake_body_run [of "begin_session t d" a i u st h, simplified, OF pre]
  show ?thesis
  proof (cases "staker_columns (set_stake (staked_amount st + request_amount u) h st) \<and>
      request_columns (cancelled_request h u)")
    case True
    then have "get_session (cancel_unstake_body a i) t d =
        (Inr \<lparr>cr_status = ''cancelled'', cr_request_id = i, cr_amount_restored = request_amount u,
           cr_amount_restored_npc = to_npc (request_amount u),
           cr_new_staked_amount = staked_amount st + request_amount u,
           cr_new_tier = tier_name (tier_for (staked_amount st + request_amount u))\<rparr>,
         cancel_effect h u st d)"
      by (simp add: get_session_def run committed_rolled_back_same)
    then show ?thesis using pre by (auto simp: cancel_effect_def cancelled_request_def)
  next
    case False
    then have "get_session (cancel_unstake_body a i) t d = (Inl DataError, d)"
      by (auto simp: get_session_def run)
    then show ?thesis using False unique by (auto simp: cancelled_request_def)
  qed
qed

section \<open>Who may change what\<close>

definition accepted :: "crypto \<Rightarrow> readings \<Rightarrow> string \<Rightarrow> int \<Rightarrow> 'r SignedRequest_scheme \<Rightarrow> app \<Rightarrow> bool" where
  "accepted c k action n req s \<longleftrightarrow>
     fst (verify_signed_request c (clock1 k) (clock2 k) action (req_address req) n (req_nonce req)
       (req_timestamp req) (req_signature req) (req_pubkey req) (nonces s)) = Inr ()"

lemma endpoint_accepted:
  assumes "endpoint valid c k action n req body s = (r, s')"
  obtains (refused) "database s' = database s"
    | (ran) "accepted c k action n req s" "database s' = snd (get_session body (clock3 k) (database s))"
  using assms
  by (auto simp: endpoint_def accepted_def split: if_splits prod.splits sum.splits)

lemma request_keeps_others:
  assumes "get_session (request_unstake_body a n) t d = (r, d')" and "b \<noteq> a"
  shows "get_staker d' b = get_staker d b"
proof -
  obtain r0 s0 where body: "request_unstake_body a n (begin_session t d) = (r0, s0)" by fastforce
  then have d': "d' = committed (rolled_back s0)" using assms(1) by (simp add: get_session_def)
  from body show ?thesis
  proof (cases rule: request_unstake_body_cases)
    case (refused e)
    with d' show ?thesis by auto
  next
    case (locked st height u d1)
    then have "staker_address st = a" using staker_table.get_key by auto
    with locked d' assms(2) show ?thesis
      by (simp add: committed_rolled_back_same get_staker_def lock_unstake_def row_get_put)
  qed
qed

lemma cancel_keeps_others:
  assumes "get_session (cancel_unstake_body a i) t d = (r, d')" and "b \<noteq> a"
  shows "get_staker d' b = get_staker d b"
proof -
  obtain r0 s0 where body: "cancel_unstake_body a i (begin_session t d) = (r0, s0)" by fastforce
  then have d': "d' = committed (rolled_back s0)" using assms(1) by (simp add: get_session_def)
  from body show ?thesis
  proof (cases rule: cancel_unstake_body_cases)
    case (refused e)
    with d' show ?thesis by auto
  next
    case (cancelled u st h)
    then have "staker_address st = a" using staker_table.get_key by (auto simp: cancellable_def)
    with cancelled d' assms(2) show ?thesis
      by (simp add: committed_rolled_back_same get_staker_def cancel_effect_def row_get_put)
  qed
qed

text \<open>
  Only the owner of a key changes an account. When a request to unstake or to cancel changes
  the database, its signature was accepted for this action, this address and this amount (or
  request id), and no other account has changed.
\<close>

theorem only_signed_requests_change_accounts:
  "(database (snd (request_unstake c k ureq s)) \<noteq> database s \<longrightarrow>
      accepted c k ''UNSTAKE'' (req_amount ureq) ureq s \<and>
      (\<forall>b. b \<noteq> req_address ureq \<longrightarrow>
         get_staker (database (snd (request_unstake c k ureq s))) b = get_staker (database s) b)) \<and>
   (database (snd (cancel_unstake c k creq s)) \<noteq> database s \<longrightarrow>
      accepted c k ''CANCEL_UNSTAKE'' (req_request_id creq) creq s \<and>
      (\<forall>b. b \<noteq> req_address creq \<longrightarrow>
         get_staker (database (snd (cancel_unstake c k creq s))) b = get_staker (database s) b))"
proof -
  obtain r1 s1 where u: "request_unstake c k ureq s = (r1, s1)" by fastforce
  obtain r2 s2 where x: "cancel_unstake c k creq s = (r2, s2)" by fastforce
  have "database s1 \<noteq> database s \<longrightarrow> accepted c k ''UNSTAKE'' (req_amount ureq) ureq s \<and>
      (\<forall>b. b \<noteq> req_address ureq \<longrightarrow> get_staker (database s1) b = get_staker (database s) b)"
    using u request_keeps_others [OF surjective_pairing]
    unfolding request_unstake_def by (auto elim: endpoint_accepted)
  moreover have "database s2 \<noteq> database s \<longrightarrow> accepted c k ''CANCEL_UNSTAKE'' (req_request_id creq) creq s \<and>
      (\<forall>b. b \<noteq> req_address creq \<longrightarrow> get_staker (database s2) b = get_staker (database s) b)"
    using x cancel_keeps_others [OF surjective_pairing]
    unfolding cancel_unstake_def by (auto elim: endpoint_accepted)
  ultimately show ?thesis using u x by simp
qed

lemma only_signed_requests_change_accounts_witness:
  "accepted ex_crypto ex_readings ''UNSTAKE'' 100 ex_request \<lparr>nonces = Map.empty, database = ex_ready\<rparr> \<and>
   accepted ex_crypto \<lparr>clock1 = 3000, clock2 = 3000, clock3 = 3000\<rparr> ''CANCEL_UNSTAKE'' 1 ex_cancel (ex_app ex_unlocked)"
proof -
  have "ex_requested \<noteq> ex_ready" "ex_cancelled \<noteq> ex_unlocked"
    by (auto simp: ex_states ex_cancelled_def ex_staker_def dest: arg_cong [of _ _ stakers])
  moreover have "req_amount ex_request = 100" "req_request_id ex_cancel = 1"
    by (simp_all add: ex_request_def ex_cancel_def)
  ultimately show ?thesis
    using only_signed_requests_change_accounts [of ex_crypto ex_readings ex_request
        "\<lparr>nonces = Map.empty, database = ex_ready\<rparr>"]
      only_signed_requests_change_accounts [of ex_crypto "\<lparr>clock1 = 3000, clock2 = 3000, clock3 = 3000\<rparr>" _
        "ex_app ex_unlocked" ex_cancel]
      ex_request_step(2) ex_cancel_step
    by (simp add: ex_after_request_def ex_app_def)
qed

lemma nonce_replayed_after_purge_witness:
  "fst (verify_signed_request ex_crypto 1261 1261 ''UNSTAKE'' ex_addr 100 ''nonce-01'' 1000
     (hex (replicate 3309 0)) (hex (replicate 1952 0))
     (run_checks [(950, 950, ''nonce-02'', 950)] [''nonce-01'' \<mapsto> 900])) = Inr ()"
proof -
  have "verify_signed_request ex_crypto 900 900 ''UNSTAKE'' ex_addr 100 ''nonce-01'' 1000
      (hex (replicate 3309 0)) (hex (replicate 1952 0)) Map.empty = (Inr (), [''nonce-01'' \<mapsto> 900])"
    by (rule ex_verified) (simp add: check_replay_accepts purge_old_nonces_def trunc_int_def)
  from nonce_replayed_after_purge [OF this, of "[(950, 950, ''nonce-02'', 950)]" 1261]
  show ?thesis by (simp add: trunc_int_def)
qed

lemma honest_request_accepted_witness:
  "fst (verify_signed_request ex_crypto 1000 1000 ''UNSTAKE'' ex_addr 100 ''nonce-01'' 1000
     (hex (replicate 3309 0)) (hex (replicate 1952 0)) Map.empty) = Inr ()"
proof -
  have "signature_scheme ex_crypto"
    by (simp add: signature_scheme_def ex_crypto_def dilithium_sizes)
  moreover have "keygen ex_crypto 0 = Inr (replicate 1952 0, replicate 4032 0)"
    by (simp add: keygen_def npc_dil3_keygen_def ex_crypto_def dilithium_sizes)
  moreover have "derive_address ex_crypto (replicate 1952 0) = Inr ex_addr"
    using ex_derived by (simp add: derive_address_total dilithium_sizes)
  moreover have "sign ex_crypto m (replicate 1952 0) (replicate 4032 0) = Inr (replicate 3309 0)" for m
    by (simp add: sign_def npc_dil3_sign_def ex_crypto_def dilithium_sizes)
  moreover have "purge_old_nonces 1000 Map.empty ''nonce-01'' = None" "\<bar>trunc_int 1000 - 1000\<bar> \<le> 300"
    by (simp_all add: purge_old_nonces_def trunc_int_def)
  ultimately show ?thesis
    using honest_request_accepted [of ex_crypto 0 "replicate 1952 0" "replicate 4032 0" ex_addr] by simp
qed

section \<open>Cancelling too late\<close>

text \<open>
  C32. Cancelling is allowed after the refund is queued, and does not stop it: the service can
  reach a state in which the whole stake of an address is staked again, its only unstake request
  is CANCELLED, and the refund of that request has been submitted to the chain.
\<close>

theorem cancelled_request_is_paid:
  "\<exists>s a u p. reachable s \<and> unstake_requests (database s) = [u] \<and> request_status u = CANCELLED \<and>
     request_address u = a \<and> stake_of a (database s) = event_total ''STAKE'' a (database s) \<and>
     pending_payouts (database s) = [p] \<and> refunds p u \<and> payout_status p = SUBMITTED \<and> 0 < payout_amount p"
proof -
  let ?d = "ex_cancelled\<lparr>pending_payouts := [ex_submitted]\<rparr>"
  let ?u = "(ex_unstake CANCELLED)\<lparr>completed_height := Some 10081\<rparr>"
  have "unstake_requests ?d = [?u]" "pending_payouts ?d = [ex_submitted]"
    by (simp_all add: ex_cancelled_def)
  moreover have "stake_of ex_addr ?d = 300" "event_total ''STAKE'' ex_addr ?d = 300"
    by (simp_all add: stake_of_def get_staker_def event_total_def ex_cancelled_def ex_states row_get_Cons)
      (simp_all add: ex_parts)
  moreover have "unstake_ref 1 = ''unstake:1''" by code_simp
  then have "refunds ex_submitted ?u" by (simp add: refunds_def ex_payout_def ex_unstake_def)
  ultimately show ?thesis
    by (intro exI [of _ "\<lparr>nonces = [''nonce-02'' \<mapsto> 3000], database = ?d\<rparr>"] exI [of _ ex_addr]
        exI [of _ ?u] exI [of _ ex_submitted])
      (simp add: ex_reachable_cancelled_and_paid, simp add: ex_unstake_def ex_payout_def)
qed

section \<open>Claims\<close>

text \<open>
  No claim of rewards ever succeeds. Whatever the request and the state, the endpoint
  answers with an error and leaves the database as it was, while a nonce that was accepted stays
  used: \<open>enqueue_payout\<close> refuses the kind REWARD\_CLAIM that the endpoint asks for.
\<close>

theorem claims_never_succeed:
  "case claim_rewards c k req s of (r, s') \<Rightarrow> (\<exists>e. r = Inl e) \<and> database s' = database s"
proof -
  obtain r0 s0 where b: "claim_rewards_body (req_address req) (req_nonce req)
      (begin_session (clock3 k) (database s)) = (r0, s0)" by fastforce
  then obtain e where "r0 = Inl e" and "committed (rolled_back s0) = database s"
    by (rule claim_rewards_body_cases) (auto simp: committed_rolled_back_pending)
  then show ?thesis
    using b
    by (auto simp: claim_rewards_def endpoint_def get_session_def split: prod.split sum.split)
qed

end
