(* ===== verification/Payouts.thy ===== *)
theory Payouts
  imports Endpoints
begin

text \<open>
  The life of a payout: which requests are turned into payouts at a block, which payouts the
  runner takes, what may happen to a row, and for how long.
\<close>

section \<open>The rows fit their columns\<close>

definition rows_fit :: "db \<Rightarrow> bool" where
  "rows_fit d \<longleftrightarrow> (\<forall>st \<in> set (stakers d). staker_columns st) \<and>
     (\<forall>e \<in> set (stake_events d). event_columns e) \<and>
     (\<forall>u \<in> set (unstake_requests d). request_columns u) \<and>
     (\<forall>p \<in> set (pending_payouts d). payout_columns p)"

lemma rows_fitD:
  assumes "rows_fit d"
  shows "get_request d i = Some u \<Longrightarrow> request_columns u"
    and "get_payout d i = Some p \<Longrightarrow> payout_columns p"
  using assms request_table.get_mem payout_table.get_mem by (auto simp: rows_fit_def)

lemma status_fits [simp]:
  "payout_columns (p\<lparr>payout_status := st\<rparr>) = payout_columns p"
  "request_columns (u\<lparr>request_status := rs\<rparr>) = request_columns u"
  by (simp_all add: columns_defs)

lemma rows_fit_frame [simp]:
  "rows_fit (put_reward r d) = rows_fit d"
  "rows_fit (pool_effect n h d) = rows_fit d"
  "rows_fit (d\<lparr>next_request_id := i\<rparr>) = rows_fit d"
  "rows_fit (d\<lparr>next_payout_id := j\<rparr>) = rows_fit d"
  "rows_fit (d\<lparr>next_request_id := i, next_payout_id := j\<rparr>) = rows_fit d"
  "rows_fit (d\<lparr>watcher := w\<rparr>) = rows_fit d"
  by (simp_all add: rows_fit_def)

lemma rows_fit_put:
  "rows_fit d \<Longrightarrow> staker_columns st \<Longrightarrow> rows_fit (put_staker st d)"
  "rows_fit d \<Longrightarrow> request_columns u \<Longrightarrow> rows_fit (put_request u d)"
  "rows_fit d \<Longrightarrow> payout_columns p \<Longrightarrow> rows_fit (put_payout p d)"
  by (auto simp: rows_fit_def dest!: set_row_put)

lemma rows_fit_step:
  assumes "db_step d d'" and ok: "rows_fit d"
  shows "rows_fit d'"
  using assms(1)
proof cases
  case (open_account a)
  with ok show ?thesis by (simp add: rows_fit_def)
next
  case credit
  with ok show ?thesis by (auto simp: record_stake_def intro!: rows_fit_put) (auto simp: rows_fit_def)
next
  case debit
  with ok show ?thesis by (auto simp: record_stake_def intro!: rows_fit_put) (auto simp: rows_fit_def)
next
  case (lock a st n height st' u)
  with rows_fit_put(1) [OF ok, of st'] show ?thesis by (auto simp: lock_unstake_def rows_fit_def)
next
  case (refund i u u' p t)
  with rows_fit_put(2) [OF ok, of u'] show ?thesis by (auto simp: queue_refund_def rows_fit_def)
qed (use ok rows_fitD [OF ok] in \<open>auto intro!: rows_fit_put\<close>)

interpretation columns: db_invariant rows_fit
  by unfold_locales (auto intro: rows_fit_step)

interpretation sequences: db_invariant "\<lambda>d. 1 \<le> next_request_id d \<and> 1 \<le> next_payout_id d"
proof unfold_locales
  fix d d' assume "db_step d d'" "1 \<le> next_request_id d \<and> 1 \<le> next_payout_id d"
  then show "1 \<le> next_request_id d' \<and> 1 \<le> next_payout_id d'"
    by (cases; simp add: effect_defs)
qed auto

lemma reachable_sequences: "reachable s \<Longrightarrow> 1 \<le> next_request_id (database s) \<and> 1 \<le> next_payout_id (database s)"
  using sequences.reachable_keeps by (simp add: empty_db_def)

text \<open>
  The rows fit their columns. In every reachable state each account, event, unstake request
  and payout satisfies the types of its columns, so that all amounts, heights and ids lie in
  the range of a 64-bit integer and no string is longer than its VARCHAR.
\<close>

theorem reachable_rows_fit:
  assumes "reachable s"
  shows "(\<forall>st \<in> set (stakers (database s)). staker_columns st) \<and>
    (\<forall>e \<in> set (stake_events (database s)). event_columns e) \<and>
    (\<forall>u \<in> set (unstake_requests (database s)). request_columns u) \<and>
    (\<forall>p \<in> set (pending_payouts (database s)). payout_columns p)"
  using columns.reachable_keeps [OF assms] by (simp add: rows_fit_def empty_db_def)

lemma reachable_rows_fit_witness:
  "staked_amount (ex_staker 200) < 2 ^ 63 \<and> length (staker_address (ex_staker 200)) \<le> 64"
proof -
  have "ex_staker 200 \<in> set (stakers (database (ex_app ex_requested)))"
    by (simp add: ex_app_def ex_requested_def)
  then have "staker_columns (ex_staker 200)" using reachable_rows_fit [OF ex_reachable(1)] by blast
  then show ?thesis by (simp add: staker_columns_def big_integer_def varchar_def)
qed

section \<open>Queueing the refunds of a block\<close>

fun queued_refunds :: "time \<Rightarrow> int \<Rightarrow> UnstakeRequest list \<Rightarrow> PendingPayout list" where
  "queued_refunds t i [] = []"
| "queued_refunds t i (u # us) = new_payout (request_address u) (request_amount u) ''UNSTAKE_REFUND''
     (unstake_ref (request_id u)) t i # queued_refunds t (i + 1) us"

definition ready_when :: "(UnstakeRequest \<Rightarrow> bool) \<Rightarrow> UnstakeRequest list \<Rightarrow> UnstakeRequest list" where
  "ready_when P us = map (\<lambda>u. if P u then u\<lparr>request_status := READY\<rparr> else u) us"

lemma row_put_ready:
  assumes "distinct (map request_id us)" and "u \<in> set us"
  shows "row_put request_id (u\<lparr>request_status := READY\<rparr>) us = ready_when (\<lambda>v. request_id v = request_id u) us"
  using assms unfolding row_put_def ready_when_def
  by (auto simp: distinct_map inj_on_eq_iff)

lemma queue_refund_run:
  assumes "epoch s = ep" "0 < request_amount u" "request_columns u" "payout_columns (refund_of u s)"
    and "row_get payout_ref (pending_payouts (working s)) (unstake_ref (request_id u)) = None"
  shows "process_unlocked ep u s =
    (Inr (), s\<lparr>working := queue_refund (u\<lparr>request_status := READY\<rparr>) (refund_of u s) (working s)\<rparr>)"
  using assms
  by (simp add: process_unlocked_def bind_def write_request_run enqueue_payout_def catch_def gets_exec
      insert_payout_run loaded_attribute_run return_exec Let_def queue_refund_def)

lemma ready_when_twice:
  "ready_when (\<lambda>v. request_id v \<in> A) (ready_when (\<lambda>v. request_id v = i) us) =
     ready_when (\<lambda>v. request_id v \<in> insert i A) us"
  by (auto simp: ready_when_def)

lemma ready_when_keys [simp]: "map request_id (ready_when P us) = map request_id us"
  by (simp add: ready_when_def)

lemma ready_when_mem: "u \<in> set us \<Longrightarrow> \<not> P u \<Longrightarrow> u \<in> set (ready_when P us)"
  by (force simp: ready_when_def)

lemma queue_refunds_run:
  assumes "distinct (map request_id (unstake_requests (working s)))" "distinct (map request_id us)"
    and "epoch s = ep"
    and "\<forall>u \<in> set us. u \<in> set (unstake_requests (working s)) \<and> 0 < request_amount u \<and> request_columns u \<and>
      row_get payout_ref (pending_payouts (working s)) (unstake_ref (request_id u)) = None"
    and "\<forall>u \<in> set us. \<forall>i. next_payout_id (working s) \<le> i \<and> i < next_payout_id (working s) + int (length us) \<longrightarrow>
      payout_columns (new_payout (request_address u) (request_amount u) ''UNSTAKE_REFUND''
        (unstake_ref (request_id u)) (clock s) i)"
  shows "for_each (process_unlocked ep) us s = (Inr (), s\<lparr>working := (working s)\<lparr>
      unstake_requests := ready_when (\<lambda>v. request_id v \<in> request_id ` set us) (unstake_requests (working s)),
      pending_payouts := pending_payouts (working s) @ queued_refunds (clock s) (next_payout_id (working s)) us,
      next_payout_id := next_payout_id (working s) + int (length us)\<rparr>\<rparr>)"
  using assms
proof (induction us arbitrary: s)
  case Nil
  then show ?case by (simp add: return_exec ready_when_def)
next
  case (Cons u us)
  define s1 where "s1 = s\<lparr>working := (working s)\<lparr>
      unstake_requests := ready_when (\<lambda>v. request_id v = request_id u) (unstake_requests (working s)),
      pending_payouts := pending_payouts (working s) @ [refund_of u s],
      next_payout_id := next_payout_id (working s) + 1\<rparr>\<rparr>"
  have "payout_columns (refund_of u s)" using Cons.prems(5) by simp
  with Cons.prems have "process_unlocked ep u s =
      (Inr (), s\<lparr>working := queue_refund (u\<lparr>request_status := READY\<rparr>) (refund_of u s) (working s)\<rparr>)"
    by (intro queue_refund_run) auto
  moreover have "queue_refund (u\<lparr>request_status := READY\<rparr>) (refund_of u s) (working s) = working s1"
    using Cons.prems(1,4) row_put_ready [of "unstake_requests (working s)" u]
    by (simp add: s1_def queue_refund_def put_request_def row_insert_def)
  ultimately have first: "process_unlocked ep u s = (Inr (), s1)" by (simp add: s1_def)
  have other: "request_id v \<noteq> request_id u" if "v \<in> set us" for v
  proof -
    have "request_id v \<in> request_id ` set us" using that by simp
    with Cons.prems(2) show ?thesis by auto
  qed
  have "\<forall>v \<in> set us. v \<in> set (unstake_requests (working s1)) \<and> 0 < request_amount v \<and> request_columns v \<and>
      row_get payout_ref (pending_payouts (working s1)) (unstake_ref (request_id v)) = None"
    using Cons.prems(4) by (auto simp: s1_def row_get_append row_get_Cons dest: other intro!: ready_when_mem)
  moreover have "epoch s1 = ep" "clock s1 = clock s" "next_payout_id (working s1) = next_payout_id (working s) + 1"
    using Cons.prems(3) by (simp_all add: s1_def)
  ultimately have "for_each (process_unlocked ep) us s1 = (Inr (), s1\<lparr>working := (working s1)\<lparr>
      unstake_requests := ready_when (\<lambda>v. request_id v \<in> request_id ` set us) (unstake_requests (working s1)),
      pending_payouts := pending_payouts (working s1) @ queued_refunds (clock s1) (next_payout_id (working s1)) us,
      next_payout_id := next_payout_id (working s1) + int (length us)\<rparr>\<rparr>)"
    using Cons.prems by (intro Cons.IH) (auto simp: s1_def)
  with first show ?case
    by (simp add: bind_def s1_def ready_when_twice insert_commute)
qed

text \<open>The reference and the memo of a payout are short: they end with the decimals of an id.\<close>

lemma length_int_str: "big_integer i \<Longrightarrow> length (int_str i) \<le> 20"
proof -
  assume i: "big_integer i"
  have "length (nat_str (nat k)) \<le> 19" if "k \<le> 2 ^ 63" for k
    using that by (intro length_nat_str) simp_all
  from this [of i] this [of "- i"] i show ?thesis by (simp add: int_str_def big_integer_def)
qed

text \<open>The columns of the refund of a stored request.\<close>

lemma refund_columns:
  assumes "request_columns u" and "big_integer i"
  shows "payout_columns (new_payout (request_address u) (request_amount u) ''UNSTAKE_REFUND''
    (unstake_ref (request_id u)) t i)"
proof -
  have "length (unstake_ref (request_id u)) \<le> 28" "sql_text (unstake_ref (request_id u))"
    using assms(1) length_int_str [of "request_id u"] by (simp_all add: unstake_ref_def columns_defs)
  with assms show ?thesis by (simp add: columns_defs varchar_def sql_integer_def)
qed

text \<open>
  C11. Every payout can be paid. In every reachable state the recipient of a payout is an address as
  it is derived from a key, \<open>NPC\<close> and 40 hexadecimal digits, because only a request whose address
  was compared with the one of its key is ever recorded; the amount is positive and fits 64 bits.
  So for every nonce and time of 64 bits the transfer that the signer builds with the key of the pool
  serialises: signing a payout never fails for what its row says, which would use up its attempts.
\<close>

theorem payouts_are_payable:
  assumes "reachable s" and "p \<in> set (pending_payouts (database s))"
    and "0 \<le> nonce" "nonce < 2 ^ 64" and "0 \<le> now" "now < 2 ^ 64" and "key_address key = pool_address"
  shows "length (recipient p) = 43 \<and> take 3 (recipient p) = ''NPC'' \<and>
    set (drop 3 (recipient p)) \<subseteq> set ''0123456789abcdef'' \<and>
    0 < payout_amount p \<and> payout_amount p < 2 ^ 63 \<and>
    (\<exists>bs. serialize_canonical (payout_tx key p nonce now) = Inr bs)"
proof -
  let ?d = "database s"
  have ok: "accounts_ok ?d" "payouts_ok ?d" using reachable_ok [OF assms(1)] by (simp_all add: service_ok_def)
  then obtain u where u: "u \<in> set (unstake_requests ?d)" "refunds p u" and p: "payout_ok p"
    using assms(2) by (auto simp: payouts_ok_def)
  then have req: "request_ok u" using accounts_okD(2) [OF ok(1)] by blast
  have to: "npc_address (recipient p)" and amount: "0 < payout_amount p" "payout_amount p < 2 ^ 63"
    using u(2) req by (simp_all add: refunds_def request_ok_def columns_defs big_integer_def)
  have "rows_fit ?d" using columns.reachable_keeps [OF assms(1)] by (simp add: rows_fit_def empty_db_def)
  then have "big_integer (payout_id p)" using assms(2) by (simp add: rows_fit_def payout_columns_def)
  then have "length (payout_memo p) < 100"
    using length_int_str [of "payout_id p"] p by (simp add: payout_memo_def payout_ok_def)
  then have memo: "length (utf8_encode (payout_memo p)) < 2 ^ 64"
    using length_utf8_encode [of "payout_memo p"] by simp
  have pool: "\<forall>c \<in> set pool_address. (of_char c :: nat) < 128" "length pool_address < 2 ^ 64"
    by (simp_all add: pool_address_def)
  have "\<exists>bs. serialize_canonical (payout_tx key p nonce now) = Inr bs"
    using assms(3-7) to amount memo pool npc_address_ascii [OF to]
    by (intro serialize_canonical_total)
      (simp_all add: payout_tx_def TX_TYPE_TRANSFER_def PAYOUT_FEE_BASE_UNITS_def npc_address_def utf8_encode_def)
  with to amount show ?thesis by (simp add: npc_address_def)
qed

lemma payouts_are_payable_witness:
  "\<exists>bs. serialize_canonical (payout_tx ex_key (ex_payout SIGNING) 5 2020) = Inr bs"
proof -
  have "ex_payout SIGNING \<in> set (pending_payouts (database (ex_app ex_claimed)))"
    by (simp add: ex_app_def ex_claimed_def)
  moreover have "key_address ex_key = pool_address" by (simp add: ex_key_def)
  ultimately show ?thesis
    using payouts_are_payable [OF ex_reachable(3), of "ex_payout SIGNING" 5 2020 ex_key] by simp
qed

lemma pending_not_queued:
  assumes ok: "payouts_ok d" and keys: "wf_keys d"
    and u: "u \<in> set (unstake_requests d)" "request_status u = PENDING"
  shows "row_get payout_ref (pending_payouts d) (unstake_ref (request_id u)) = None"
proof (rule ccontr)
  assume "row_get payout_ref (pending_payouts d) (unstake_ref (request_id u)) \<noteq> None"
  then obtain p where p: "row_get payout_ref (pending_payouts d) (unstake_ref (request_id u)) = Some p" by auto
  then have "p \<in> set (pending_payouts d)" "payout_ref p = unstake_ref (request_id u)"
    by (auto dest: row_get_Some)
  with ok obtain v where v: "v \<in> set (unstake_requests d)" "request_id v = request_id u" "request_status v \<noteq> PENDING"
    by (fastforce simp: payouts_ok_def refunds_def)
  moreover have "inj_on request_id (set (unstake_requests d))"
    using keys by (simp add: wf_keys_def distinct_map)
  ultimately have "v = u" using u(1) by (simp add: inj_on_eq_iff)
  with v u show False by simp
qed

text \<open>
  C12. The refunds of a block. In a reachable state, as long as the ids do not run out, the
  processing of a block succeeds: every pending request whose cooldown is over at height \<open>h\<close>
  becomes READY, one payout for each of them is added to the queue, in the order of the
  requests and with the next ids, the number of them is returned, and nothing else changes. Only
  a height that is no BIGINT is refused, and then nothing changes.
\<close>

theorem refunds_are_queued:
  assumes "reachable s"
    and "next_payout_id (database s) + int (length (unlocked_requests h (database s))) \<le> 2 ^ 63"
  shows "session_scope (process_unlocked_unstakes h) t (database s) =
    (if \<not> big_integer h then (Inl DataError, database s)
     else (Inr (int (length (unlocked_requests h (database s)))),
       (database s)\<lparr>
         unstake_requests := ready_when (\<lambda>u. request_status u = PENDING \<and> unlock_height u \<le> h)
           (unstake_requests (database s)),
         pending_payouts := pending_payouts (database s) @
           queued_refunds t (next_payout_id (database s)) (unlocked_requests h (database s)),
         next_payout_id := next_payout_id (database s) + int (length (unlocked_requests h (database s)))\<rparr>))"
proof -
  let ?d = "database s" and ?us = "unlocked_requests h (database s)" and ?s = "begin_session t (database s)"
  have keys: "wf_keys ?d" and acc: "accounts_ok ?d" and pay: "payouts_ok ?d"
    using reachable_ok [OF assms(1)] by (simp_all add: service_ok_def)
  have rows: "distinct (map request_id (unstake_requests ?d))" using keys by (simp add: wf_keys_def)
  then have dist: "distinct (map request_id ?us)" unfolding unlocked_requests_def by (rule distinct_map_filter)
  have seq: "0 \<le> next_payout_id ?d" using reachable_sequences [OF assms(1)] by simp
  have us: "u \<in> set (unstake_requests ?d)" "request_ok u" "request_status u = PENDING" if "u \<in> set ?us" for u
    using that accounts_okD(2) [OF acc] by (auto simp: unlocked_requests_def)
  have ids: "request_id v \<in> request_id ` set ?us \<longleftrightarrow> request_status v = PENDING \<and> unlock_height v \<le> h"
    if "v \<in> set (unstake_requests ?d)" for v
    using that rows by (auto simp: unlocked_requests_def distinct_map inj_on_eq_iff)
  have "for_each (process_unlocked 0) ?us ?s = (Inr (), ?s\<lparr>working := (working ?s)\<lparr>
      unstake_requests := ready_when (\<lambda>v. request_id v \<in> request_id ` set ?us) (unstake_requests (working ?s)),
      pending_payouts := pending_payouts (working ?s) @ queued_refunds (clock ?s) (next_payout_id (working ?s)) ?us,
      next_payout_id := next_payout_id (working ?s) + int (length ?us)\<rparr>\<rparr>)"
  proof (rule queue_refunds_run)
    show "\<forall>u \<in> set ?us. u \<in> set (unstake_requests (working ?s)) \<and> 0 < request_amount u \<and> request_columns u \<and>
        row_get payout_ref (pending_payouts (working ?s)) (unstake_ref (request_id u)) = None"
      using us pending_not_queued [OF pay keys] by (auto simp: request_ok_def)
    show "\<forall>u \<in> set ?us. \<forall>i. next_payout_id (working ?s) \<le> i \<and> i < next_payout_id (working ?s) + int (length ?us) \<longrightarrow>
        payout_columns (new_payout (request_address u) (request_amount u) ''UNSTAKE_REFUND''
          (unstake_ref (request_id u)) (clock ?s) i)"
      using us seq assms(2) by (auto simp: request_ok_def big_integer_def intro!: refund_columns)
  qed (use rows dist in simp_all)
  moreover have "ready_when (\<lambda>v. request_id v \<in> request_id ` set ?us) (unstake_requests ?d) =
      ready_when (\<lambda>u. request_status u = PENDING \<and> unlock_height u \<le> h) (unstake_requests ?d)"
    unfolding ready_when_def using ids by (intro map_cong) simp_all
  moreover have "ready_when (\<lambda>v. request_id v \<in> request_id ` set ?us) (unstake_requests ?d) = unstake_requests ?d"
    if "?us = []" using that by (simp add: ready_when_def)
  ultimately show ?thesis
    by (cases "?us = []") (auto simp: session_scope_def process_unlocked_unstakes_def bind_def gets_exec
        return_exec commit_def modify_exec raise_unless_exec rolled_back_def keep_sequences_def)
qed

lemma refunds_are_queued_witness:
  "session_scope (process_unlocked_unstakes 10081) 2000 ex_requested =
     (Inr 1, ex_requested\<lparr>unstake_requests := [ex_unstake READY], pending_payouts := [ex_payout QUEUED],
        next_payout_id := 2\<rparr>)"
proof -
  have us: "unlocked_requests 10081 ex_requested = [ex_unstake PENDING]"
    "ready_when (\<lambda>u. request_status u = PENDING \<and> unlock_height u \<le> 10081) (unstake_requests ex_requested) =
      [ex_unstake READY]"
    by (simp_all add: unlocked_requests_def ready_when_def ex_states) (simp_all add: ex_unstake_def)
  have "int_str 1 = ''1''" by code_simp
  then have "queued_refunds 2000 1 [ex_unstake PENDING] = [ex_payout QUEUED]"
    by (simp add: new_payout_def ex_payout_def ex_unstake_def unstake_ref_def)
  moreover have "next_payout_id ex_requested = 1" "pending_payouts ex_requested = []"
    by (simp_all add: ex_states)
  ultimately show ?thesis
    using refunds_are_queued [OF ex_reachable(1), of 10081 2000] us by (simp add: ex_app_def big_integer_def)
qed

section \<open>Claiming a batch\<close>

definition signing_when :: "(PendingPayout \<Rightarrow> bool) \<Rightarrow> PendingPayout list \<Rightarrow> PendingPayout list" where
  "signing_when P ps = map (\<lambda>p. if P p then p\<lparr>payout_status := SIGNING\<rparr> else p) ps"

lemma row_put_signing:
  assumes "distinct (map payout_id ps)" and "p \<in> set ps"
  shows "row_put payout_id (p\<lparr>payout_status := SIGNING\<rparr>) ps = signing_when (\<lambda>q. payout_id q = payout_id p) ps"
  using assms unfolding row_put_def signing_when_def
  by (auto simp: distinct_map inj_on_eq_iff)

lemma signing_when_twice:
  "signing_when (\<lambda>q. payout_id q \<in> A) (signing_when (\<lambda>q. payout_id q = i) ps) =
     signing_when (\<lambda>q. payout_id q \<in> insert i A) ps"
  by (auto simp: signing_when_def)

lemma signing_when_keys [simp]: "map payout_id (signing_when P ps) = map payout_id ps"
  by (simp add: signing_when_def)

lemma signing_when_mem: "p \<in> set ps \<Longrightarrow> \<not> P p \<Longrightarrow> p \<in> set (signing_when P ps)"
  by (force simp: signing_when_def)

lemma claim_rows_run:
  assumes "distinct (map payout_id (pending_payouts (working s)))" "distinct (map payout_id ps)"
    and "\<forall>p \<in> set ps. p \<in> set (pending_payouts (working s)) \<and> payout_columns p"
  shows "for_each (\<lambda>p. write_payout (p\<lparr>payout_status := SIGNING\<rparr>)) ps s = (Inr (), s\<lparr>working := (working s)\<lparr>
      pending_payouts := signing_when (\<lambda>p. payout_id p \<in> payout_id ` set ps) (pending_payouts (working s))\<rparr>\<rparr>)"
  using assms
proof (induction ps arbitrary: s)
  case Nil
  then show ?case by (simp add: return_exec signing_when_def)
next
  case (Cons p ps)
  define s1 where "s1 = s\<lparr>working := (working s)\<lparr>
    pending_payouts := signing_when (\<lambda>q. payout_id q = payout_id p) (pending_payouts (working s))\<rparr>\<rparr>"
  have first: "write_payout (p\<lparr>payout_status := SIGNING\<rparr>) s = (Inr (), s1)"
    using Cons.prems(1,3) row_put_signing [of "pending_payouts (working s)" p]
    by (simp add: write_payout_run s1_def put_payout_def)
  have other: "payout_id q \<noteq> payout_id p" if "q \<in> set ps" for q
  proof -
    have "payout_id q \<in> payout_id ` set ps" using that by simp
    with Cons.prems(2) show ?thesis by auto
  qed
  have "for_each (\<lambda>p. write_payout (p\<lparr>payout_status := SIGNING\<rparr>)) ps s1 = (Inr (), s1\<lparr>working := (working s1)\<lparr>
      pending_payouts := signing_when (\<lambda>p. payout_id p \<in> payout_id ` set ps) (pending_payouts (working s1))\<rparr>\<rparr>)"
    using Cons.prems by (intro Cons.IH) (auto simp: s1_def dest: other intro!: signing_when_mem)
  with first show ?case by (simp add: bind_def s1_def signing_when_twice)
qed

text \<open>The session of \<open>claim_batch\<close> as a whole; in a database whose rows fit it never fails.\<close>

lemma claim_batch_scope:
  assumes keys: "wf_keys d" and fit: "rows_fit d"
  shows "session_scope claim_batch t d =
      (Inr (map (\<lambda>p. p\<lparr>payout_status := SIGNING\<rparr>) (batch_query d)),
       d\<lparr>pending_payouts := signing_when (\<lambda>p. p \<in> set (batch_query d)) (pending_payouts d)\<rparr>)"
proof -
  let ?s = "begin_session t d"
  have rows: "distinct (map payout_id (pending_payouts d))" using keys by (simp add: wf_keys_def)
  have mem: "p \<in> set (pending_payouts d)" if "p \<in> set (batch_query d)" for p
    using that set_take_subset by (fastforce simp: batch_query_def)
  have cols: "payout_columns p" if "p \<in> set (batch_query d)" for p
    using mem [OF that] fit by (auto simp: rows_fit_def)
  have "signing_when (\<lambda>p. payout_id p \<in> payout_id ` set (batch_query d)) (pending_payouts d) =
      signing_when (\<lambda>p. p \<in> set (batch_query d)) (pending_payouts d)"
    unfolding signing_when_def
    using rows mem by (intro map_cong) (auto simp: distinct_map inj_on_eq_iff)
  moreover have "for_each (\<lambda>p. write_payout (p\<lparr>payout_status := SIGNING\<rparr>)) (batch_query d) ?s =
      (Inr (), ?s\<lparr>working := (working ?s)\<lparr>pending_payouts :=
        signing_when (\<lambda>p. payout_id p \<in> payout_id ` set (batch_query d)) (pending_payouts (working ?s))\<rparr>\<rparr>)"
    by (rule claim_rows_run) (use rows batch_query_loaded(1) [OF keys] mem cols in simp_all)
  ultimately show ?thesis
    by (simp add: session_scope_def claim_batch_def bind_def gets_exec return_exec commit_def modify_exec)
qed

text \<open>
  C13. The batch of the runner. In a reachable state claiming always succeeds. The batch is at
  most ten queued payouts with fewer than five attempts, oldest first; a claimable payout that
  is left out is no older than any in the batch, and the batch is then full. Exactly the rows
  of the batch become SIGNING.
\<close>

theorem claimed_batch:
  assumes "reachable s"
  shows "session_scope claim_batch t (database s) =
      (Inr (map (\<lambda>p. p\<lparr>payout_status := SIGNING\<rparr>) (batch_query (database s))),
       (database s)\<lparr>pending_payouts := signing_when (\<lambda>p. p \<in> set (batch_query (database s)))
          (pending_payouts (database s))\<rparr>) \<and>
    length (batch_query (database s)) \<le> 10 \<and>
    sorted (map payout_created_at (batch_query (database s))) \<and>
    (\<forall>p \<in> set (batch_query (database s)). payout_status p = QUEUED \<and> attempts p < 5) \<and>
    (\<forall>q \<in> set (pending_payouts (database s)). payout_status q = QUEUED \<and> attempts q < 5 \<longrightarrow>
      q \<in> set (batch_query (database s)) \<or> (length (batch_query (database s)) = 10 \<and>
        (\<forall>p \<in> set (batch_query (database s)). payout_created_at p \<le> payout_created_at q)))"
proof -
  let ?d = "database s"
  define cs where "cs = sort_key payout_created_at (filter claimable (pending_payouts ?d))"
  have q: "batch_query ?d = take 10 cs" by (simp add: batch_query_def cs_def BATCH_SIZE_def)
  have keys: "wf_keys ?d" using reachable_ok [OF assms] by (simp add: service_ok_def)
  have mem: "claimable p" if "p \<in> set (batch_query ?d)" for p
    using that set_take_subset [of 10 cs] by (auto simp: q cs_def)
  have "rows_fit ?d" using columns.reachable_keeps [OF assms] by (simp add: rows_fit_def empty_db_def)
  from claim_batch_scope [OF keys this]
  have "session_scope claim_batch t ?d =
      (Inr (map (\<lambda>p. p\<lparr>payout_status := SIGNING\<rparr>) (batch_query ?d)),
       ?d\<lparr>pending_payouts := signing_when (\<lambda>p. p \<in> set (batch_query ?d)) (pending_payouts ?d)\<rparr>)" .
  moreover have "length (batch_query ?d) \<le> 10" by (simp add: q)
  moreover have sorted: "sorted (map payout_created_at cs)" by (simp add: cs_def)
  then have "sorted (map payout_created_at (batch_query ?d))" by (simp add: q take_map [symmetric])
  moreover have "payout_status p = QUEUED \<and> attempts p < 5" if "p \<in> set (batch_query ?d)" for p
    using mem [OF that] by (simp add: claimable_def MAX_ATTEMPTS_def)
  moreover have "length (batch_query ?d) = 10 \<and>
        (\<forall>p \<in> set (batch_query ?d). payout_created_at p \<le> payout_created_at r)"
    if "r \<in> set (pending_payouts ?d)" "payout_status r = QUEUED \<and> attempts r < 5" "r \<notin> set (batch_query ?d)" for r
  proof -
    have "r \<in> set cs" using that(1,2) by (simp add: cs_def claimable_def MAX_ATTEMPTS_def)
    then have "r \<in> set (take 10 cs @ drop 10 cs)" by simp
    then have r: "r \<in> set (drop 10 cs)" using that(3) by (simp only: set_append q) blast
    then have "10 < length cs" by (cases "10 < length cs") simp_all
    moreover have "payout_created_at p \<le> payout_created_at r" if "p \<in> set (take 10 cs)" for p
      using sorted r that sorted_append [of "map payout_created_at (take 10 cs)" "map payout_created_at (drop 10 cs)"]
      by (simp add: map_append [symmetric] del: map_append)
    ultimately show ?thesis by (simp add: q)
  qed
  ultimately show ?thesis by blast
qed

lemma claimed_batch_witness:
  "session_scope claim_batch 2010 ex_unlocked =
     (Inr [ex_payout SIGNING], ex_unlocked\<lparr>pending_payouts := [ex_payout SIGNING]\<rparr>)"
proof -
  have q: "batch_query ex_unlocked = [ex_payout QUEUED]"
    by (simp add: batch_query_def ex_unlocked_def claimable_def BATCH_SIZE_def MAX_ATTEMPTS_def)
      (simp add: ex_payout_def)
  have "(ex_payout QUEUED)\<lparr>payout_status := SIGNING\<rparr> = ex_payout SIGNING"
    "pending_payouts ex_unlocked = [ex_payout QUEUED]"
    by (simp_all add: ex_payout_def ex_unlocked_def)
  then show ?thesis
    using claimed_batch [OF ex_reachable(2), of 2010] by (simp add: ex_app_def q signing_when_def)
qed

end
