(* ===== verification/PayoutLife.thy ===== *)
theory PayoutLife
  imports Payouts Blocks
begin

text \<open>
  The life of one row of \<open>pending_payouts\<close>: its moves as a step relation, that the service makes
  no other, that there are at most ten of them, and a row that is given up without a trace.
\<close>

section \<open>The moves of a payout\<close>

inductive payout_step :: "PendingPayout \<Rightarrow> PendingPayout \<Rightarrow> bool" where
  claimed: "payout_status p = QUEUED \<Longrightarrow> attempts p < MAX_ATTEMPTS \<Longrightarrow>
    payout_step p (p\<lparr>payout_status := SIGNING\<rparr>)"
| sent: "payout_status p = SIGNING \<Longrightarrow>
    payout_step p (p\<lparr>payout_status := SUBMITTED, payout_tx_hash := Some h, attempts := attempts p + 1\<rparr>)"
| requeued: "payout_status p = SIGNING \<Longrightarrow>
    payout_step p (p\<lparr>payout_status := QUEUED, attempts := attempts p + 1, error_message := Some m\<rparr>)"
| given_up: "payout_status p = SIGNING \<Longrightarrow> MAX_ATTEMPTS \<le> attempts p + 1 \<Longrightarrow>
    payout_step p (p\<lparr>payout_status := FAILED, attempts := attempts p + 1, error_message := Some m\<rparr>)"

inductive_cases payout_stepE: "payout_step p p'"
inductive_simps payout_step_iff: "payout_step p p'"

abbreviation payout_steps :: "PendingPayout \<Rightarrow> PendingPayout \<Rightarrow> bool" where
  "payout_steps \<equiv> payout_step\<^sup>*\<^sup>*"

lemma payout_outcome_error:
  obtains m st where "payout_outcome exc_str (Inl e) p =
      p\<lparr>payout_status := st, attempts := attempts p + 1, error_message := Some m\<rparr>"
    and "st = QUEUED \<or> (st = FAILED \<and> MAX_ATTEMPTS \<le> attempts p + 1)"
proof -
  let ?q = "payout_outcome exc_str (Inl e) p"
  obtain m where m: "error_message ?q = Some m" by (cases e) (auto simp: payout_outcome_def)
  have "?q = p\<lparr>payout_status := payout_status ?q, attempts := attempts p + 1, error_message := Some m\<rparr>"
    by (rule PendingPayout.equality) (use m in \<open>cases e; simp add: payout_outcome_def\<close>)+
  moreover have "payout_status ?q = QUEUED \<or> (payout_status ?q = FAILED \<and> MAX_ATTEMPTS \<le> attempts p + 1)"
    by (cases e) (auto simp: payout_outcome_def)
  ultimately show ?thesis by (rule that)
qed

lemma payout_outcome_step:
  assumes "payout_status p = SIGNING"
  shows "payout_step p (payout_outcome exc_str r p)"
proof (cases r)
  case (Inl e)
  obtain m st where "payout_outcome exc_str (Inl e) p =
      p\<lparr>payout_status := st, attempts := attempts p + 1, error_message := Some m\<rparr>"
    and "st = QUEUED \<or> (st = FAILED \<and> MAX_ATTEMPTS \<le> attempts p + 1)"
    by (rule payout_outcome_error)
  with Inl assms payout_step.requeued payout_step.given_up show ?thesis by auto
next
  case (Inr h)
  with assms payout_step.sent [of p h] show ?thesis by (simp add: payout_outcome_def)
qed

lemma payout_step_same:
  "payout_step p p' \<Longrightarrow> payout_id p' = payout_id p \<and> recipient p' = recipient p \<and>
     payout_amount p' = payout_amount p \<and> payout_kind p' = payout_kind p \<and> payout_ref p' = payout_ref p"
  by (erule payout_stepE) simp_all

lemma payout_steps_same:
  "payout_steps p p' \<Longrightarrow> payout_id p' = payout_id p \<and> recipient p' = recipient p \<and>
     payout_amount p' = payout_amount p \<and> payout_kind p' = payout_kind p \<and> payout_ref p' = payout_ref p"
  by (induction rule: rtranclp_induct) (auto dest: payout_step_same)

text \<open>What is left of the ten moves; every move takes one.\<close>

definition moves_left :: "PendingPayout \<Rightarrow> int" where
  "moves_left p = 2 * (MAX_ATTEMPTS - attempts p) - (if payout_status p = SIGNING then 1 else 0)"

lemma payout_step_moves: "payout_step p p' \<Longrightarrow> moves_left p' = moves_left p - 1"
  by (erule payout_stepE) (simp_all add: moves_left_def)

lemma payout_moves: "(payout_step ^^ n) p p' \<Longrightarrow> moves_left p' = moves_left p - int n"
  by (induction n arbitrary: p') (auto dest: payout_step_moves)

lemma payout_step_ok: "payout_step p p' \<Longrightarrow> payout_ok p \<Longrightarrow> payout_ok p'"
  by (erule payout_stepE) (auto simp: payout_ok_def)

lemma payout_moves_ok: "(payout_step ^^ n) p p' \<Longrightarrow> payout_ok p \<Longrightarrow> payout_ok p'"
  by (induction n arbitrary: p') (auto dest: payout_step_ok)

lemma moves_left_nonneg: "payout_ok p \<Longrightarrow> 0 \<le> moves_left p"
  by (auto simp: moves_left_def payout_ok_def)

section \<open>The service makes these moves only\<close>

lemma payout_row_step:
  assumes "db_step d d'" and keys: "wf_keys d" and p: "get_payout d i = Some p"
  shows "\<exists>p'. get_payout d' i = Some p' \<and> payout_steps p p'"
  using assms(1)
proof cases
  case (refund j u u' q t)
  then show ?thesis
    using p by (simp add: get_payout_def queue_refund_def row_get_insert)
next
  case (claim j q)
  have q: "payout_id q = j" using claim payout_table.get_key by blast
  show ?thesis
  proof (cases "j = i")
    case True
    with claim p q have "q = p" by simp
    with True claim p q payout_step.claimed [of p] show ?thesis
      by (auto simp: payout_table.get_put claimable_def)
  next
    case False
    with claim p q show ?thesis by (simp add: payout_table.get_put)
  qed
next
  case (outcome j q exc_str r)
  have q: "payout_id q = j" using outcome payout_table.get_key by blast
  show ?thesis
  proof (cases "j = i")
    case True
    with outcome p q have "q = p" by simp
    with True outcome p q payout_outcome_step [of p] show ?thesis
      by (auto simp: payout_table.get_put)
  next
    case False
    with outcome p q show ?thesis by (simp add: payout_table.get_put)
  qed
qed (use p in \<open>simp_all add: get_payout_def effect_defs\<close>)

interpretation moves: db_invariant "\<lambda>d. wf_keys d \<and> (\<exists>p'. get_payout d i = Some p' \<and> payout_steps p p')"
proof unfold_locales
  fix d d' assume step: "db_step d d'" and "wf_keys d \<and> (\<exists>p'. get_payout d i = Some p' \<and> payout_steps p p')"
  then show "wf_keys d' \<and> (\<exists>p'. get_payout d' i = Some p' \<and> payout_steps p p')"
    using wf_step [OF step] payout_row_step [OF step] rtranclp_trans [of payout_step p] by metis
next
  fix d j k assume "wf_keys d \<and> (\<exists>p'. get_payout d i = Some p' \<and> payout_steps p p')"
    "next_request_id d \<le> j" "next_payout_id d \<le> k"
  then show "wf_keys (d\<lparr>next_request_id := j, next_payout_id := k\<rparr>) \<and>
      (\<exists>p'. get_payout (d\<lparr>next_request_id := j, next_payout_id := k\<rparr>) i = Some p' \<and> payout_steps p p')"
    by (simp add: wf_sequences get_payout_def)
qed

lemma service_steps_keep:
  assumes inv: "db_invariant I" and "service_step\<^sup>*\<^sup>* s s'" and "wf_keys (database s)" "I (database s)"
  shows "wf_keys (database s') \<and> I (database s')"
  using assms(2)
proof (induction rule: rtranclp_induct)
  case base
  with assms(3,4) show ?case by simp
next
  case (step s1 s2)
  then show ?case
    using db_invariant.service_step_keeps [OF inv] keys.service_step_keeps by blast
qed

text \<open>
  C14. The life of a payout. Whatever the service does, a payout's row stays, keeps its
  recipient, amount, kind and reference, and makes only these moves: QUEUED with fewer than five
  attempts to SIGNING; SIGNING to SUBMITTED with a hash, back to QUEUED, or, from the fifth
  attempt on, to FAILED, each counting one attempt. Any sequence of such moves has at most ten,
  two for each attempt that is left, so the runner hands a payout to the signer at most five
  times in its life.
\<close>

theorem payout_life:
  assumes "reachable s" and "get_payout (database s) i = Some p" and "service_step\<^sup>*\<^sup>* s s'"
  shows "\<exists>p'. get_payout (database s') i = Some p' \<and> payout_steps p p' \<and>
    recipient p' = recipient p \<and> payout_amount p' = payout_amount p \<and> payout_kind p' = payout_kind p \<and>
    payout_ref p' = payout_ref p \<and> (\<forall>n. (payout_step ^^ n) p p' \<longrightarrow> int n + 2 * attempts p \<le> 10)"
proof -
  have ok: "service_ok (database s)" using reachable_ok [OF assms(1)] .
  then have keys: "wf_keys (database s)" by (simp add: service_ok_def)
  have "wf_keys (database s') \<and> (wf_keys (database s') \<and>
      (\<exists>p'. get_payout (database s') i = Some p' \<and> payout_steps p p'))"
    by (rule service_steps_keep [OF moves.db_invariant_axioms assms(3) keys]) (use keys assms(2) in simp)
  then obtain p' where p': "get_payout (database s') i = Some p'" "payout_steps p p'" by blast
  have "payout_ok p"
    using ok payout_table.get_mem [OF assms(2)] by (auto simp: service_ok_def payouts_ok_def)
  then have "int n + 2 * attempts p \<le> 10" if "(payout_step ^^ n) p p'" for n
    using payout_moves [OF that] moves_left_nonneg [OF payout_moves_ok [OF that]]
    by (simp add: moves_left_def MAX_ATTEMPTS_def split: if_splits)
  with p' payout_steps_same [OF p'(2)] show ?thesis by blast
qed

lemma payout_life_witness:
  "\<exists>p'. get_payout ex_paid 1 = Some p' \<and> payout_steps (ex_payout SIGNING) p' \<and> payout_amount p' = 100"
proof -
  have "get_payout (database (ex_app ex_claimed)) 1 = Some (ex_payout SIGNING)"
    by (simp add: ex_app_def get_payout_def ex_claimed_def row_get_Cons) (simp add: ex_payout_def)
  from payout_life [OF ex_reachable(3) this r_into_rtranclp [of service_step, OF ex_pay_step]]
  show ?thesis by (auto simp: ex_app_def ex_payout_def)
qed

section \<open>A payout that is given up in silence\<close>

definition ex_null :: "int \<Rightarrow> PendingPayout" where
  "ex_null k = (ex_payout QUEUED)\<lparr>attempts := k, error_message := (if k = 0 then None else
     Some (take 512 (''signer_not_wired: '' @ ''NullSigner cannot actually sign - Phase C wiring required'')))\<rparr>"

lemma ex_null_fields [simp]:
  "payout_id (ex_null k) = 1" "payout_status (ex_null k) = QUEUED" "attempts (ex_null k) = k"
  by (simp_all add: ex_null_def) (simp_all add: ex_payout_def)

lemma ex_null_columns: "0 \<le> k \<Longrightarrow> k \<le> 5 \<Longrightarrow> payout_columns (ex_null k)"
  using ex_columns(6) [of QUEUED] by (simp add: ex_null_def payout_columns_def varchar_def sql_integer_def)

lemma ex_null_round:
  assumes "reachable (ex_app (ex_unlocked\<lparr>pending_payouts := [ex_null k]\<rparr>))" "0 \<le> k" "k < 5"
  shows "reachable (ex_app (ex_unlocked\<lparr>pending_payouts := [ex_null (k + 1)]\<rparr>))"
proof -
  let ?d = "\<lambda>p. ex_unlocked\<lparr>pending_payouts := [p]\<rparr>" and ?p = "(ex_null k)\<lparr>payout_status := SIGNING\<rparr>"
  have "claimable (ex_null k)" using assms(3) by (simp add: claimable_def MAX_ATTEMPTS_def)
  then have "session_scope claim_batch 0 (?d (ex_null k)) = (Inr [?p], ?d ?p)"
    using assms(2,3) by (simp add: claim_single ex_null_columns)
  with assms(1) have claimed: "reachable (ex_app (?d ?p))"
    unfolding ex_app_def by (intro step_to [OF assms(1) [unfolded ex_app_def]] service_step.runner_claims) simp
  have out: "payout_outcome (\<lambda>_. []) (Inl (NotImplementedError
      ''NullSigner cannot actually sign - Phase C wiring required'')) ?p = ex_null (k + 1)"
    using assms(2) ex_null_fields
    by (intro PendingPayout.equality) (simp_all add: payout_outcome_def, simp_all add: ex_null_def ex_payout_def)
  have get: "get_payout (?d ?p) 1 = Some ?p" by (simp add: get_payout_def row_get_Cons)
  have put: "put_payout (ex_null (k + 1)) (?d ?p) = ?d (ex_null (k + 1))" by (simp add: put_payout_def)
  have pay: "process_one null_signer (\<lambda>_. []) 0 1 (?d ?p, w :: rpc) = (Inr (), ?d (ex_null (k + 1)), w)" for w
    using assms(2,3)
    by (simp add: process_one_def get null_signer_def raise_exec out session_scope_def bind_def
        write_payout_run ex_null_columns put commit_run return_exec)
  show ?thesis
    using claimed unfolding ex_app_def
    by (rule step_to) (rule service_step.runner_pays_null [where t = 0 and i = 1], simp, rule pay)
qed

lemma ex_null_reachable: "reachable (ex_app (ex_unlocked\<lparr>pending_payouts := [ex_null 5]\<rparr>))"
proof -
  have "ex_unlocked\<lparr>pending_payouts := [ex_null 0]\<rparr> = ex_unlocked"
    by (simp add: ex_unlocked_def ex_null_def) (simp add: ex_payout_def)
  then have "reachable (ex_app (ex_unlocked\<lparr>pending_payouts := [ex_null 0]\<rparr>))" using ex_reachable(2) by simp
  from ex_null_round [OF ex_null_round [OF ex_null_round [OF ex_null_round [OF ex_null_round [OF this]]]]]
  show ?thesis by simp
qed

text \<open>
  A payout can be lost in the queue. The service can reach a state in which a payout is
  QUEUED after five attempts with the null signer; from then on it is neither claimed nor
  marked FAILED, whatever the service does, so the refund is never paid and nothing reports it.
\<close>

theorem exhausted_payout_is_stuck:
  "\<exists>s i p. reachable s \<and> get_payout (database s) i = Some p \<and> payout_status p = QUEUED \<and>
     (\<forall>s'. service_step\<^sup>*\<^sup>* s s' \<longrightarrow> get_payout (database s') i = Some p)"
proof -
  let ?s = "ex_app (ex_unlocked\<lparr>pending_payouts := [ex_null 5]\<rparr>)"
  have get: "get_payout (database ?s) 1 = Some (ex_null 5)"
    by (simp add: ex_app_def get_payout_def row_get_Cons)
  have keys: "wf_keys (database ?s)" using reachable_ok [OF ex_null_reachable] by (simp add: service_ok_def)
  have stays: "p' = ex_null 5" if "payout_steps (ex_null 5) p'" for p'
    using that
  proof (induction rule: rtranclp_induct)
    case (step p q)
    from step.hyps(2) have False
      unfolding step.IH by (simp add: payout_step_iff MAX_ATTEMPTS_def)
    then show ?case ..
  qed simp
  have "get_payout (database s') 1 = Some (ex_null 5)" if "service_step\<^sup>*\<^sup>* ?s s'" for s'
  proof -
    have "wf_keys (database s') \<and> (wf_keys (database s') \<and>
        (\<exists>p'. get_payout (database s') 1 = Some p' \<and> payout_steps (ex_null 5) p'))"
      by (rule service_steps_keep [OF moves.db_invariant_axioms that keys]) (use keys get in simp)
    with stays show ?thesis by blast
  qed
  with get ex_null_reachable show ?thesis by (intro exI [of _ ?s] exI [of _ 1] exI [of _ "ex_null 5"]) simp
qed

lemma exhausted_payout_is_stuck_witness:
  "\<exists>s s' i p r. reachable s \<and> session_scope claim_batch 0 (database s) = (r, database s') \<and>
     get_payout (database s) i = Some p \<and> get_payout (database s') i = Some p \<and> payout_status p = QUEUED"
proof -
  obtain s i p where s: "reachable s" "get_payout (database s) i = Some p" "payout_status p = QUEUED"
    "\<forall>s'. service_step\<^sup>*\<^sup>* s s' \<longrightarrow> get_payout (database s') i = Some p"
    using exhausted_payout_is_stuck by blast
  obtain r d where claim: "session_scope claim_batch 0 (database s) = (r, d)" by fastforce
  then have "service_step s (s\<lparr>database := d\<rparr>)" by (rule service_step.runner_claims)
  with s(4) have "get_payout (database (s\<lparr>database := d\<rparr>)) i = Some p" by blast
  with s(1-3) claim show ?thesis by (metis app.select_convs(2) app.surjective app.update_convs(2))
qed

section \<open>A refund that is debited a second time\<close>

definition ex_refund_tx :: json where
  "ex_refund_tx = JObj [(''type'', JStr ''transfer''), (''tx_hash'', JStr ex_hash),
     (''from'', JStr stake_address), (''to'', JStr ex_addr), (''amount'', JInt 100)]"

definition ex_refund_event :: StakeEvent where
  "ex_refund_event = \<lparr>event_address = ex_addr, event_type = ''UNSTAKE'', event_amount = 100,
     event_block_height = 10082, event_tx_hash = Some ex_hash, event_note = Some ''refund_from_escrow''\<rparr>"

definition ex_refunded :: db where
  "ex_refunded = ex_paid\<lparr>watcher := Some (ex_watcher 10082 (Some 100)),
     stakers := [(ex_staker 100)\<lparr>last_activity_height := Some 10082\<rparr>],
     stake_events := [ex_event, ex_refund_event]\<rparr>"

lemma ex_refund_run:
  "apply_single_tx ex_refund_tx 10082 = apply_stake_event ''UNSTAKE'' (staker_debit 100 10082) (JStr ex_addr)
     100 10082 (JStr ex_hash) ''refund_from_escrow''"
proof -
  have "lower ''transfer'' = ''transfer''" by code_simp
  moreover have "ex_hash \<noteq> []" using length_hex [of "digest 0"] by (auto simp: ex_hash_def)
  moreover have "ex_addr \<noteq> VALIDATOR_REWARDS_ADDRESS"
    by (simp add: ex_addr_chars VALIDATOR_REWARDS_ADDRESS_def)
  ultimately show ?thesis
    using ex_addr_not_escrow
    by (simp add: apply_single_tx_def ex_refund_tx_def lift_def bind_def return_def py_or_def
        ex_addr_canonical ex_escrow_canonical Let_def)
qed

lemma ex_refund_block:
  "session_scope (watcher_block_session (block_of 10082 [ex_refund_tx]) 10082) 3000 ex_paid = (Inr 0, ex_refunded)"
proof -
  let ?s = "begin_session 3000 ex_paid"
  let ?d1 = "ex_paid\<lparr>stake_events := [ex_event, ex_refund_event]\<rparr>"
  let ?d2 = "?d1\<lparr>stakers := [(ex_staker 100)\<lparr>last_activity_height := Some 10082\<rparr>]\<rparr>"
  note states = ex_paid_def ex_states
  have len: "length ex_hash = 64" "sql_text ex_hash" by (simp_all add: ex_hash_def length_hex)
  have acc: "get_or_create_staker ex_addr ?s = (Inr (ex_staker 200), ?s)"
    by (simp add: get_or_create_staker_run states get_staker_def row_get_Cons) (simp add: ex_staker_def)
  have cols: "event_columns ex_refund_event" "staker_columns ((ex_staker 100)\<lparr>last_activity_height := Some 10082\<rparr>)"
    by (simp_all add: columns_defs ex_refund_event_def ex_staker_def varchar_def big_integer_def sql_integer_def length_ex_addr len)
  have "\<not> event_clash ex_refund_event ex_paid"
    by (simp add: event_clash_def states event_key_def) (simp add: ex_refund_event_def ex_event_def)
  then have event: "record_event ex_addr ''UNSTAKE'' 100 10082 (JStr ex_hash) ''refund_from_escrow'' ?s =
      (Inr True, ?s\<lparr>working := ?d1\<rparr>)"
    using cols(1) by (simp add: record_event_run ex_refund_event_def [symmetric] row_insert_def)
      (simp add: states)
  have debit: "staker_debit 100 10082 (ex_staker 200) = (ex_staker 100)\<lparr>last_activity_height := Some 10082\<rparr>"
    by (simp add: staker_debit_def refresh_tier_cache_def ex_staker_def ex_tier_none)
  have put: "put_staker ((ex_staker 100)\<lparr>last_activity_height := Some 10082\<rparr>) ?d1 = ?d2"
    by (simp add: put_staker_def states) (simp add: ex_staker_def)
  have block: "apply_block_transactions (block_of 10082 [ex_refund_tx]) ?s = (Inr (), ?s\<lparr>working := ?d2\<rparr>)"
    by (simp add: apply_block_of ex_refund_run apply_stake_event_def bind_def lift_exec acc event debit
        write_staker_run cols(2) put return_exec)
  have w: "watcher ex_paid = Some (ex_watcher 10081 (Some 100))" by (simp add: states)
  have upd: "(ex_watcher 10081 (Some 100))\<lparr>last_processed_height := 10082\<rparr> = ex_watcher 10082 (Some 100)"
    by (simp add: ex_watcher_def)
  have fin: "?d2\<lparr>watcher := Some (ex_watcher 10082 (Some 100))\<rparr> = ex_refunded" by (simp add: ex_refunded_def)
  have "unlocked_requests 10082 ex_refunded = []"
    by (simp add: unlocked_requests_def ex_refunded_def states) (simp add: ex_unstake_def)
  then show ?thesis
    by (simp add: session_scope_def watcher_block_session_def bind_def block gets_exec w write_watcher_run upd
        big_integer_def fin process_unlocked_unstakes_def return_exec commit_run raise_unless_exec)
qed

text \<open>
  C18. A refund is debited twice. The service can reach a state in which an account with 300 staked
  has asked for 100, the refund was submitted, its transfer was seen in a block as an UNSTAKE
  event, and the account is left with 100: the request had already taken the amount off.
\<close>

theorem refund_is_debited_twice:
  "\<exists>s u p e. reachable s \<and> unstake_requests (database s) = [u] \<and> pending_payouts (database s) = [p] \<and>
     refunds p u \<and> payout_status p = SUBMITTED \<and> payout_amount p = 100 \<and>
     e \<in> set (stake_events (database s)) \<and> event_type e = ''UNSTAKE'' \<and> event_tx_hash e = payout_tx_hash p \<and>
     event_total ''STAKE'' (recipient p) (database s) = 300 \<and> stake_of (recipient p) (database s) = 100"
proof -
  have reach: "reachable (ex_app ex_refunded)"
    using ex_reachable_paid unfolding ex_app_def
    by (rule step_to) (rule service_step.watcher_applies [where t = 3000 and h = 10082
        and blk = "block_of 10082 [ex_refund_tx]"], simp add: ex_refund_block)
  have "int_str 1 = ''1''" by code_simp
  then have "refunds ex_submitted (ex_unstake READY)"
    by (simp add: refunds_def unstake_ref_def ex_payout_def ex_unstake_def)
  moreover have "event_total ''STAKE'' ex_addr ex_refunded = 300" "stake_of ex_addr ex_refunded = 100"
    by (simp_all add: event_total_def stake_of_def get_staker_def ex_refunded_def row_get_Cons)
      (simp_all add: ex_event_def ex_refund_event_def ex_staker_def)
  moreover have "unstake_requests ex_refunded = [ex_unstake READY]" "pending_payouts ex_refunded = [ex_submitted]"
    "ex_refund_event \<in> set (stake_events ex_refunded)"
    by (simp_all add: ex_refunded_def ex_paid_def ex_states)
  moreover have "payout_status ex_submitted = SUBMITTED" "payout_amount ex_submitted = 100"
    "recipient ex_submitted = ex_addr" "event_type ex_refund_event = ''UNSTAKE''"
    "event_tx_hash ex_refund_event = payout_tx_hash ex_submitted"
    by (simp_all add: ex_payout_def ex_refund_event_def)
  moreover have "database (ex_app ex_refunded) = ex_refunded" by (simp add: ex_app_def)
  ultimately show ?thesis using reach by metis
qed

end
