(* ===== verification/Process.thy ===== *)
theory Process
  imports PayoutLife Sessions
begin

text \<open>
  \<open>src/main.py\<close>: one process of the service, with what it keeps in memory only (the cache of
  nonces, the loaded pool key, the two background tasks of \<open>lifespan\<close>), and the machine on which
  such processes start, work, die and start again over one database. The granularity is that of
  the sessions: between two sessions of one task any other component may run.
\<close>

section \<open>The application\<close>

text \<open>
  A task that was created and not cancelled is \<open>Some\<close> of what its current round has left to do:
  heights to fetch for the watcher, ids of claimed payouts for the runner; the runner holds its
  signer, that is the key.
\<close>

record process =
  cached_key :: "PoolKey option"
  seen_nonces :: nonce_cache
  watcher_task :: "int list option"
  runner_task :: "(PoolKey \<times> int list) option"
  serving :: bool

definition new_process :: process where
  "new_process = \<lparr>cached_key = None, seen_nonces = Map.empty, watcher_task = None,
     runner_task = None, serving = False\<rparr>"

definition on_key :: "(PoolKey option, 'a) exec \<Rightarrow> (process, 'a) exec" where
  "on_key m = (\<lambda>s. case m (cached_key s) of (r, k) \<Rightarrow> (r, s\<lparr>cached_key := k\<rparr>))"

text \<open>\<open>HotKeySigner.__init__\<close>\<close>

definition hot_key_signer ::
  "crypto \<Rightarrow> decryption \<Rightarrow> string option \<Rightarrow> bytes option \<Rightarrow> (process, PoolKey) exec" where
  "hot_key_signer c dec passphrase keyfile = on_key (load_key c dec passphrase keyfile)"

text \<open>
  \<open>lifespan\<close> up to its \<open>yield\<close>: the watcher's task is created before the key is loaded, the
  runner's after it, and the application serves requests once this has returned.
\<close>

definition lifespan_startup ::
  "crypto \<Rightarrow> decryption \<Rightarrow> string option \<Rightarrow> bytes option \<Rightarrow> (process, unit) exec" where
  "lifespan_startup c dec passphrase keyfile =
     andthen (modify (\<lambda>s. s\<lparr>watcher_task := Some []\<rparr>))
    (bind (hot_key_signer c dec passphrase keyfile) (\<lambda>key.
     andthen (modify (\<lambda>s. s\<lparr>runner_task := Some (key, [])\<rparr>))
             (modify (\<lambda>s. s\<lparr>serving := True\<rparr>))))"

text \<open>
  What follows the \<open>yield\<close>: both tasks are cancelled and awaited, so neither goes on, whatever
  its round had left to do.
\<close>

definition lifespan_shutdown :: "process \<Rightarrow> process" where
  "lifespan_shutdown s = s\<lparr>serving := False, watcher_task := None, runner_task := None\<rparr>"

definition root :: json where
  "root = JObj [(''service'', JStr ''npchain-staking''), (''version'', JStr ''0.1.0''),
     (''phase'', JStr ''A''), (''docs'', JStr ''/docs'')]"

section \<open>The background loops, session by session\<close>

text \<open>
  \<open>watcher_loop\<close>: the heights that the current tick has left, and the database. A tick that finds
  nothing to do leaves both as they were; an error of any kind ends the tick, not the loop.
\<close>

inductive watcher_step :: "int list \<times> db \<Rightarrow> int list \<times> db \<Rightarrow> bool" where
  new_blocks: "watcher d = Some w \<Longrightarrow> snapshot_complete w \<Longrightarrow> last_processed_height w < tip \<Longrightarrow>
    watcher_step ([], d) ([last_processed_height w + 1..tip], d)"
| applied: "session_scope (watcher_block_session blk h) t d = (Inr n, d') \<Longrightarrow>
    watcher_step (h # hs, d) (hs, d')"
| failed: "session_scope (watcher_block_session blk h) t d = (Inl e, d') \<Longrightarrow>
    watcher_step (h # hs, d) ([], d')"
| not_fetched: "watcher_step (h # hs, d) ([], d)"

text \<open>
  \<open>SignerRunner.loop_forever\<close>: the ids that the current round has left, the database, and a log of
  the ids whose payouts were handed to the signer, which the program does not keep.
\<close>

definition handed_over :: "db \<Rightarrow> int \<Rightarrow> int list" where
  "handed_over d i = (case get_payout d i of None \<Rightarrow> []
     | Some p \<Rightarrow> if payout_status p = SIGNING then [i] else [])"

inductive runner_step :: "crypto \<Rightarrow> PoolKey \<Rightarrow> int list \<times> db \<times> int list \<Rightarrow> int list \<times> db \<times> int list \<Rightarrow> bool"
  for c key where
  claimed: "session_scope claim_batch t d = (Inr ps, d') \<Longrightarrow>
    runner_step c key ([], d, sent) (map payout_id ps, d', sent)"
| not_claimed: "session_scope claim_batch t d = (Inl e, d') \<Longrightarrow>
    runner_step c key ([], d, sent) ([], d', sent)"
| processed: "process_one (sign_and_submit c env show_json key) exc_str t i (d, w) = (Inr u, d', w') \<Longrightarrow>
    runner_step c key (i # is, d, sent) (is, d', sent @ handed_over d i)"
| failed: "process_one (sign_and_submit c env show_json key) exc_str t i (d, w) = (Inl e, d', w') \<Longrightarrow>
    runner_step c key (i # is, d, sent) ([], d', sent @ handed_over d i)"

text \<open>The functions \<open>tick\<close> and \<open>runner_tick\<close> are runs of these steps.\<close>

lemma watch_blocks_watcher_steps:
  "watch_blocks env t hs s = (r, s') \<Longrightarrow> watcher_step\<^sup>*\<^sup>* (hs, walk_db s) ([], walk_db s')"
proof (induction hs arbitrary: s)
  case Nil
  then show ?case by (simp add: return_exec)
next
  case (Cons h hs)
  obtain rb s1 where b: "on_rpc (block env h) s = (rb, s1)" by fastforce
  have db: "walk_db s1 = walk_db s" using on_rpc_db [OF b] .
  show ?case
  proof (cases rb)
    case (Inl e)
    with b Cons.prems have "s' = s1" by (cases e) auto
    with db watcher_step.not_fetched show ?thesis by auto
  next
    case (Inr blk)
    obtain r2 d2 where sc: "session_scope (watcher_block_session blk h) t (walk_db s) = (r2, d2)" by fastforce
    show ?thesis
    proof (cases r2)
      case (Inl e)
      with b Inr Cons.prems sc db have "walk_db s' = d2" by (auto simp: bind_def in_session_scope_eq)
      with sc Inl watcher_step.failed show ?thesis by (auto intro: r_into_rtranclp)
    next
      case (Inr n)
      with b \<open>rb = Inr blk\<close> Cons.prems sc db
      have "watch_blocks env t hs (s1\<lparr>walk_db := d2\<rparr>) = (r, s')"
        by (simp add: bind_def in_session_scope_eq)
      from Cons.IH [OF this] have "watcher_step\<^sup>*\<^sup>* (hs, d2) ([], walk_db s')" by simp
      moreover have "watcher_step (h # hs, walk_db s) (hs, d2)"
        using sc Inr by (simp add: watcher_step.applied)
      ultimately show ?thesis by (rule converse_rtranclp_into_rtranclp [rotated])
    qed
  qed
qed

lemma tick_watcher_steps:
  assumes "tick env t s = (r, s')"
  shows "watcher_step\<^sup>*\<^sup>* ([], walk_db s) ([], walk_db s')"
proof -
  obtain rt s1 where l: "on_rpc (latest_height env) s = (rt, s1)" by fastforce
  have db: "walk_db s1 = walk_db s" using on_rpc_db [OF l] .
  have "s' = s1 \<or> (\<exists>w tip. watcher (walk_db s) = Some w \<and> snapshot_complete w \<and> last_processed_height w < tip \<and>
      watch_blocks env t [last_processed_height w + 1..tip] s1 = (r, s'))"
    using assms l db
    by (auto simp: tick_def bind_def gets_exec return_exec split: sum.splits option.splits if_splits)
  then show ?thesis
  proof (elim disjE exE conjE)
    assume "s' = s1"
    with db show ?thesis by simp
  next
    fix w tip
    assume w: "watcher (walk_db s) = Some w" "snapshot_complete w" "last_processed_height w < tip"
      and run: "watch_blocks env t [last_processed_height w + 1..tip] s1 = (r, s')"
    from watcher_step.new_blocks [OF w] watch_blocks_watcher_steps [OF run] db show ?thesis
      by (auto intro: converse_rtranclp_into_rtranclp)
  qed
qed

lemma process_list_runner_steps:
  assumes "for_each (\<lambda>p. process_one (sign_and_submit c env show_json key) exc_str t (payout_id p)) ps (d, w)
      = (r, (d', w'))"
  shows "\<exists>sent'. (runner_step c key)\<^sup>*\<^sup>* (map payout_id ps, d, sent) ([], d', sent')"
  using assms
proof (induction ps arbitrary: d w sent)
  case Nil
  then show ?case by (auto simp: return_exec)
next
  case (Cons p ps)
  obtain r1 d1 w1 where one: "process_one (sign_and_submit c env show_json key) exc_str t (payout_id p) (d, w)
      = (r1, d1, w1)" by (metis prod_cases3)
  show ?case
  proof (cases r1)
    case (Inl e)
    with one Cons.prems have "d' = d1" by (simp add: bind_def)
    with runner_step.failed [OF one [unfolded Inl]] show ?thesis by auto
  next
    case (Inr u)
    with one Cons.prems have "for_each (\<lambda>p. process_one (sign_and_submit c env show_json key) exc_str t (payout_id p))
        ps (d1, w1) = (r, (d', w'))" by (simp add: bind_def)
    from Cons.IH [OF this] obtain sent'
      where "(runner_step c key)\<^sup>*\<^sup>* (map payout_id ps, d1, sent @ handed_over d (payout_id p)) ([], d', sent')" by blast
    with runner_step.processed [OF one [unfolded Inr]] show ?thesis
      by (auto intro: converse_rtranclp_into_rtranclp)
  qed
qed

lemma runner_tick_runner_steps:
  assumes "runner_tick (sign_and_submit c env show_json key) exc_str t (d, w) = (r, (d', w'))"
  shows "\<exists>sent'. (runner_step c key)\<^sup>*\<^sup>* ([], d, sent) ([], d', sent')"
proof -
  let ?each = "for_each (\<lambda>p. process_one (sign_and_submit c env show_json key) exc_str t (payout_id p))"
  obtain rc d1 where claim: "session_scope claim_batch t d = (rc, d1)" by fastforce
  show ?thesis
  proof (cases rc)
    case (Inl e)
    with assms claim have "d' = d1" by (simp add: runner_tick_def)
    with runner_step.not_claimed [OF claim [unfolded Inl], of c key sent] show ?thesis by blast
  next
    case (Inr ps)
    note first = runner_step.claimed [OF claim [unfolded Inr], of c key sent]
    obtain r2 d2 w2 where l: "?each ps (d1, w) = (r2, d2, w2)" by (metis prod_cases3)
    have "ps = [] \<and> d' = d1 \<or> d' = d2"
      using assms claim Inr l by (auto simp: runner_tick_def bind_def return_exec split: if_splits sum.splits)
    then show ?thesis
    proof
      assume "ps = [] \<and> d' = d1"
      with first show ?thesis by auto
    next
      assume "d' = d2"
      with first process_list_runner_steps [OF l, of sent] show ?thesis
        by (blast intro: converse_rtranclp_into_rtranclp)
    qed
  qed
qed

section \<open>The machine\<close>

text \<open>The database outlives the process; so does, in the model, the log of what was handed over.\<close>

record machine =
  proc :: process
  disk :: db
  handed :: "int list"

definition app_of :: "machine \<Rightarrow> app" where
  "app_of m = \<lparr>nonces = seen_nonces (proc m), database = disk m\<rparr>"

definition with_app :: "app \<Rightarrow> machine \<Rightarrow> machine" where
  "with_app s m = m\<lparr>proc := (proc m)\<lparr>seen_nonces := nonces s\<rparr>, disk := database s\<rparr>"

definition killed :: "machine \<Rightarrow> machine" where
  "killed m = m\<lparr>proc := new_process\<rparr>"

definition blank_machine :: machine where
  "blank_machine = \<lparr>proc = new_process, disk = empty_db, handed = []\<rparr>"

text \<open>A request that a running process answers, and a session of the snapshot's own process.\<close>

inductive answers :: "crypto \<Rightarrow> app \<Rightarrow> app \<Rightarrow> bool" for c where
  unstake: "request_unstake c k ureq s = (ur, s') \<Longrightarrow> answers c s s'"
| cancel: "cancel_unstake c k creq s = (cr, s') \<Longrightarrow> answers c s s'"
| claim: "claim_rewards c k req s = (lr, s') \<Longrightarrow> answers c s s'"

inductive snapshot_step :: "db \<Rightarrow> db \<Rightarrow> bool" where
  begins: "session_scope (snapshot_start t) t d = (ir, d') \<Longrightarrow> snapshot_step d d'"
| applies: "session_scope (snapshot_block_session blk h) t d = (r, d') \<Longrightarrow> snapshot_step d d'"
| ends: "session_scope (snapshot_finish t) t d = (r, d') \<Longrightarrow> snapshot_step d d'"

text \<open>
  A process can be killed at any time, also in the middle of a payment: then the payout was handed
  to the signer, the node may have its transfer, and the outcome was not written.
\<close>

inductive machine_step :: "crypto \<Rightarrow> machine \<Rightarrow> machine \<Rightarrow> bool" for c where
  starts: "\<not> serving (proc m) \<Longrightarrow> watcher_task (proc m) = None \<Longrightarrow>
    lifespan_startup c dec passphrase keyfile (proc m) = (r, q) \<Longrightarrow> machine_step c m (m\<lparr>proc := q\<rparr>)"
| shuts_down: "serving (proc m) \<Longrightarrow> machine_step c m (m\<lparr>proc := lifespan_shutdown (proc m)\<rparr>)"
| dies: "machine_step c m (killed m)"
| dies_paying: "runner_task (proc m) = Some (key, i # is) \<Longrightarrow>
    machine_step c m ((killed m)\<lparr>handed := handed m @ handed_over (disk m) i\<rparr>)"
| serves: "serving (proc m) \<Longrightarrow> answers c (app_of m) s \<Longrightarrow> machine_step c m (with_app s m)"
| watches: "watcher_task (proc m) = Some hs \<Longrightarrow> watcher_step (hs, disk m) (hs', d) \<Longrightarrow>
    machine_step c m (m\<lparr>proc := (proc m)\<lparr>watcher_task := Some hs'\<rparr>, disk := d\<rparr>)"
| pays: "runner_task (proc m) = Some (key, is) \<Longrightarrow>
    runner_step c key (is, disk m, handed m) (is', d, sent) \<Longrightarrow>
    machine_step c m (m\<lparr>proc := (proc m)\<lparr>runner_task := Some (key, is')\<rparr>, disk := d, handed := sent\<rparr>)"
| snapshots: "snapshot_step (disk m) d \<Longrightarrow> machine_step c m (m\<lparr>disk := d\<rparr>)"

definition runs_to :: "crypto \<Rightarrow> machine \<Rightarrow> bool" where
  "runs_to c m \<longleftrightarrow> (machine_step c)\<^sup>*\<^sup>* blank_machine m"

lemma runs_to_blank: "runs_to c blank_machine"
  by (simp add: runs_to_def)

lemma runs_to_step: "runs_to c m \<Longrightarrow> machine_step c m m' \<Longrightarrow> runs_to c m'"
  unfolding runs_to_def by (rule rtranclp.rtrancl_into_rtrancl)

lemma app_of_simps [simp]:
  "app_of (with_app s m) = s" "database (app_of m) = disk m" "nonces (app_of m) = seen_nonces (proc m)"
  "app_of (killed m) = (app_of m)\<lparr>nonces := Map.empty\<rparr>" "disk (killed m) = disk m" "handed (killed m) = handed m"
  "proc (killed m) = new_process" "handed (with_app s m) = handed m" "disk (with_app s m) = database s"
  "runner_task (proc (with_app s m)) = runner_task (proc m)" "cached_key (proc (with_app s m)) = cached_key (proc m)"
  "serving (proc (with_app s m)) = serving (proc m)"
  by (simp_all add: app_of_def with_app_def killed_def new_process_def)

end
