(* ===== verification/Lifetimes.thy ===== *)
theory Lifetimes
  imports Process
begin

text \<open>
  What holds of the service over any number of processes that start, work and die: its database
  stays within the states of \<open>service_step\<close>, only the key of the pool signs, a payout is handed to
  the signer at most five times, and what a crash makes the service forget.
\<close>

section \<open>The machine makes the steps of the service\<close>

lemma hot_key_signer_Inr:
  assumes "hot_key_signer c dec passphrase keyfile s = (Inr key, s')"
  shows "s' = s\<lparr>cached_key := Some key\<rparr>"
  using assms
  by (auto simp: hot_key_signer_def on_key_def load_key_def bind_def gets_exec return_exec raise_exec
      modify_exec lift_exec Let_def split: prod.splits option.splits if_splits sum.splits)

lemma hot_key_signer_Inl:
  assumes "hot_key_signer c dec passphrase keyfile s = (Inl e, s')"
  shows "s' = s"
  using assms
  by (auto simp: hot_key_signer_def on_key_def load_key_def bind_def gets_exec return_exec raise_exec
      modify_exec lift_exec Let_def split: prod.splits option.splits if_splits sum.splits)

lemma lifespan_startup_run:
  "lifespan_startup c dec passphrase keyfile s =
     (case hot_key_signer c dec passphrase keyfile (s\<lparr>watcher_task := Some []\<rparr>) of
        (Inl e, q) \<Rightarrow> (Inl e, s\<lparr>watcher_task := Some []\<rparr>)
      | (Inr key, q) \<Rightarrow> (Inr (), s\<lparr>watcher_task := Some [], cached_key := Some key,
           runner_task := Some (key, []), serving := True\<rparr>))"
proof -
  obtain r q where h: "hot_key_signer c dec passphrase keyfile (s\<lparr>watcher_task := Some []\<rparr>) = (r, q)" by fastforce
  show ?thesis
  proof (cases r)
    case (Inl e)
    with h hot_key_signer_Inl [OF h [unfolded Inl]] show ?thesis
      by (simp add: lifespan_startup_def bind_def modify_exec)
  next
    case (Inr key)
    with h hot_key_signer_Inr [OF h [unfolded Inr]] show ?thesis
      by (simp add: lifespan_startup_def bind_def modify_exec)
  qed
qed

lemma lifespan_startup_cases:
  assumes "lifespan_startup c dec passphrase keyfile s = (r, q)"
  obtains (refused) e where "r = Inl e" "q = s\<lparr>watcher_task := Some []\<rparr>"
  | (up) key q' where "r = Inr ()" "hot_key_signer c dec passphrase keyfile (s\<lparr>watcher_task := Some []\<rparr>) = (Inr key, q')"
      "q = s\<lparr>watcher_task := Some [], cached_key := Some key, runner_task := Some (key, []), serving := True\<rparr>"
  using assms by (auto simp: lifespan_startup_run split: prod.splits sum.splits)

lemma step_to_app:
  assumes "\<And>s. database s = disk m \<Longrightarrow> service_step s (s\<lparr>database := d\<rparr>)"
  shows "service_step (app_of m) (app_of (m\<lparr>disk := d\<rparr>))"
  using assms [of "app_of m"] by (simp add: app_of_def)

lemma machine_step_service:
  assumes "machine_step c m m'"
  shows "service_step\<^sup>*\<^sup>* (app_of m) (app_of m')"
  using assms
proof cases
  case (starts dec passphrase keyfile r q)
  from starts(4) have "seen_nonces q = seen_nonces (proc m)"
    by (cases rule: lifespan_startup_cases) simp_all
  with starts(1) show ?thesis by (simp add: app_of_def)
next
  case shuts_down
  then show ?thesis by (simp add: app_of_def lifespan_shutdown_def)
next
  case dies
  with service_step.restarts [of "app_of m"] show ?thesis by simp
next
  case (dies_paying key i "is")
  have "app_of m' = app_of (killed m)" using dies_paying(1) by (simp add: app_of_def)
  with service_step.restarts [of "app_of m"] show ?thesis by simp
next
  case (serves s)
  from serves(3) have "service_step (app_of m) s"
    by cases (auto intro: service_step.intros)
  with serves(1) show ?thesis by simp
next
  case (watches hs hs' d)
  have app: "app_of m' = app_of (m\<lparr>disk := d\<rparr>)" using watches(1) by (simp add: app_of_def)
  from watches(3) show ?thesis
  proof cases
    case (applied blk h t n)
    have "service_step (app_of m) (app_of (m\<lparr>disk := d\<rparr>))"
      using applied by (intro step_to_app) (auto intro: service_step.watcher_applies)
    with app show ?thesis by auto
  next
    case (failed blk h t e hs)
    have "service_step (app_of m) (app_of (m\<lparr>disk := d\<rparr>))"
      using failed by (intro step_to_app) (auto intro: service_step.watcher_applies)
    with app show ?thesis by auto
  qed (use app in simp_all)
next
  case (pays key "is" is' d sent)
  have app: "app_of m' = app_of (m\<lparr>disk := d\<rparr>)" using pays(1) by (simp add: app_of_def)
  from pays(3) have "service_step (app_of m) (app_of (m\<lparr>disk := d\<rparr>))"
  proof cases
    case (claimed t ps)
    then show ?thesis by (intro step_to_app) (auto intro: service_step.runner_claims)
  next
    case (not_claimed t e)
    then show ?thesis by (intro step_to_app) (auto intro: service_step.runner_claims)
  next
    case (processed env show_json exc_str t i w u w')
    then show ?thesis by (intro step_to_app) (auto intro: service_step.runner_pays)
  next
    case (failed env show_json exc_str t i "is" w e w')
    then show ?thesis by (intro step_to_app) (auto intro: service_step.runner_pays)
  qed
  with app show ?thesis by auto
next
  case (snapshots d)
  from snapshots(2) have "service_step (app_of m) (app_of (m\<lparr>disk := d\<rparr>))"
    by cases (auto intro!: step_to_app intro: service_step.intros)
  with snapshots(1) show ?thesis by auto
qed

lemma runs_to_reachable: "runs_to c m \<Longrightarrow> reachable (app_of m)"
proof (unfold runs_to_def, induction rule: rtranclp_induct)
  case base
  show ?case by (simp add: app_of_def blank_machine_def new_process_def reachable_def initial_app_def)
next
  case (step m1 m2)
  from step.IH machine_step_service [OF step.hyps(2)] show ?case
    unfolding reachable_def by (rule rtranclp_trans)
qed

lemma runs_to_keys: "runs_to c m \<Longrightarrow> wf_keys (disk m)"
  using reachable_ok [OF runs_to_reachable] by (simp add: service_ok_def)

lemma runs_to_fit: "runs_to c m \<Longrightarrow> rows_fit (disk m)"
  using columns.reachable_keeps [OF runs_to_reachable] by (simp add: rows_fit_def empty_db_def)

lemma runs_to_payout_ok: "runs_to c m \<Longrightarrow> get_payout (disk m) i = Some p \<Longrightarrow> payout_ok p"
  using reachable_ok [OF runs_to_reachable] payout_table.get_mem
  by (fastforce simp: service_ok_def payouts_ok_def)

section \<open>The key in use\<close>

definition is_pool_key :: "crypto \<Rightarrow> PoolKey \<Rightarrow> bool" where
  "is_pool_key c key \<longleftrightarrow> key_address key = pool_address \<and> derive_address c (public_key key) = Inr pool_address \<and>
     length (public_key key) = PK_SIZE \<and> length (secret_key key) = SK_SIZE"

lemma load_key_is_pool_key:
  assumes "load_key c dec passphrase keyfile cached = (Inr key, cached')"
    and "\<forall>k. cached = Some k \<longrightarrow> is_pool_key c k"
  shows "is_pool_key c key"
  using assms
  by (auto simp: load_key_def is_pool_key_def bind_def gets_exec return_exec raise_exec modify_exec
      lift_exec Let_def dilithium_sizes split: option.splits if_splits sum.splits)

definition keys_ok :: "crypto \<Rightarrow> process \<Rightarrow> bool" where
  "keys_ok c s \<longleftrightarrow> (\<forall>key. cached_key s = Some key \<longrightarrow> is_pool_key c key) \<and>
     (\<forall>key is. runner_task s = Some (key, is) \<longrightarrow> is_pool_key c key) \<and>
     (serving s \<longrightarrow> runner_task s \<noteq> None)"

lemma keys_ok_new [simp]: "keys_ok c new_process"
  by (simp add: keys_ok_def new_process_def)

lemma keys_ok_startup:
  assumes "lifespan_startup c dec passphrase keyfile s = (r, q)" and "keys_ok c s"
  shows "keys_ok c q"
  using assms(1)
proof (cases rule: lifespan_startup_cases)
  case (up key q')
  then obtain k' where "load_key c dec passphrase keyfile (cached_key s) = (Inr key, k')"
    by (auto simp: hot_key_signer_def on_key_def split: prod.splits)
  from load_key_is_pool_key [OF this] assms(2) have "is_pool_key c key" by (simp add: keys_ok_def)
  with up(3) show ?thesis by (simp add: keys_ok_def)
qed (use assms(2) in \<open>simp add: keys_ok_def\<close>)

lemma keys_ok_step: "machine_step c m m' \<Longrightarrow> keys_ok c (proc m) \<Longrightarrow> keys_ok c (proc m')"
proof (induction rule: machine_step.induct)
  case (starts m dec passphrase keyfile r q)
  from keys_ok_startup [OF starts(3,4)] show ?case by simp
qed (auto simp: keys_ok_def lifespan_shutdown_def new_process_def)

lemma runs_to_keys_ok: "runs_to c m \<Longrightarrow> keys_ok c (proc m)"
  unfolding runs_to_def
  by (induction rule: rtranclp_induct) (auto simp: blank_machine_def intro: keys_ok_step)

section \<open>What the other components do to the payouts\<close>

lemma answers_grow:
  assumes "answers c s s'"
  shows "queue_grows (database s) (database s')"
  using assms
proof cases
  case (unstake k ureq ur)
  then show ?thesis unfolding request_unstake_def
    by (cases rule: endpoint_cases)
      (auto simp: queue_grows_same intro!: scope_queue_grows(2) [OF queue.keeps_endpoints(1) surjective_pairing])
next
  case (cancel k creq cr)
  then show ?thesis unfolding cancel_unstake_def
    by (cases rule: endpoint_cases)
      (auto simp: queue_grows_same intro!: scope_queue_grows(2) [OF queue.keeps_endpoints(2) surjective_pairing])
next
  case (claim k req lr)
  then show ?thesis unfolding claim_rewards_def
    by (cases rule: endpoint_cases)
      (auto simp: queue_grows_same intro!: scope_queue_grows(2) [OF queue.keeps_endpoints(3) surjective_pairing])
qed

lemma snapshot_grows: "snapshot_step d d' \<Longrightarrow> queue_grows d d'"
  by (induction rule: snapshot_step.induct)
    (auto intro: scope_queue_grows(1) [OF queue.keeps_walks(1)] scope_queue_grows(1) [OF queue.keeps_walks(2)]
      scope_queue_grows(1) [OF queue.keeps_walks(3)])

lemma watcher_step_grows: "watcher_step (hs, d) (hs', d') \<Longrightarrow> queue_grows d d'"
  by (erule watcher_step.cases)
    (auto simp: queue_grows_same intro: scope_queue_grows(1) [OF queue.keeps_walks(4)])

text \<open>A step of the machine is one of the runner's, or it loses the runner's round, or leaves it alone.\<close>

lemma machine_step_payouts:
  assumes "machine_step c m m'"
  obtains (runner) key "is" is' where "runner_task (proc m) = Some (key, is)" "runner_task (proc m') = Some (key, is')"
      "runner_step c key (is, disk m, handed m) (is', disk m', handed m')"
  | (lost) key i "is" where "runner_task (proc m) = Some (key, i # is)" "runner_task (proc m') = None"
      "disk m' = disk m" "handed m' = handed m @ handed_over (disk m) i"
  | (other) "queue_grows (disk m) (disk m')" "handed m' = handed m"
      "runner_task (proc m') = runner_task (proc m) \<or> runner_task (proc m') = None \<or>
       (\<exists>key. runner_task (proc m') = Some (key, []))"
  using assms
proof cases
  case (starts dec passphrase keyfile r q)
  from starts(4) have "runner_task q = runner_task (proc m) \<or> (\<exists>key. runner_task q = Some (key, []))"
    by (cases rule: lifespan_startup_cases) simp_all
  with starts(1) show thesis by (intro other) (auto simp: queue_grows_same)
next
  case shuts_down
  then show thesis by (intro other) (simp_all add: lifespan_shutdown_def queue_grows_same)
next
  case dies
  then show thesis by (intro other) (simp_all add: new_process_def queue_grows_same)
next
  case (dies_paying key i "is")
  then show thesis by (intro lost) (simp_all add: new_process_def)
next
  case (serves s)
  with answers_grow [OF serves(3)] show thesis by (intro other) simp_all
next
  case (watches hs hs' d)
  with watcher_step_grows show thesis by (intro other) simp_all
next
  case (pays key "is" is' d sent)
  then show thesis by (intro runner) simp_all
next
  case (snapshots d)
  with snapshot_grows show thesis by (intro other) simp_all
qed

section \<open>How often a payout is handed over\<close>

lemma handed_over_cases:
  obtains (none) "handed_over d i = []" "\<forall>p. get_payout d i = Some p \<longrightarrow> payout_status p \<noteq> SIGNING"
  | (one) p where "handed_over d i = [i]" "get_payout d i = Some p" "payout_status p = SIGNING"
  by (cases "get_payout d i") (auto simp: handed_over_def split: if_splits)

lemma process_one_effect:
  assumes "process_one signer exc_str t i (d, w) = (r, d', w')"
  obtains (idle) "handed_over d i = []" "d' = d" "r = Inr ()"
  | (written) p sr where "handed_over d i = [i]" "get_payout d i = Some p" "payout_status p = SIGNING"
      "r = Inr ()" "d' = put_payout (payout_outcome exc_str sr p) d"
  | (unwritten) p e where "handed_over d i = [i]" "get_payout d i = Some p" "payout_status p = SIGNING"
      "r = Inl e" "\<forall>j. get_payout d' j = get_payout d j"
proof (cases rule: handed_over_cases [of d i])
  case none
  with assms show thesis by (intro idle) (auto simp: process_one_def split: option.splits if_splits)
next
  case (one p)
  obtain sr w1 where sg: "signer p w = (sr, w1)" by fastforce
  with assms one have scope: "session_scope (write_payout (payout_outcome exc_str sr p)) t d = (r, d')"
    by (auto simp: process_one_def split: prod.splits)
  show thesis
  proof (cases r)
    case (Inl e)
    with scope have "get_payout d' j = get_payout d j" for j
      by (auto simp: session_scope_def bind_def write_payout_run commit_run return_exec rolled_back_def
          keep_sequences_def get_payout_def split: if_splits)
    with one Inl show thesis by (intro unwritten) auto
  next
    case (Inr u)
    with scope have "d' = put_payout (payout_outcome exc_str sr p) d"
      by (auto simp: session_scope_def bind_def write_payout_run commit_run return_exec split: if_splits)
    with one Inr show thesis by (intro written) auto
  qed
qed

lemma payout_outcome_counts:
  "attempts (payout_outcome exc_str r p) = attempts p + 1"
  "payout_status (payout_outcome exc_str r p) \<noteq> SIGNING"
  by (simp_all add: payout_outcome_def split: sum.split py_error.split)

lemma row_get_map:
  assumes "\<And>r. key (f r) = key r"
  shows "row_get key (map f rows) k = map_option f (row_get key rows k)"
  using assms by (induction rows) (simp_all add: row_get_Cons)

text \<open>
  The count of a payout in the log is its number of attempts; only a payout that is SIGNING and no
  longer in the round of a runner may have been handed over once more.
\<close>

definition handed_ok :: "db \<Rightarrow> int list \<Rightarrow> int list \<Rightarrow> bool" where
  "handed_ok d todo sent \<longleftrightarrow> (\<forall>i \<in> set sent. get_payout d i \<noteq> None) \<and> distinct todo \<and>
     (\<forall>i p. get_payout d i = Some p \<longrightarrow>
        int (count_list sent i) = attempts p \<or>
        payout_status p = SIGNING \<and> i \<notin> set todo \<and> int (count_list sent i) = attempts p + 1)"

lemma handed_okI:
  assumes "\<And>i. i \<in> set sent \<Longrightarrow> get_payout d i \<noteq> None" and "distinct todo"
    and "\<And>i p. get_payout d i = Some p \<Longrightarrow> int (count_list sent i) = attempts p \<or>
      payout_status p = SIGNING \<and> i \<notin> set todo \<and> int (count_list sent i) = attempts p + 1"
  shows "handed_ok d todo sent"
  unfolding handed_ok_def using assms by blast

lemma handed_okD:
  assumes "handed_ok d todo sent"
  shows "i \<in> set sent \<Longrightarrow> get_payout d i \<noteq> None" and "distinct todo"
    and "get_payout d i = Some p \<Longrightarrow> int (count_list sent i) = attempts p \<or>
      payout_status p = SIGNING \<and> i \<notin> set todo \<and> int (count_list sent i) = attempts p + 1"
  using assms unfolding handed_ok_def by blast+

lemma handed_ok_lost:
  assumes "handed_ok d todo sent" shows "handed_ok d [] sent"
  by (rule handed_okI) (use handed_okD [OF assms] in auto)

lemma handed_ok_grows:
  assumes ok: "handed_ok d todo sent" and grows: "queue_grows d d'"
  shows "handed_ok d' todo sent"
proof (rule handed_okI)
  show "get_payout d' i \<noteq> None" if "i \<in> set sent" for i
    using handed_okD(1) [OF ok that] queue_grows_old [OF grows] by auto
next
  fix i p assume p: "get_payout d' i = Some p"
  show "int (count_list sent i) = attempts p \<or>
      payout_status p = SIGNING \<and> i \<notin> set todo \<and> int (count_list sent i) = attempts p + 1"
  proof (cases "get_payout d i")
    case None
    with handed_okD(1) [OF ok, of i] have "i \<notin> set sent" by blast
    then have "count_list sent i = 0" by (simp add: count_list_0_iff)
    with queue_grows_new [OF grows None p] show ?thesis by (simp add: fresh_payout_def)
  next
    case (Some q)
    with queue_grows_old [OF grows Some] p handed_okD(3) [OF ok Some] show ?thesis by simp
  qed
qed (rule handed_okD(2) [OF ok])

lemma claim_get_payout:
  assumes "wf_keys d"
  shows "get_payout (d\<lparr>pending_payouts := signing_when (\<lambda>p. p \<in> set (batch_query d)) (pending_payouts d)\<rparr>) i =
    (case get_payout d i of None \<Rightarrow> None
     | Some p \<Rightarrow> Some (if i \<in> payout_id ` set (batch_query d) then p\<lparr>payout_status := SIGNING\<rparr> else p))"
proof (cases "get_payout d i")
  case None
  then show ?thesis by (simp add: get_payout_def signing_when_def row_get_map)
next
  case (Some p)
  have "p \<in> set (batch_query d) \<longleftrightarrow> i \<in> payout_id ` set (batch_query d)"
  proof
    assume "p \<in> set (batch_query d)"
    then show "i \<in> payout_id ` set (batch_query d)" using payout_table.get_key [OF Some] by blast
  next
    assume "i \<in> payout_id ` set (batch_query d)"
    then obtain q where q: "q \<in> set (batch_query d)" "i = payout_id q" by blast
    with batch_query_loaded(2) [OF assms q(1)] Some show "p \<in> set (batch_query d)" by simp
  qed
  with Some show ?thesis by (simp add: get_payout_def signing_when_def row_get_map)
qed

lemma handed_ok_claim:
  assumes ok: "handed_ok d [] sent" and keys: "wf_keys d" and fit: "rows_fit d"
    and claim: "session_scope claim_batch t d = (Inr ps, d')"
  shows "handed_ok d' (map payout_id ps) sent"
proof -
  note scope = claim_batch_scope [OF keys fit, of t]
  have ps: "map payout_id ps = map payout_id (batch_query d)" using claim scope by auto
  have get: "get_payout d' i = (case get_payout d i of None \<Rightarrow> None
      | Some p \<Rightarrow> Some (if i \<in> payout_id ` set (batch_query d) then p\<lparr>payout_status := SIGNING\<rparr> else p))" for i
    using claim scope claim_get_payout [OF keys] by simp
  show ?thesis
  proof (rule handed_okI)
    show "get_payout d' i \<noteq> None" if "i \<in> set sent" for i
      using handed_okD(1) [OF ok that] by (auto simp: get)
    show "distinct (map payout_id ps)" using batch_query_loaded(1) [OF keys] ps by simp
    fix i p assume p: "get_payout d' i = Some p"
    then obtain q where q: "get_payout d i = Some q" by (auto simp: get split: option.splits)
    show "int (count_list sent i) = attempts p \<or>
        payout_status p = SIGNING \<and> i \<notin> set (map payout_id ps) \<and> int (count_list sent i) = attempts p + 1"
    proof (cases "i \<in> payout_id ` set (batch_query d)")
      case True
      with batch_query_loaded(2) [OF keys] q have "claimable q" by fastforce
      with handed_okD(3) [OF ok q] p q True show ?thesis by (auto simp: get claimable_def)
    next
      case False
      moreover have "set (map payout_id ps) = payout_id ` set (batch_query d)" unfolding ps by simp
      ultimately show ?thesis using handed_okD(3) [OF ok q] p q by (simp add: get)
    qed
  qed
qed

text \<open>One payout was handed over; whether its outcome was written decides what the log says of it.\<close>

lemma handed_ok_written:
  assumes ok: "handed_ok d (i # is) sent" and p: "get_payout d i = Some p" and signing: "payout_status p = SIGNING"
  shows "handed_ok (put_payout (payout_outcome exc_str sr p) d) is (sent @ [i])"
proof -
  have key: "payout_id (payout_outcome exc_str sr p) = i" using payout_table.get_key [OF p] by simp
  then have get: "get_payout (put_payout (payout_outcome exc_str sr p) d) j =
      (if j = i then Some (payout_outcome exc_str sr p) else get_payout d j)" for j
    using payout_table.get_put [of "payout_outcome exc_str sr p" d j] p by auto
  show ?thesis
  proof (rule handed_okI)
    show "get_payout (put_payout (payout_outcome exc_str sr p) d) j \<noteq> None" if "j \<in> set (sent @ [i])" for j
      using that handed_okD(1) [OF ok, of j] by (auto simp: get)
    show "distinct is" using handed_okD(2) [OF ok] by simp
    fix j q assume q: "get_payout (put_payout (payout_outcome exc_str sr p) d) j = Some q"
    show "int (count_list (sent @ [i]) j) = attempts q \<or>
        payout_status q = SIGNING \<and> j \<notin> set is \<and> int (count_list (sent @ [i]) j) = attempts q + 1"
    proof (cases "j = i")
      case True
      with handed_okD(3) [OF ok p] q show ?thesis by (auto simp: get payout_outcome_counts)
    next
      case False
      with handed_okD(3) [OF ok, of j q] q show ?thesis by (auto simp: get)
    qed
  qed
qed

lemma handed_ok_unwritten:
  assumes ok: "handed_ok d (i # is) sent" and p: "get_payout d i = Some p" and signing: "payout_status p = SIGNING"
    and same: "\<forall>j. get_payout d' j = get_payout d j"
  shows "handed_ok d' [] (sent @ [i])"
proof (rule handed_okI)
  show "get_payout d' j \<noteq> None" if "j \<in> set (sent @ [i])" for j
    using that p same handed_okD(1) [OF ok, of j] by auto
  fix j q assume q: "get_payout d' j = Some q"
  then have q': "get_payout d j = Some q" using same by simp
  show "int (count_list (sent @ [i]) j) = attempts q \<or>
      payout_status q = SIGNING \<and> j \<notin> set [] \<and> int (count_list (sent @ [i]) j) = attempts q + 1"
  proof (cases "j = i")
    case True
    with handed_okD(3) [OF ok q'] q' p signing show ?thesis by auto
  next
    case False
    with handed_okD(3) [OF ok q'] show ?thesis by auto
  qed
qed simp

lemma handed_ok_runner_step:
  assumes "runner_step c key (todo, d, sent) (todo', d', sent')" and ok: "handed_ok d todo sent"
    and keys: "wf_keys d" and fit: "rows_fit d"
  shows "handed_ok d' todo' sent'"
  using assms(1)
proof cases
  case (claimed t ps)
  with handed_ok_claim [OF _ keys fit] ok show ?thesis by simp
next
  case (not_claimed t e)
  with claim_batch_scope [OF keys fit, of t] show ?thesis by simp
next
  case (processed env show_json exc_str t i w u w')
  from processed(3) show ?thesis
  proof (cases rule: process_one_effect)
    case idle
    with ok processed handed_okD [OF ok] show ?thesis by (cases rule: handed_over_cases [of d i]) (auto intro!: handed_okI)
  next
    case (written p sr)
    with ok processed handed_ok_written show ?thesis by simp
  qed simp
next
  case (failed env show_json exc_str t i w e w' "is")
  from failed(4) show ?thesis
  proof (cases rule: process_one_effect)
    case (unwritten p e')
    with ok failed handed_ok_unwritten show ?thesis by simp
  qed simp_all
qed

abbreviation todo :: "machine \<Rightarrow> int list" where
  "todo m \<equiv> (case runner_task (proc m) of None \<Rightarrow> [] | Some (key, is) \<Rightarrow> is)"

lemma runs_to_handed_ok: "runs_to c m \<Longrightarrow> handed_ok (disk m) (todo m) (handed m)"
proof -
  assume "runs_to c m"
  then have "runs_to c m \<and> handed_ok (disk m) (todo m) (handed m)"
    unfolding runs_to_def
  proof (induction rule: rtranclp_induct)
    case base
    show ?case
      by (auto simp: blank_machine_def new_process_def handed_ok_def get_payout_def empty_db_def)
  next
    case (step m m')
    then have run: "runs_to c m" and ok: "handed_ok (disk m) (todo m) (handed m)" by (simp_all add: runs_to_def)
    from step.hyps(2) have "handed_ok (disk m') (todo m') (handed m')"
    proof (cases rule: machine_step_payouts)
      case (runner key "is" is')
      with handed_ok_runner_step [OF runner(3)] ok runs_to_keys [OF run] runs_to_fit [OF run] show ?thesis by simp
    next
      case (lost key i "is")
      then show ?thesis
        using ok handed_ok_lost [OF ok] handed_ok_unwritten [of "disk m" i "is" "handed m" _ "disk m"]
        by (cases rule: handed_over_cases [of "disk m" i]) auto
    next
      case other
      from handed_ok_grows [OF ok other(1)] other(2) have "handed_ok (disk m') (todo m) (handed m')" by simp
      with handed_ok_lost [OF this] other(3) show ?thesis by auto
    qed
    with step show ?case by auto
  qed
  then show ?thesis by blast
qed

text \<open>Once out of a runner's round, a payout that is SIGNING stays so.\<close>

lemma stranded_step:
  assumes "machine_step c m m'" and "runs_to c m" and p: "get_payout (disk m) i = Some p"
    and signing: "payout_status p = SIGNING" and out: "i \<notin> set (todo m)"
  shows "get_payout (disk m') i = Some p \<and> i \<notin> set (todo m') \<and>
    count_list (handed m') i = count_list (handed m) i"
  using assms(1)
proof (cases rule: machine_step_payouts)
  case (runner key "is" is')
  have keys: "wf_keys (disk m)" and fit: "rows_fit (disk m)"
    using runs_to_keys runs_to_fit assms(2) by blast+
  from runner(3) show ?thesis
  proof cases
    case (claimed t ps)
    note scope = claim_batch_scope [OF keys fit, of t]
    have "i \<notin> payout_id ` set (batch_query (disk m))"
      using batch_query_loaded(2) [OF keys] p signing by (force simp: claimable_def)
    moreover have "ps = map (\<lambda>p. p\<lparr>payout_status := SIGNING\<rparr>) (batch_query (disk m))"
      using claimed scope by simp
    then have "set (map payout_id ps) = payout_id ` set (batch_query (disk m))" by (simp add: image_image)
    ultimately show ?thesis
      using claimed scope claim_get_payout [OF keys, of i] p runner by simp
  next
    case (not_claimed t e)
    with claim_batch_scope [OF keys fit, of t] show ?thesis by simp
  next
    case (processed env show_json exc_str t j w u w')
    then have ij: "i \<noteq> j" "i \<notin> set is'" using out runner by auto
    from processed(3) show ?thesis
    proof (cases rule: process_one_effect)
      case idle
      with processed ij p runner show ?thesis by simp
    next
      case (written q sr)
      have "payout_id (payout_outcome exc_str sr q) = j" using payout_table.get_key [OF written(2)] by simp
      with payout_table.get_put [of "payout_outcome exc_str sr q" "disk m" i] written processed ij p runner
      show ?thesis by simp
    qed simp
  next
    case (failed env show_json exc_str t j w e w' "js")
    then have ij: "i \<noteq> j" using out runner by auto
    from failed(4) show ?thesis
    proof (cases rule: process_one_effect)
      case (unwritten q e')
      with failed ij p runner show ?thesis by simp
    qed simp_all
  qed
next
  case (lost key j "is")
  then have "i \<noteq> j" using out by auto
  with lost p show ?thesis by (cases rule: handed_over_cases [of "disk m" j]) simp_all
next
  case other
  from other(3) have "todo m' = todo m \<or> todo m' = []" by auto
  then have "i \<notin> set (todo m')" using out by (metis empty_iff list.set(1))
  with queue_grows_old [OF other(1) p] show ?thesis by (simp only: other(2) simp_thms)
qed

lemma stranded_steps:
  assumes "(machine_step c)\<^sup>*\<^sup>* m m'" and "runs_to c m" and "get_payout (disk m) i = Some p"
    and "payout_status p = SIGNING" and "i \<notin> set (todo m)"
  shows "get_payout (disk m') i = Some p \<and> i \<notin> set (todo m') \<and>
    count_list (handed m') i = count_list (handed m) i"
  using assms(1)
proof (induction rule: rtranclp_induct)
  case base
  with assms show ?case by simp
next
  case (step m1 m2)
  have "runs_to c m1" using assms(2) step.hyps(1) unfolding runs_to_def by (rule rtranclp_trans)
  from stranded_step [OF step.hyps(2) this _ assms(4)] step.IH show ?case by simp
qed

end
