(* ===== verification/Crashes.thy ===== *)
theory Crashes
  imports Lifetimes
begin

text \<open>
  The properties of the service over any number of processes, with a run of the machine that is
  traced height by height: a stake, a request to unstake, the cooldown, and a process that dies
  while it pays.
\<close>

section \<open>A run of the machine\<close>

definition ex_decryption :: decryption where
  "ex_decryption = \<lparr>kdf = (\<lambda>_ _. []), cbc_decrypt = (\<lambda>_ _ ct. Inr ct), unpad = Inr\<rparr>"

definition ex_keyfile :: bytes where
  "ex_keyfile = map char_byte ''Salted__'' @ replicate 8 0 @ ex_pool_pk @ replicate 4032 0"

lemma ex_load_key:
  "load_key ex_crypto ex_decryption (Some ''pass'') (Some ex_keyfile) None = (Inr ex_key, Some ex_key)"
proof -
  have "decrypt_openssl_cbc_pbkdf2 ex_decryption ex_keyfile ''pass'' = Inr (ex_pool_pk @ replicate 4032 0)"
    by (simp add: decrypt_openssl_cbc_pbkdf2_def ex_decryption_def ex_keyfile_def Let_def)
  moreover have "derive_address ex_crypto ex_pool_pk = Inr pool_address"
    using ex_pool_derived by (simp add: derive_address_total dilithium_sizes)
  ultimately show ?thesis
    by (simp add: load_key_def bind_def gets_exec lift_exec return_exec modify_exec dilithium_sizes
        ex_key_def Let_def)
qed

definition ex_process :: "nonce_cache \<Rightarrow> int list \<Rightarrow> int list \<Rightarrow> process" where
  "ex_process seen hs is = \<lparr>cached_key = Some ex_key, seen_nonces = seen, watcher_task = Some hs,
     runner_task = Some (ex_key, is), serving = True\<rparr>"

definition ex_machine :: "nonce_cache \<Rightarrow> int list \<Rightarrow> int list \<Rightarrow> db \<Rightarrow> machine" where
  "ex_machine seen hs is d = \<lparr>proc = ex_process seen hs is, disk = d, handed = []\<rparr>"

lemma ex_machine_fields [simp]:
  "proc (ex_machine seen hs is d) = ex_process seen hs is" "disk (ex_machine seen hs is d) = d"
  "handed (ex_machine seen hs is d) = []" "watcher_task (ex_process seen hs is) = Some hs"
  "runner_task (ex_process seen hs is) = Some (ex_key, is)" "serving (ex_process seen hs is)"
  "seen_nonces (ex_process seen hs is) = seen"
  by (simp_all add: ex_machine_def ex_process_def)

lemma ex_startup:
  "lifespan_startup ex_crypto ex_decryption (Some ''pass'') (Some ex_keyfile) new_process =
     (Inr (), ex_process Map.empty [] [])"
  by (simp add: lifespan_startup_run hot_key_signer_def on_key_def new_process_def ex_load_key ex_process_def)

lemma ex_machine_up: "runs_to ex_crypto (ex_machine Map.empty [] [] ex_ready)"
proof -
  note step = runs_to_step [OF _ machine_step.snapshots]
  have "runs_to ex_crypto (blank_machine\<lparr>disk := ex_started\<rparr>)"
    by (rule step [OF runs_to_blank]) (auto simp: blank_machine_def intro: snapshot_step.begins [OF ex_start])
  from step [OF this, of ex_staked] snapshot_step.applies [OF ex_snapshot]
  have "runs_to ex_crypto (blank_machine\<lparr>disk := ex_staked\<rparr>)" by simp
  from step [OF this, of ex_ready] snapshot_step.ends [OF ex_finish]
  have ready: "runs_to ex_crypto (blank_machine\<lparr>disk := ex_ready\<rparr>)" by simp
  have "machine_step ex_crypto (blank_machine\<lparr>disk := ex_ready\<rparr>)
      ((blank_machine\<lparr>disk := ex_ready\<rparr>)\<lparr>proc := ex_process Map.empty [] []\<rparr>)"
    by (rule machine_step.starts [where dec = ex_decryption and passphrase = "Some ''pass''"
        and keyfile = "Some ex_keyfile" and r = "Inr ()"])
      (simp_all add: blank_machine_def ex_startup, simp_all add: new_process_def)
  moreover have "(blank_machine\<lparr>disk := ex_ready\<rparr>)\<lparr>proc := ex_process Map.empty [] []\<rparr> =
      ex_machine Map.empty [] [] ex_ready" by (simp add: blank_machine_def ex_machine_def)
  ultimately show ?thesis using runs_to_step [OF ready] by simp
qed

definition ex_seen :: nonce_cache where
  "ex_seen = [''nonce-01'' \<mapsto> 1000]"

lemma ex_answers_unstake: "answers ex_crypto \<lparr>nonces = Map.empty, database = ex_ready\<rparr> ex_after_request"
proof -
  obtain r where "request_unstake ex_crypto ex_readings ex_request \<lparr>nonces = Map.empty, database = ex_ready\<rparr> =
      (r, ex_after_request)"
    using ex_request_step(2) surjective_pairing by metis
  then show ?thesis by (rule answers.unstake)
qed

lemma ex_machine_requested: "runs_to ex_crypto (ex_machine ex_seen [] [] ex_requested)"
proof -
  let ?m = "ex_machine Map.empty [] [] ex_ready"
  have "machine_step ex_crypto ?m (with_app ex_after_request ?m)"
    using ex_answers_unstake by (intro machine_step.serves) (simp_all add: app_of_def)
  moreover have "with_app ex_after_request ?m = ex_machine ex_seen [] [] ex_requested"
    by (simp add: with_app_def ex_after_request_def ex_machine_def ex_process_def ex_seen_def)
  ultimately show ?thesis using runs_to_step [OF ex_machine_up] by simp
qed

text \<open>The state while the cooldown runs: empty blocks move the height on and nothing else.\<close>

definition ex_waiting :: "int \<Rightarrow> db" where
  "ex_waiting h = ex_requested\<lparr>watcher := Some (ex_watcher h (Some 100))\<rparr>"

lemma ex_waiting_fields [simp]:
  "watcher (ex_waiting h) = Some (ex_watcher h (Some 100))" "unstake_requests (ex_waiting h) = [ex_unstake PENDING]"
  "pending_payouts (ex_waiting h) = []" "next_payout_id (ex_waiting h) = 1"
  "(ex_waiting h)\<lparr>watcher := Some (ex_watcher k (Some 100))\<rparr> = ex_waiting k"
  by (simp_all add: ex_waiting_def ex_states)

lemma ex_empty_block:
  assumes "0 \<le> h" "h < 10081"
  shows "session_scope (watcher_block_session (block_of h []) h) t (ex_waiting k) = (Inr 0, ex_waiting h)"
proof -
  have upd: "(ex_watcher k (Some 100))\<lparr>last_processed_height := h\<rparr> = ex_watcher h (Some 100)"
    by (simp add: ex_watcher_def)
  have "unlocked_requests h (ex_waiting h) = []"
    using assms by (simp add: unlocked_requests_def) (simp add: ex_unstake_def)
  with assms show ?thesis
    by (simp add: session_scope_def watcher_block_session_def apply_block_of bind_def gets_exec return_exec
        write_watcher_run upd big_integer_def process_unlocked_unstakes_def commit_run raise_unless_exec)
qed

text \<open>One tick of the watcher that finds one block.\<close>

lemma ex_tick:
  assumes "runs_to ex_crypto (ex_machine ex_seen [] [] d)" and "watcher d = Some (ex_watcher k (Some 100))"
    and "session_scope (watcher_block_session blk (k + 1)) t d = (Inr n, d')"
  shows "runs_to ex_crypto (ex_machine ex_seen [] [] d')"
proof -
  have upd: "(ex_machine seen hs is d)\<lparr>proc := (ex_process seen hs is)\<lparr>watcher_task := Some hs'\<rparr>, disk := d'\<rparr> =
      ex_machine seen hs' is d'" for seen hs "is" hs' d d' by (simp add: ex_machine_def ex_process_def)
  have "watcher_step ([], d) ([k + 1..k + 1], d)"
    using watcher_step.new_blocks [OF assms(2), of "k + 1"] by simp
  then have "machine_step ex_crypto (ex_machine ex_seen [] [] d) (ex_machine ex_seen [k + 1] [] d)"
    using machine_step.watches [of "ex_machine ex_seen [] [] d" "[]" "[k + 1..k + 1]" d] by (simp add: upd)
  from runs_to_step [OF assms(1) this] have found: "runs_to ex_crypto (ex_machine ex_seen [k + 1] [] d)" .
  have "machine_step ex_crypto (ex_machine ex_seen [k + 1] [] d) (ex_machine ex_seen [] [] d')"
    using machine_step.watches [of "ex_machine ex_seen [k + 1] [] d" "[k + 1]" "[]" d']
      watcher_step.applied [OF assms(3), of "[]"] by (simp add: upd)
  from runs_to_step [OF found this] show ?thesis .
qed

lemma ex_machine_waiting:
  "k \<le> 10079 \<Longrightarrow> runs_to ex_crypto (ex_machine ex_seen [] [] (ex_waiting (1 + int k)))"
proof (induction k)
  case 0
  have "ex_waiting 1 = ex_requested" by (simp add: ex_waiting_def ex_states)
  with ex_machine_requested show ?case by simp
next
  case (Suc k)
  then have "session_scope (watcher_block_session (block_of (1 + int k + 1) []) (1 + int k + 1)) 0
      (ex_waiting (1 + int k)) = (Inr 0, ex_waiting (1 + int k + 1))"
    by (intro ex_empty_block) simp_all
  from ex_tick [OF Suc.IH _ this] Suc.prems show ?case by (simp add: algebra_simps)
qed

definition ex_due :: "payout_state \<Rightarrow> db" where
  "ex_due st = (ex_waiting 10081)\<lparr>unstake_requests := [ex_unstake READY],
     pending_payouts := [ex_payout st], next_payout_id := 2\<rparr>"

lemma ex_due_block:
  "session_scope (watcher_block_session (block_of 10081 []) 10081) 2000 (ex_waiting 10080) = (Inr 1, ex_due QUEUED)"
proof -
  have upd: "(ex_watcher 10080 (Some 100))\<lparr>last_processed_height := 10081\<rparr> = ex_watcher 10081 (Some 100)"
    by (simp add: ex_watcher_def)
  then have "watcher_block_session (block_of 10081 []) 10081 (begin_session 2000 (ex_waiting 10080)) =
      process_unlocked_unstakes 10081 ((begin_session 2000 (ex_waiting 10080))\<lparr>working := ex_waiting 10081\<rparr>)"
    by (simp add: watcher_block_session_def apply_block_of bind_def gets_exec return_exec write_watcher_run
        big_integer_def)
  then show ?thesis
    by (simp add: session_scope_def bind_def ex_refund_queued commit_run return_exec ex_due_def)
qed

lemma ex_machine_due: "runs_to ex_crypto (ex_machine ex_seen [] [] (ex_due QUEUED))"
  using ex_tick [OF ex_machine_waiting [of 10079], of 10080 "block_of 10081 []" 2000 1 "ex_due QUEUED"] ex_due_block
  by simp

lemma ex_machine_signing: "runs_to ex_crypto (ex_machine ex_seen [] [1] (ex_due SIGNING))"
proof -
  let ?m = "ex_machine ex_seen [] [] (ex_due QUEUED)"
  have "pending_payouts (ex_due QUEUED) = [ex_payout QUEUED]" by (simp add: ex_due_def)
  from ex_claim_from [OF this, of 2010]
  have "session_scope claim_batch 2010 (ex_due QUEUED) = (Inr [ex_payout SIGNING], ex_due SIGNING)"
    by (simp add: ex_due_def)
  from runner_step.claimed [OF this]
  have "runner_step ex_crypto ex_key ([], disk ?m, handed ?m) ([1], ex_due SIGNING, [])"
    by (simp add: ex_payout_def)
  then have "machine_step ex_crypto ?m (?m\<lparr>proc := (proc ?m)\<lparr>runner_task := Some (ex_key, [1])\<rparr>,
      disk := ex_due SIGNING, handed := []\<rparr>)"
    by (intro machine_step.pays) simp_all
  moreover have "?m\<lparr>proc := (proc ?m)\<lparr>runner_task := Some (ex_key, [1])\<rparr>, disk := ex_due SIGNING, handed := []\<rparr> =
      ex_machine ex_seen [] [1] (ex_due SIGNING)" by (simp add: ex_machine_def ex_process_def)
  ultimately show ?thesis using runs_to_step [OF ex_machine_due] by simp
qed

text \<open>The process dies: before it hands the payout over, or after.\<close>

lemma ex_due_payout: "get_payout (ex_due st) 1 = Some (ex_payout st)" "payout_status (ex_payout st) = st"
  by (simp_all add: get_payout_def ex_due_def row_get_Cons) (simp_all add: ex_payout_def)

lemma ex_machine_dead:
  "runs_to ex_crypto \<lparr>proc = new_process, disk = ex_due SIGNING, handed = []\<rparr>"
  "runs_to ex_crypto \<lparr>proc = new_process, disk = ex_due SIGNING, handed = [1]\<rparr>"
proof -
  let ?m = "ex_machine ex_seen [] [1] (ex_due SIGNING)"
  have "killed ?m = \<lparr>proc = new_process, disk = ex_due SIGNING, handed = []\<rparr>"
    by (simp add: killed_def ex_machine_def)
  with runs_to_step [OF ex_machine_signing machine_step.dies]
  show "runs_to ex_crypto \<lparr>proc = new_process, disk = ex_due SIGNING, handed = []\<rparr>" by simp
  have "(killed ?m)\<lparr>handed := handed ?m @ handed_over (disk ?m) 1\<rparr> =
      \<lparr>proc = new_process, disk = ex_due SIGNING, handed = [1]\<rparr>"
    by (simp add: killed_def ex_machine_def handed_over_def ex_due_payout)
  with runs_to_step [OF ex_machine_signing machine_step.dies_paying [of ?m ex_key 1 "[]"]]
  show "runs_to ex_crypto \<lparr>proc = new_process, disk = ex_due SIGNING, handed = [1]\<rparr>" by simp
qed

section \<open>Processes and the service\<close>

lemma watcher_steps_run:
  assumes "watcher_step\<^sup>*\<^sup>* (hs, disk m) (hs', d)" and "runs_to c m" and "watcher_task (proc m) = Some hs"
  shows "runs_to c (m\<lparr>proc := (proc m)\<lparr>watcher_task := Some hs'\<rparr>, disk := d\<rparr>)"
  using assms(1)
proof (induction "(hs', d)" arbitrary: hs' d rule: rtranclp_induct)
  case base
  with assms show ?case by (cases m; cases "proc m") simp
next
  case (step x hs' d)
  obtain hs1 d1 where x: "x = (hs1, d1)" by (cases x)
  let ?m = "m\<lparr>proc := (proc m)\<lparr>watcher_task := Some hs1\<rparr>, disk := d1\<rparr>"
  have "machine_step c ?m (?m\<lparr>proc := (proc ?m)\<lparr>watcher_task := Some hs'\<rparr>, disk := d\<rparr>)"
    using step.hyps(2) x by (intro machine_step.watches) simp_all
  with runs_to_step [OF step.hyps(3) [OF x]] show ?case by simp
qed

lemma runner_steps_run:
  assumes "(runner_step c key)\<^sup>*\<^sup>* (is, disk m, handed m) (is', d, sent)" and "runs_to c m"
    and "runner_task (proc m) = Some (key, is)"
  shows "runs_to c (m\<lparr>proc := (proc m)\<lparr>runner_task := Some (key, is')\<rparr>, disk := d, handed := sent\<rparr>)"
  using assms(1)
proof (induction "(is', d, sent)" arbitrary: is' d sent rule: rtranclp_induct)
  case base
  with assms show ?case by (cases m; cases "proc m") simp
next
  case (step x is' d sent)
  obtain is1 d1 sent1 where x: "x = (is1, d1, sent1)" by (cases x)
  let ?m = "m\<lparr>proc := (proc m)\<lparr>runner_task := Some (key, is1)\<rparr>, disk := d1, handed := sent1\<rparr>"
  have "machine_step c ?m (?m\<lparr>proc := (proc ?m)\<lparr>runner_task := Some (key, is')\<rparr>, disk := d, handed := sent\<rparr>)"
    using step.hyps(2) x by (intro machine_step.pays) simp_all
  with runs_to_step [OF step.hyps(3) [OF x]] show ?case by simp
qed

text \<open>
  Processes refine the service. Whatever processes start, serve, pay, shut down and die, the
  nonces and the database of the machine are a reachable state of the service, so every
  property of reachable states holds across restarts. And the machine is no coarser than the
  code: when the loop of the watcher, or of the runner, is between two rounds, a whole tick,
  whatever the node answers, is a run of the machine.
\<close>

theorem processes_refine_service:
  assumes "runs_to c m"
  shows "reachable (app_of m) \<and>
    (watcher_task (proc m) = Some [] \<longrightarrow>
      (\<forall>env t n. runs_to c (m\<lparr>disk := walk_db (snd (tick env t \<lparr>rpc_state = n, walk_db = disk m\<rparr>))\<rparr>))) \<and>
    (\<forall>key. runner_task (proc m) = Some (key, []) \<longrightarrow>
      (\<forall>env show_json exc_str t n. \<exists>sent. runs_to c (m\<lparr>handed := sent, disk :=
         fst (snd (runner_tick (sign_and_submit c env show_json key) exc_str t (disk m, n)))\<rparr>)))"
proof (intro conjI impI allI)
  show "reachable (app_of m)" using assms by (rule runs_to_reachable)
next
  fix env t n assume task: "watcher_task (proc m) = Some []"
  let ?x = "tick env t \<lparr>rpc_state = n, walk_db = disk m\<rparr>"
  have "?x = (fst ?x, snd ?x)" by simp
  from watcher_steps_run [OF tick_watcher_steps [OF this, simplified] assms task]
  show "runs_to c (m\<lparr>disk := walk_db (snd ?x)\<rparr>)" using task by (cases m; cases "proc m") simp
next
  fix key env show_json exc_str t n assume task: "runner_task (proc m) = Some (key, [])"
  let ?x = "runner_tick (sign_and_submit c env show_json key) exc_str t (disk m, n)"
  have "?x = (fst ?x, (fst (snd ?x), snd (snd ?x)))" by simp
  from runner_tick_runner_steps [OF this, of "handed m"] obtain sent
    where "(runner_step c key)\<^sup>*\<^sup>* ([], disk m, handed m) ([], fst (snd ?x), sent)" by blast
  from runner_steps_run [OF this assms task]
  show "\<exists>sent. runs_to c (m\<lparr>handed := sent, disk := fst (snd ?x)\<rparr>)"
    using task by (intro exI [of _ sent]) (cases m; cases "proc m", simp)
qed

lemma processes_refine_service_witness:
  "reachable \<lparr>nonces = Map.empty, database = ex_due SIGNING\<rparr>"
  using processes_refine_service [OF ex_machine_dead(1)] by (simp add: app_of_def new_process_def)

text \<open>
  C16. The service refuses to run without the key of the pool. In every state of the machine a
  process that serves requests has a payout runner, and whatever key the runner of a process
  signs with, its address is the pool's, and is the one that its public key hashes to.
\<close>

theorem only_the_pool_key_serves:
  assumes "runs_to c m"
  shows "(serving (proc m) \<longrightarrow> (\<exists>key todo. runner_task (proc m) = Some (key, todo))) \<and>
    (\<forall>key todo. runner_task (proc m) = Some (key, todo) \<longrightarrow>
       key_address key = pool_address \<and> derive_address c (public_key key) = Inr pool_address \<and>
       length (public_key key) = PK_SIZE \<and> length (secret_key key) = SK_SIZE)"
  using runs_to_keys_ok [OF assms] by (auto simp: keys_ok_def is_pool_key_def)

lemma only_the_pool_key_serves_witness:
  "derive_address ex_crypto (public_key ex_key) = Inr pool_address"
  using only_the_pool_key_serves [OF ex_machine_up] by simp

text \<open>
  C15. A payout is handed to the signer at most five times in the life of the database, crashes and
  restarts included. The number of times is the number of attempts recorded, or one more for a
  payout that is SIGNING: then the last outcome was not written.
\<close>

theorem handed_at_most_five_times:
  assumes "runs_to c m"
  shows "count_list (handed m) i \<le> 5 \<and>
    (case get_payout (disk m) i of None \<Rightarrow> count_list (handed m) i = 0
     | Some p \<Rightarrow> int (count_list (handed m) i) = attempts p \<or>
         payout_status p = SIGNING \<and> int (count_list (handed m) i) = attempts p + 1)"
proof (cases "get_payout (disk m) i")
  case None
  with handed_okD(1) [OF runs_to_handed_ok [OF assms], of i] have "i \<notin> set (handed m)" by blast
  then have "count_list (handed m) i = 0" by (simp add: count_list_0_iff)
  with None show ?thesis by simp
next
  case (Some p)
  have "attempts p \<le> 5" "payout_status p = SIGNING \<Longrightarrow> attempts p < 5"
    using runs_to_payout_ok [OF assms Some] by (auto simp: payout_ok_def MAX_ATTEMPTS_def)
  with handed_okD(3) [OF runs_to_handed_ok [OF assms] Some] Some show ?thesis by auto
qed

lemma handed_at_most_five_times_witness:
  "count_list (handed \<lparr>proc = new_process, disk = ex_due SIGNING, handed = [1]\<rparr>) 1 \<le> 5 \<and>
   attempts (ex_payout SIGNING) = 0 \<and> get_payout (ex_due SIGNING) 1 = Some (ex_payout SIGNING)"
proof -
  have "attempts (ex_payout SIGNING) = 0" by (simp add: ex_payout_def)
  with handed_at_most_five_times [OF ex_machine_dead(2), of 1] ex_due_payout(1) [of SIGNING] show ?thesis by blast
qed

text \<open>
  C17. A crash strands the payouts it interrupts. A payout that is SIGNING and not in the round of a
  live runner, as after a crash, or after an outcome that could not be written, stays as it is
  for ever, whatever is started later: it is never paid again, never marked FAILED, and, when
  its transfer had reached the node, never recorded as paid.
\<close>

theorem crash_strands_payouts:
  assumes "runs_to c m" and "get_payout (disk m) i = Some p" and "payout_status p = SIGNING"
    and "i \<notin> set (case runner_task (proc m) of None \<Rightarrow> [] | Some (key, is) \<Rightarrow> is)"
    and "(machine_step c)\<^sup>*\<^sup>* m m'"
  shows "get_payout (disk m') i = Some p \<and> count_list (handed m') i = count_list (handed m) i"
  using stranded_steps [OF assms(5,1,2,3,4)] by blast

lemma crash_strands_payouts_witness:
  "\<exists>m m'. runs_to ex_crypto m \<and> serving (proc m') \<and> handed m = [1] \<and> machine_step ex_crypto m m' \<and>
     get_payout (disk m') 1 = Some (ex_payout SIGNING) \<and> payout_tx_hash (ex_payout SIGNING) = None"
proof -
  let ?m = "\<lparr>proc = new_process, disk = ex_due SIGNING, handed = [1]\<rparr>"
  let ?m' = "?m\<lparr>proc := ex_process Map.empty [] []\<rparr>"
  have step: "machine_step ex_crypto ?m ?m'"
    by (rule machine_step.starts [where dec = ex_decryption and passphrase = "Some ''pass''"
        and keyfile = "Some ex_keyfile" and r = "Inr ()"])
      (simp_all add: ex_startup, simp_all add: new_process_def)
  have "payout_tx_hash (ex_payout SIGNING) = None" by (simp add: ex_payout_def)
  moreover have "get_payout (disk ?m') 1 = Some (ex_payout SIGNING)"
    using crash_strands_payouts [OF ex_machine_dead(2), of 1 "ex_payout SIGNING" ?m'] step
      ex_due_payout [of SIGNING] by (simp add: new_process_def r_into_rtranclp)
  ultimately show ?thesis using step ex_machine_dead(2) by (intro exI [of _ ?m] exI [of _ ?m']) simp
qed

section \<open>Replays after a restart\<close>

text \<open>
  C37. A restart forgets the nonces. A request to unstake that was accepted once is processed again,
  as if it were new, by a process with an empty cache, as every process has after its start, so
  long as the clock is within 300 seconds of its timestamp: whoever has seen the request can make
  the account lock the amount a second time.
\<close>

theorem request_replayed_after_restart:
  assumes "request_unstake_valid req" and "accepted c k ''UNSTAKE'' (req_amount req) req s"
    and "seen_nonces (proc m) = Map.empty"
    and "\<bar>trunc_int (clock1 k') - req_timestamp req\<bar> \<le> 300"
  shows "request_unstake c k' req (app_of m) =
    (case get_session (request_unstake_body (req_address req) (req_amount req)) (clock3 k') (disk m) of
       (r, d) \<Rightarrow> (r, \<lparr>nonces = [req_nonce req \<mapsto> of_int (trunc_int (clock1 k'))], database = d\<rparr>))"
proof -
  let ?verify = "\<lambda>k. verify_signed_request c (clock1 k) (clock2 k) ''UNSTAKE'' (req_address req) (req_amount req)
    (req_nonce req) (req_timestamp req) (req_signature req) (req_pubkey req)"
  obtain seen' where "?verify k (nonces s) = (Inr (), seen')"
    using assms(2) unfolding accepted_def by (cases "?verify k (nonces s)") auto
  moreover have "check_replay (clock1 k') (clock2 k') (req_nonce req) (req_timestamp req) Map.empty =
      (Inr (), [req_nonce req \<mapsto> of_int (trunc_int (clock1 k'))])"
    using assms(4) by (simp add: check_replay_accepts purge_old_nonces_def Let_def)
  ultimately have "?verify k' Map.empty = (Inr (), [req_nonce req \<mapsto> of_int (trunc_int (clock1 k'))])"
    by (rule verified_again)
  then show ?thesis
    using assms(1,3) by (simp add: request_unstake_def endpoint_def app_of_def)
qed

lemma request_replayed_after_restart_witness:
  "\<exists>m s. runs_to ex_crypto m \<and> unstake_requests (disk m) = [ex_unstake PENDING] \<and>
     answers ex_crypto (app_of m) s \<and>
     map (\<lambda>u. (request_address u, request_amount u)) (unstake_requests (database s)) = [(ex_addr, 100), (ex_addr, 100)]"
proof -
  let ?m = "killed (ex_machine ex_seen [] [] ex_requested)"
  have run: "runs_to ex_crypto ?m" by (rule runs_to_step [OF ex_machine_requested machine_step.dies])
  have valid: "request_unstake_valid ex_request"
    by (simp add: request_unstake_valid_def signed_fields_valid_def ex_request_def length_ex_addr length_hex)
  have acc: "accepted ex_crypto ex_readings ''UNSTAKE'' (req_amount ex_request) ex_request initial_app"
    by (simp add: accepted_def initial_app_def ex_readings_def ex_request_def ex_signature_accepted)
  have req: "req_address ex_request = ex_addr" "req_amount ex_request = 100" by (simp_all add: ex_request_def)
  let ?body = "request_unstake_body ex_addr 100" and ?st = "set_stake 100 1 (ex_staker 200)"
  let ?u = "new_request ex_addr 100 1 (1 + unstake_cooldown_blocks) 2"
  have pre: "get_staker ex_requested ex_addr = Some (ex_staker 200)" "100 \<le> staked_amount (ex_staker 200)"
    "watcher_ready ex_requested 1" "next_request_id ex_requested = 2"
    by (simp_all add: get_staker_def watcher_ready_def ex_states row_get_Cons) (simp add: ex_staker_def)
  have "staker_columns ?st" "request_columns ?u"
    using ex_columns(3)
    by (simp_all add: columns_defs set_stake_def ex_staker_def ex_tier_none new_request_def varchar_def
        big_integer_def sql_integer_def length_ex_addr unstake_cooldown_blocks_def)
  then obtain v where "get_session ?body 1000 ex_requested = (Inr v, lock_unstake ?st ?u ex_requested)"
    using request_unstake_body_run [of "begin_session 1000 ex_requested" ex_addr "ex_staker 200" 100 1]
      pre by (simp add: get_session_def committed_rolled_back_same)
  then have "request_unstake ex_crypto ex_readings ex_request (app_of ?m) =
      (Inr v, \<lparr>nonces = [''nonce-01'' \<mapsto> 1000], database = lock_unstake ?st ?u ex_requested\<rparr>)"
    using request_replayed_after_restart [OF valid acc, of ?m ex_readings]
    by (simp add: req new_process_def ex_readings_def trunc_int_def) (simp add: ex_request_def)
  then have "answers ex_crypto (app_of ?m)
      \<lparr>nonces = [''nonce-01'' \<mapsto> 1000], database = lock_unstake ?st ?u ex_requested\<rparr>" by (rule answers.unstake)
  moreover have "map (\<lambda>u. (request_address u, request_amount u)) (unstake_requests (lock_unstake ?st ?u ex_requested)) =
      [(ex_addr, 100), (ex_addr, 100)]"
    by (simp add: lock_unstake_def row_insert_def ex_states) (simp add: ex_unstake_def new_request_def)
  moreover have "unstake_requests (disk ?m) = [ex_unstake PENDING]" by (simp add: ex_states)
  ultimately show ?thesis using run by (intro exI [of _ ?m] exI) auto
qed

end
