(* ===== verification/Retries.thy ===== *)
theory Retries
  imports Lifetimes
begin

text \<open>
  What a retry of a payout is to the chain. The signer cannot tell a transfer that the node refused
  from one whose answer was lost; the runner tries again in both cases, with a transaction of its
  own nonce and time.
\<close>

text \<open>The transaction and the signature that \<open>sign_and_submit\<close> posts, if it gets so far.\<close>

definition posted :: "crypto \<Rightarrow> env \<Rightarrow> PoolKey \<Rightarrow> PendingPayout \<Rightarrow> rpc \<Rightarrow> (tx \<times> bytes \<times> rpc) option" where
  "posted c env key p w =
     (case next_nonce env key w of
        (Inl e, w1) \<Rightarrow> None
      | (Inr nonce, w1) \<Rightarrow>
          let t = payout_tx key p nonce (trunc_int (wall_clock env (requests w1)))
          in case serialize_canonical t of
               Inl e \<Rightarrow> None
             | Inr canon \<Rightarrow>
                 (case pool_key_sign c key (digest (sha3_256 c canon)) of
                    Inl e \<Rightarrow> None
                  | Inr sig \<Rightarrow> Some (t, sig, w1)))"

lemma posted_tx:
  assumes "posted c env key p w = Some (t, sig, w1)"
  obtains nonce canon where "t = payout_tx key p nonce (trunc_int (wall_clock env (requests w1)))"
    "next_nonce env key w = (Inr nonce, w1)" "serialize_canonical t = Inr canon"
    "pool_key_sign c key (digest (sha3_256 c canon)) = Inr sig"
  using assms that by (auto simp: posted_def Let_def split: prod.splits sum.splits)

lemma sign_and_submit_posted:
  assumes "posted c env key p w = Some (t, sig, w1)"
    and "submit_tx env (submit_payload key t sig) w1 = (Inl e, w2)"
  shows "sign_and_submit c env show_json key p w = (Inl e, w2)"
  using assms by (elim posted_tx) (simp add: sign_and_submit_def bind_def gets_exec lift_exec Let_def)

lemma sign_and_submit_not_posted:
  "posted c env key p w = None \<Longrightarrow> \<exists>e w1. sign_and_submit c env show_json key p w = (Inl e, w1)"
  by (auto simp: posted_def sign_and_submit_def bind_def gets_exec lift_exec Let_def
      split: prod.splits sum.splits)

lemma payout_outcome_requeued:
  assumes "attempts p + 1 < MAX_ATTEMPTS"
  shows "claimable (payout_outcome exc_str (Inl e) p)"
  using assms by (cases e) (simp_all add: payout_outcome_def claimable_def)

lemma payout_outcome_columns:
  assumes "payout_columns p" and "attempts p < 4"
  shows "payout_columns (payout_outcome exc_str (Inl e) p) \<longleftrightarrow>
    nullable sql_text (error_message (payout_outcome exc_str (Inl e) p))"
  using assms by (cases e) (auto simp: payout_outcome_def payout_columns_def varchar_def sql_integer_def)

lemma payout_tx_fields [simp]:
  "tx_to (payout_tx key p n now) = recipient p" "tx_amount (payout_tx key p n now) = payout_amount p"
  "tx_from (payout_tx key p n now) = key_address key" "tx_nonce (payout_tx key p n now) = n"
  by (simp_all add: payout_tx_def)

text \<open>
  C25. A retry is a further payment. When the node's answer to a submission does not arrive, the runner
  writes the error and puts the payout back to be claimed again, with less than five attempts,
  although the transfer may be on the chain; only when PostgreSQL refuses the text of the error, for
  a code point 0 in it, nothing is written. Whatever the runner posts for the payout after that
  pays the same amount to the same recipient again; and when the node reports another nonce by
  then, as it does when it has taken the first transfer, the bytes that are hashed and signed
  differ, so nothing tells the node that it is the same payment.
\<close>

theorem retry_is_a_further_payment:
  assumes "get_payout d i = Some p" and "payout_status p = SIGNING" and "attempts p < 4" and "payout_columns p"
    and "posted c env key p w = Some (t, sig, w1)"
    and "submit_tx env (submit_payload key t sig) w1 = (Inl e, w2)"
  shows "let q = payout_outcome exc_str (Inl e) p in
    process_one (sign_and_submit c env show_json key) exc_str now i (d, w) =
      (if nullable sql_text (error_message q) then (Inr (), put_payout q d, w2) else (Inl DataError, d, w2)) \<and>
    claimable q \<and>
    (\<forall>env' w' t' sig' w''. posted c env' key (q\<lparr>payout_status := SIGNING\<rparr>) w' = Some (t', sig', w'') \<longrightarrow>
       tx_from t' = tx_from t \<and> tx_to t' = tx_to t \<and> tx_amount t' = tx_amount t \<and>
       (fst (next_nonce env' key w') \<noteq> fst (next_nonce env key w) \<longrightarrow>
          serialize_canonical t' \<noteq> serialize_canonical t))"
proof -
  let ?q = "payout_outcome exc_str (Inl e) p"
  have "process_one (sign_and_submit c env show_json key) exc_str now i (d, w) =
      (if nullable sql_text (error_message ?q) then (Inr (), put_payout ?q d, w2) else (Inl DataError, d, w2))"
    using assms(1,2) payout_outcome_columns [OF assms(4,3), of exc_str e] sign_and_submit_posted [OF assms(5,6)]
    by (simp add: process_one_def session_scope_def bind_def write_payout_run commit_run return_exec
        rolled_back_def keep_sequences_def)
  moreover have "claimable ?q" using assms(3) by (intro payout_outcome_requeued) (simp add: MAX_ATTEMPTS_def)
  moreover have "tx_from t' = tx_from t \<and> tx_to t' = tx_to t \<and> tx_amount t' = tx_amount t \<and>
      (fst (next_nonce env' key w') \<noteq> fst (next_nonce env key w) \<longrightarrow>
         serialize_canonical t' \<noteq> serialize_canonical t)"
    if again: "posted c env' key (?q\<lparr>payout_status := SIGNING\<rparr>) w' = Some (t', sig', w'')" for env' w' t' sig' w''
  proof -
    from assms(5) obtain n canon where t: "t = payout_tx key p n (trunc_int (wall_clock env (requests w1)))"
      "next_nonce env key w = (Inr n, w1)" "serialize_canonical t = Inr canon" by (rule posted_tx)
    from again obtain n' canon' where t': "t' = payout_tx key (?q\<lparr>payout_status := SIGNING\<rparr>) n'
        (trunc_int (wall_clock env' (requests w'')))"
      "next_nonce env' key w' = (Inr n', w'')" "serialize_canonical t' = Inr canon'" by (rule posted_tx)
    have fields: "tx_nonce t = n" "tx_nonce t' = n'" using t(1) t'(1) by simp_all
    have "serialize_canonical t' \<noteq> serialize_canonical t" if "n' \<noteq> n"
    proof
      assume "serialize_canonical t' = serialize_canonical t"
      with t(3) t'(3) have "t' = t" by (intro canonical_bytes_determine [of _ canon]) simp_all
      with fields that show False by simp
    qed
    with t t' show ?thesis by simp
  qed
  ultimately show ?thesis unfolding Let_def by blast
qed

text \<open>A node that takes the first transfer and does not answer: five posts time out, the nonce moves on.\<close>

definition ex_silent :: env where
  "ex_silent = \<lparr>answer = (\<lambda>k req. case req of
     GET path \<Rightarrow> Response 200 (Some (JObj [(''nonce'', JInt (if k = 0 then 4 else 5))]))
   | POST path body \<Rightarrow> TransportError ''read timeout''), wall_clock = (\<lambda>_. 2020)\<rparr>"

lemma ex_silent_nonce:
  "next_nonce ex_silent ex_key \<lparr>requests = k, slept = x\<rparr> =
     (Inr (if k = 0 then 5 else 6), \<lparr>requests = Suc k, slept = x + 1 / 20\<rparr>)"
  by (simp add: next_nonce_def rpc_get_def eval_nat_numeral retry_loop_step ex_silent_def throttled_def
      is_success_def Let_def bind_def lift_exec return_exec)

lemma ex_silent_submit: "\<exists>m w'. submit_tx ex_silent payload w = (Inl (ChainRPCError m), w')"
  by (cases w) (simp add: submit_tx_def eval_nat_numeral retry_loop_step ex_silent_def Let_def raise_exec)

lemma ex_silent_posted:
  assumes "recipient p = ex_addr" "payout_amount p = 100" "payout_kind p = ''UNSTAKE_REFUND''" "payout_id p = 1"
  shows "\<exists>sig w'. posted ex_crypto ex_silent ex_key p \<lparr>requests = k, slept = x\<rparr> =
    Some (payout_tx ex_key p (if k = 0 then 5 else 6) 2020, sig, w')"
proof -
  have "int_str 1 = ''1''" by code_simp
  moreover have "length (utf8_encode s) < 2 ^ 64" if "length s < 100" for s
    using that length_utf8_encode [of s] by simp
  ultimately have "\<exists>bs. serialize_canonical (payout_tx ex_key p n 2020) = Inr bs" if "n \<in> {5, 6}" for n
    using assms that
    by (intro serialize_canonical_total)
      (auto simp: payout_tx_def ex_key_def TX_TYPE_TRANSFER_def PAYOUT_FEE_BASE_UNITS_def
        ex_addr_chars pool_address_def payout_memo_def)
  then obtain bs where "serialize_canonical (payout_tx ex_key p (if k = 0 then 5 else 6) 2020) = Inr bs"
    by (metis insertCI)
  moreover have "pool_key_sign ex_crypto ex_key m = Inr (replicate 3309 0)" for m
    by (simp add: pool_key_sign_def sign_def npc_dil3_sign_def ex_key_def ex_crypto_def dilithium_sizes)
  moreover have "trunc_int (wall_clock ex_silent j) = 2020" for j by (simp add: ex_silent_def trunc_int_def)
  ultimately show ?thesis by (simp add: posted_def ex_silent_nonce Let_def)
qed

lemma retry_is_a_further_payment_witness:
  "\<exists>q t t' sig sig' w1 w2 w3. process_one (sign_and_submit ex_crypto ex_silent (\<lambda>_. []) ex_key) (\<lambda>_. []) 2020 1
       (ex_claimed, \<lparr>requests = 0, slept = 0\<rparr>) = (Inr (), put_payout q ex_claimed, w2) \<and>
     posted ex_crypto ex_silent ex_key (ex_payout SIGNING) \<lparr>requests = 0, slept = 0\<rparr> = Some (t, sig, w1) \<and>
     posted ex_crypto ex_silent ex_key (q\<lparr>payout_status := SIGNING\<rparr>) \<lparr>requests = 6, slept = 0\<rparr> = Some (t', sig', w3) \<and>
     tx_to t' = tx_to t \<and> tx_amount t' = tx_amount t \<and> serialize_canonical t' \<noteq> serialize_canonical t"
proof -
  let ?p = "ex_payout SIGNING" and ?w = "\<lparr>requests = 0 :: nat, slept = 0 :: rat\<rparr>"
    and ?w' = "\<lparr>requests = 6 :: nat, slept = 0 :: rat\<rparr>"
  have p: "get_payout ex_claimed 1 = Some ?p" "payout_status ?p = SIGNING" "attempts ?p < 4" "payout_columns ?p"
    using ex_columns(6) by (simp_all add: get_payout_def ex_claimed_def row_get_Cons) (simp_all add: ex_payout_def)
  have fields: "recipient ?p = ex_addr" "payout_amount ?p = 100" "payout_kind ?p = ''UNSTAKE_REFUND''" "payout_id ?p = 1"
    by (simp_all add: ex_payout_def)
  obtain sig w1 where first: "posted ex_crypto ex_silent ex_key ?p ?w = Some (payout_tx ex_key ?p 5 2020, sig, w1)"
    using ex_silent_posted [OF fields, of 0 0] by auto
  obtain m w2 where lost: "submit_tx ex_silent (submit_payload ex_key (payout_tx ex_key ?p 5 2020) sig) w1 = (Inl (ChainRPCError m), w2)"
    using ex_silent_submit by blast
  let ?q = "payout_outcome (\<lambda>_. []) (Inl (ChainRPCError m)) ?p"
  obtain sig' w3 where second: "posted ex_crypto ex_silent ex_key (?q\<lparr>payout_status := SIGNING\<rparr>) ?w' =
      Some (payout_tx ex_key (?q\<lparr>payout_status := SIGNING\<rparr>) 6 2020, sig', w3)"
    using ex_silent_posted [of "?q\<lparr>payout_status := SIGNING\<rparr>" 6 0] fields by auto
  have "fst (next_nonce ex_silent ex_key ?w') \<noteq> fst (next_nonce ex_silent ex_key ?w)"
    by (simp add: ex_silent_nonce)
  have msg: "nullable sql_text (error_message ?q)" by (simp add: payout_outcome_def)
  show ?thesis
    using retry_is_a_further_payment [OF p first lost, where show_json = "\<lambda>_. []" and exc_str = "\<lambda>_. []" and now = 2020]
      first second \<open>fst (next_nonce ex_silent ex_key ?w') \<noteq> fst (next_nonce ex_silent ex_key ?w)\<close>
    unfolding Let_def if_P [OF msg] by blast
qed

end
