(* ===== verification/ReadApi.thy ===== *)
theory ReadApi
  imports Models Migrations PyFloat "HOL-Library.Multiset"
begin

text \<open>
  \<open>src/api/stake.py\<close> and \<open>src/api/validators.py\<close>: the read-only endpoints, each a function of
  the database. An address is a parameter of a query, and PostgreSQL refuses the query when the
  parameter has the code point 0. Rows that \<open>ORDER BY\<close> leaves tied come in insertion order. The sums of
  \<open>/rewards-pool/stats\<close> are exact decimals in the program (the database adds \<open>bigint\<close>s in
  \<open>numeric\<close>), so their display form divides exactly.
\<close>

definition decimal_npc :: "int \<Rightarrow> string" where
  "decimal_npc base_units = format_4f (of_int base_units / 100000000)"

section \<open>GET /stake/{address}\<close>

record pending_view =
  pv_id :: int
  pv_amount :: int
  pv_amount_npc :: string
  pv_request_height :: int
  pv_unlock_height :: int
  pv_status :: unstake_status

record stake_view =
  sv_address :: string
  sv_input_address :: string
  sv_staked_amount :: int
  sv_staked_amount_npc :: string
  sv_tier :: string
  sv_first_stake_height :: "int option"
  sv_last_activity_height :: "int option"
  sv_pending_unstakes :: "pending_view list"

definition pending_query :: "db \<Rightarrow> string \<Rightarrow> UnstakeRequest list" where
  "pending_query d a =
     sort_key unlock_height
       (filter (\<lambda>u. request_address u = a \<and> request_status u \<in> {PENDING, READY}) (unstake_requests d))"

definition view_request :: "UnstakeRequest \<Rightarrow> pending_view" where
  "view_request u = \<lparr>pv_id = request_id u, pv_amount = request_amount u,
     pv_amount_npc = to_npc (request_amount u), pv_request_height = request_height u,
     pv_unlock_height = unlock_height u, pv_status = request_status u\<rparr>"

definition get_stake :: "db \<Rightarrow> string \<Rightarrow> stake_view res" where
  "get_stake d address =
     (let canonical = canonicalize address
      in if \<not> sql_text canonical then Inl DataError
         else case get_staker d canonical of
           None \<Rightarrow> Inr \<lparr>sv_address = canonical, sv_input_address = address, sv_staked_amount = 0,
             sv_staked_amount_npc = ''0.0000'', sv_tier = ''None'', sv_first_stake_height = None,
             sv_last_activity_height = None, sv_pending_unstakes = []\<rparr>
         | Some st \<Rightarrow> Inr \<lparr>sv_address = canonical, sv_input_address = address,
             sv_staked_amount = staked_amount st, sv_staked_amount_npc = to_npc (staked_amount st),
             sv_tier = tier st, sv_first_stake_height = first_stake_height st,
             sv_last_activity_height = last_activity_height st,
             sv_pending_unstakes = map view_request (pending_query d canonical)\<rparr>)"

section \<open>GET /pending-rewards/{address}\<close>

record rewards_view =
  rv_address :: string
  rv_input_address :: string
  rv_pending_rewards :: int
  rv_pending_rewards_npc :: string
  rv_total_claimed :: int
  rv_total_claimed_npc :: string
  rv_last_credited_height :: "int option"
  rv_last_claimed_height :: "int option"

definition get_pending_rewards :: "db \<Rightarrow> string \<Rightarrow> rewards_view res" where
  "get_pending_rewards d address =
     (let canonical = canonicalize address
      in if \<not> sql_text canonical then Inl DataError
         else case get_reward d canonical of
           None \<Rightarrow> Inr \<lparr>rv_address = canonical, rv_input_address = address, rv_pending_rewards = 0,
             rv_pending_rewards_npc = ''0.0000'', rv_total_claimed = 0,
             rv_total_claimed_npc = ''0.0000'', rv_last_credited_height = None,
             rv_last_claimed_height = None\<rparr>
         | Some r \<Rightarrow> Inr \<lparr>rv_address = canonical, rv_input_address = address,
             rv_pending_rewards = pending_rewards r,
             rv_pending_rewards_npc = to_npc (pending_rewards r),
             rv_total_claimed = total_claimed r, rv_total_claimed_npc = to_npc (total_claimed r),
             rv_last_credited_height = last_credited_height r,
             rv_last_claimed_height = last_claimed_height r\<rparr>)"

section \<open>GET /rewards-pool/stats\<close>

record pool_stats =
  ps_blocks_processed :: int
  ps_total_inflow :: int
  ps_total_inflow_npc :: string
  ps_total_dust :: int
  ps_total_dust_npc :: string
  ps_total_pending :: int
  ps_total_pending_npc :: string
  ps_total_claimed_lifetime :: int
  ps_total_claimed_lifetime_npc :: string
  ps_validators_with_rewards :: int

definition get_rewards_pool_stats :: "db \<Rightarrow> pool_stats" where
  "get_rewards_pool_stats d =
     (let total_in = sum_list (map inflow_amount (reward_pool_inflows d));
          total_dust = sum_list (map dust_remaining (reward_pool_inflows d));
          total_pending = sum_list (map pending_rewards (validator_rewards d));
          claimed = sum_list (map total_claimed (validator_rewards d))
      in \<lparr>ps_blocks_processed = int (length (reward_pool_inflows d)),
          ps_total_inflow = total_in, ps_total_inflow_npc = decimal_npc total_in,
          ps_total_dust = total_dust, ps_total_dust_npc = decimal_npc total_dust,
          ps_total_pending = total_pending, ps_total_pending_npc = decimal_npc total_pending,
          ps_total_claimed_lifetime = claimed, ps_total_claimed_lifetime_npc = decimal_npc claimed,
          ps_validators_with_rewards = int (length (validator_rewards d))\<rparr>)"

section \<open>GET /leaderboard and GET /validators\<close>

record leader_view =
  lv_rank :: int
  lv_address :: string
  lv_staked_amount :: int
  lv_staked_amount_npc :: string
  lv_tier :: string

definition ranked_stakers :: "db \<Rightarrow> Staker list" where
  "ranked_stakers d =
     sort_key (\<lambda>st. - staked_amount st) (filter (\<lambda>st. 0 < staked_amount st) (stakers d))"

definition leaderboard_limit :: "int \<Rightarrow> unit res" where
  "leaderboard_limit limit =
     (if limit < 1 \<or> 500 < limit then Inl (HTTPException 400 ''limit must be 1-500'') else Inr ())"

definition leaderboard :: "db \<Rightarrow> int \<Rightarrow> (int \<times> leader_view list) res" where
  "leaderboard d limit =
     rbind (leaderboard_limit limit) (\<lambda>_.
        let sts = take (nat limit) (ranked_stakers d)
        in Inr (int (length sts),
             map (\<lambda>(i, st). \<lparr>lv_rank = int i + 1, lv_address = staker_address st,
                lv_staked_amount = staked_amount st,
                lv_staked_amount_npc = to_npc (staked_amount st), lv_tier = tier st\<rparr>)
               (enumerate 0 sts)))"

record validator_view =
  vv_address :: string
  vv_tier :: string
  vv_staked_amount :: int
  vv_staked_amount_npc :: string

definition list_validators :: "db \<Rightarrow> int \<times> validator_view list" where
  "list_validators d =
     (let sts = ranked_stakers d
      in (int (length sts),
          map (\<lambda>st. \<lparr>vv_address = staker_address st, vv_tier = tier st,
             vv_staked_amount = staked_amount st,
             vv_staked_amount_npc = to_npc (staked_amount st)\<rparr>) sts))"

section \<open>GET /health\<close>

record health_view =
  hv_status :: string
  hv_snapshot_complete :: bool
  hv_snapshot_started_at :: "time option"
  hv_snapshot_finished_at :: "time option"
  hv_last_processed_height :: int

definition health :: "db \<Rightarrow> health_view" where
  "health d =
     (case watcher d of
        None \<Rightarrow> \<lparr>hv_status = ''uninitialized'', hv_snapshot_complete = False,
          hv_snapshot_started_at = None, hv_snapshot_finished_at = None,
          hv_last_processed_height = 0\<rparr>
      | Some w \<Rightarrow> \<lparr>hv_status = (if snapshot_complete w then ''ok'' else ''snapshotting''),
          hv_snapshot_complete = snapshot_complete w,
          hv_snapshot_started_at = snapshot_started_at w,
          hv_snapshot_finished_at = snapshot_finished_at w,
          hv_last_processed_height = last_processed_height w\<rparr>)"

section \<open>Facts\<close>

lemma set_ranked: "set (ranked_stakers d) = {st \<in> set (stakers d). 0 < staked_amount st}"
  by (auto simp: ranked_stakers_def)

lemma ranked_descending:
  "sorted_wrt (\<lambda>a b. staked_amount b \<le> staked_amount a) (ranked_stakers d)"
proof -
  have "sorted (map (\<lambda>st. - staked_amount st) (ranked_stakers d))"
    by (simp add: ranked_stakers_def)
  then show ?thesis by (simp add: sorted_map sorted_wrt_iff_nth_less)
qed

text \<open>
  The validator list is exactly the stakers with a positive stake, largest first, and
  the leaderboard is its prefix: what it leaves out has no larger stake than what it shows.
\<close>

theorem leaderboard_is_top:
  assumes "1 \<le> limit" and "limit \<le> 500"
  shows "\<exists>sts rest views. ranked_stakers d = sts @ rest \<and>
    mset (sts @ rest) = filter_mset (\<lambda>st. 0 < staked_amount st) (mset (stakers d)) \<and>
    (\<forall>a \<in> set sts. \<forall>b \<in> set rest. staked_amount b \<le> staked_amount a) \<and>
    leaderboard d limit = Inr (int (length sts), views) \<and>
    map lv_address views = map staker_address sts \<and>
    map lv_rank views = map int [1..<Suc (length sts)] \<and>
    length sts = min (nat limit) (length (filter (\<lambda>st. 0 < staked_amount st) (stakers d)))"
proof -
  let ?sts = "take (nat limit) (ranked_stakers d)" and ?rest = "drop (nat limit) (ranked_stakers d)"
  let ?view = "\<lambda>(i, st). \<lparr>lv_rank = int i + 1, lv_address = staker_address st,
     lv_staked_amount = staked_amount st, lv_staked_amount_npc = to_npc (staked_amount st),
     lv_tier = tier st\<rparr>"
  have app: "ranked_stakers d = ?sts @ ?rest" by simp
  have "sorted_wrt (\<lambda>a b. staked_amount b \<le> staked_amount a) (?sts @ ?rest)"
    using ranked_descending [of d] by simp
  then have "\<forall>a \<in> set ?sts. \<forall>b \<in> set ?rest. staked_amount b \<le> staked_amount a"
    unfolding sorted_wrt_append by blast
  moreover have "leaderboard d limit = Inr (int (length ?sts), map ?view (enumerate 0 ?sts))"
    using assms by (simp add: leaderboard_def leaderboard_limit_def Let_def)
  moreover have "mset (?sts @ ?rest) = filter_mset (\<lambda>st. 0 < staked_amount st) (mset (stakers d))"
    by (simp add: ranked_stakers_def)
  moreover have "map lv_address (map ?view (enumerate 0 ?sts)) = map staker_address ?sts"
    by (simp add: case_prod_unfold comp_def flip: map_map [of staker_address snd, unfolded comp_def])
  moreover have "map lv_rank (map ?view (enumerate 0 ?sts)) = map int [1..<Suc (length ?sts)]"
    by (rule nth_equalityI) (simp_all add: case_prod_unfold nth_enumerate_eq del: upt_Suc)
  moreover have "length ?sts = min (nat limit) (length (filter (\<lambda>st. 0 < staked_amount st) (stakers d)))"
    by (simp add: ranked_stakers_def)
  ultimately show ?thesis using app by blast
qed

lemma leaderboard_is_top_witness:
  "\<exists>views. leaderboard
       (empty_db\<lparr>stakers := [\<lparr>staker_address = ''NPCa'', staked_amount = 5, tier = ''None'',
            first_stake_height = None, last_activity_height = None\<rparr>,
          \<lparr>staker_address = ''NPCb'', staked_amount = 7, tier = ''None'',
            first_stake_height = None, last_activity_height = None\<rparr>]\<rparr>) 1 = Inr (1, views) \<and>
     map lv_rank views = [1]"
proof -
  let ?d = "empty_db\<lparr>stakers := [\<lparr>staker_address = ''NPCa'', staked_amount = 5, tier = ''None'',
        first_stake_height = None, last_activity_height = None\<rparr>,
      \<lparr>staker_address = ''NPCb'', staked_amount = 7, tier = ''None'',
        first_stake_height = None, last_activity_height = None\<rparr>]\<rparr>"
  from leaderboard_is_top [of 1 ?d, OF order_refl one_le_numeral]
  obtain sts :: "Staker list" and views where
    "leaderboard ?d 1 = Inr (int (length sts), views)" "map lv_rank views = map int [1..<Suc (length sts)]"
    "length sts = min (nat 1) (length (filter (\<lambda>st. 0 < staked_amount st) (stakers ?d)))"
    by blast
  then show ?thesis by simp
qed

end
