(* ===== verification/App.thy ===== *)
theory App
  imports Endpoints ReadApi Process
begin

text \<open>
  The HTTP application of \<open>src/main.py\<close>: the routes of its routers, one request to each of them,
  and the status and body it is answered with. Matching a path against the routes, reading the
  parameters and the body, and turning an exception into an answer are the framework's, as it
  documents them: an \<open>HTTPException\<close> becomes its status, any other exception 500.
\<close>

section \<open>Routes\<close>

definition prefixed :: "string \<Rightarrow> (string \<times> string) list \<Rightarrow> (string \<times> string) list" where
  "prefixed prefix = map (\<lambda>(meth, path). (meth, prefix @ path))"

definition stake_router :: "(string \<times> string) list" where
  "stake_router = prefixed ''/api/v1''
     [(''GET'', ''/stake/{address}''), (''GET'', ''/pending-rewards/{address}''),
      (''GET'', ''/rewards-pool/stats''), (''GET'', ''/leaderboard''), (''GET'', ''/health'')]"

definition validators_router :: "(string \<times> string) list" where
  "validators_router = prefixed ''/api/v1'' [(''GET'', ''/validators'')]"

definition write_router :: "(string \<times> string) list" where
  "write_router = prefixed ''/api/v1/stake''
     [(''POST'', ''/request-unstake''), (''POST'', ''/cancel-unstake''), (''POST'', ''/claim-rewards'')]"

definition app_routes :: "(string \<times> string) list" where
  "app_routes = stake_router @ validators_router @ write_router @ [(''GET'', ''/'')]"

text \<open>A path matches a template when it has the same segments, one that is not empty for each parameter.\<close>

fun segments :: "string \<Rightarrow> string list" where
  "segments [] = [[]]"
| "segments (ch # cs) =
     (if ch = CHR ''/'' then [] # segments cs
      else case segments cs of [] \<Rightarrow> [[ch]] | seg # segs \<Rightarrow> (ch # seg) # segs)"

definition segment_matches :: "string \<Rightarrow> string \<Rightarrow> bool" where
  "segment_matches t seg \<longleftrightarrow> (if t \<noteq> [] \<and> hd t = CHR ''{'' then seg \<noteq> [] else seg = t)"

definition route_matches :: "string \<times> string \<Rightarrow> string \<times> string \<Rightarrow> bool" where
  "route_matches route req \<longleftrightarrow> fst route = fst req \<and>
     list_all2 segment_matches (segments (snd route)) (segments (snd req))"

text \<open>Some pair of segments that cannot both match.\<close>

definition segments_apart :: "string list \<Rightarrow> string list \<Rightarrow> bool" where
  "segments_apart ts us \<longleftrightarrow> length ts \<noteq> length us \<or>
     list_ex (\<lambda>(t, u). \<not> (t \<noteq> [] \<and> hd t = CHR ''{'') \<and> \<not> (u \<noteq> [] \<and> hd u = CHR ''{'') \<and> t \<noteq> u) (zip ts us)"

lemma segments_apart_sound:
  assumes "segments_apart ts us" and "list_all2 segment_matches ts xs"
  shows "\<not> list_all2 segment_matches us xs"
proof
  assume us: "list_all2 segment_matches us xs"
  have len: "length ts = length xs" "length us = length xs"
    using assms(2) us by (simp_all add: list_all2_lengthD)
  with assms(1) obtain t u where tu: "(t, u) \<in> set (zip ts us)" "\<not> (t \<noteq> [] \<and> hd t = CHR ''{'')"
    "\<not> (u \<noteq> [] \<and> hd u = CHR ''{'')" "t \<noteq> u"
    by (auto simp: segments_apart_def list_ex_iff)
  then obtain i where i: "i < length xs" "t = ts ! i" "u = us ! i"
    using len by (auto simp: set_zip)
  have "segment_matches t (xs ! i)" "segment_matches u (xs ! i)"
    using assms(2) us i by (simp_all add: list_all2_conv_all_nth)
  with tu(2-4) show False by (simp only: segment_matches_def if_False) 
qed

text \<open>No path is claimed by two routes, so the order in which the routers are mounted does not matter.\<close>

lemma routes_do_not_overlap:
  assumes "r \<in> set app_routes" "r' \<in> set app_routes" "route_matches r req" "route_matches r' req"
  shows "r = r'"
proof -
  have "list_all (\<lambda>r. list_all (\<lambda>r'. r = r' \<or> fst r \<noteq> fst r' \<or> segments_apart (segments (snd r)) (segments (snd r')))
      app_routes) app_routes" by code_simp
  with assms(1,2) have "r = r' \<or> fst r \<noteq> fst r' \<or> segments_apart (segments (snd r)) (segments (snd r'))"
    by (auto simp: list_all_iff)
  with assms(3,4) segments_apart_sound show ?thesis by (auto simp: route_matches_def)
qed

section \<open>Answers\<close>

definition json_opt :: "int option \<Rightarrow> json" where
  "json_opt x = (case x of None \<Rightarrow> JNull | Some n \<Rightarrow> JInt n)"

definition json_pending :: "pending_view \<Rightarrow> json" where
  "json_pending v = JObj [(''id'', JInt (pv_id v)), (''amount'', JInt (pv_amount v)),
     (''amount_npc'', JStr (pv_amount_npc v)), (''request_height'', JInt (pv_request_height v)),
     (''unlock_height'', JInt (pv_unlock_height v)), (''status'', JStr (status_name (pv_status v)))]"

definition json_stake :: "stake_view \<Rightarrow> json" where
  "json_stake v = JObj [(''address'', JStr (sv_address v)), (''input_address'', JStr (sv_input_address v)),
     (''staked_amount'', JInt (sv_staked_amount v)), (''staked_amount_npc'', JStr (sv_staked_amount_npc v)),
     (''tier'', JStr (sv_tier v)), (''first_stake_height'', json_opt (sv_first_stake_height v)),
     (''last_activity_height'', json_opt (sv_last_activity_height v)),
     (''pending_unstakes'', JArr (map json_pending (sv_pending_unstakes v)))]"

definition json_rewards :: "rewards_view \<Rightarrow> json" where
  "json_rewards v = JObj [(''address'', JStr (rv_address v)), (''input_address'', JStr (rv_input_address v)),
     (''pending_rewards'', JInt (rv_pending_rewards v)), (''pending_rewards_npc'', JStr (rv_pending_rewards_npc v)),
     (''total_claimed'', JInt (rv_total_claimed v)), (''total_claimed_npc'', JStr (rv_total_claimed_npc v)),
     (''last_credited_height'', json_opt (rv_last_credited_height v)),
     (''last_claimed_height'', json_opt (rv_last_claimed_height v))]"

definition json_stats :: "pool_stats \<Rightarrow> json" where
  "json_stats v = JObj [(''blocks_processed'', JInt (ps_blocks_processed v)),
     (''total_inflow'', JInt (ps_total_inflow v)), (''total_inflow_npc'', JStr (ps_total_inflow_npc v)),
     (''total_dust'', JInt (ps_total_dust v)), (''total_dust_npc'', JStr (ps_total_dust_npc v)),
     (''total_pending'', JInt (ps_total_pending v)), (''total_pending_npc'', JStr (ps_total_pending_npc v)),
     (''total_claimed_lifetime'', JInt (ps_total_claimed_lifetime v)),
     (''total_claimed_lifetime_npc'', JStr (ps_total_claimed_lifetime_npc v)),
     (''validators_with_rewards'', JInt (ps_validators_with_rewards v))]"

definition json_leaders :: "int \<times> leader_view list \<Rightarrow> json" where
  "json_leaders = (\<lambda>(n, vs). JObj [(''count'', JInt n), (''stakers'', JArr (map (\<lambda>v. JObj
     [(''rank'', JInt (lv_rank v)), (''address'', JStr (lv_address v)),
      (''staked_amount'', JInt (lv_staked_amount v)), (''staked_amount_npc'', JStr (lv_staked_amount_npc v)),
      (''tier'', JStr (lv_tier v))]) vs))])"

definition json_validators :: "int \<times> validator_view list \<Rightarrow> json" where
  "json_validators = (\<lambda>(n, vs). JObj [(''count'', JInt n), (''validators'', JArr (map (\<lambda>v. JObj
     [(''address'', JStr (vv_address v)), (''tier'', JStr (vv_tier v)),
      (''staked_amount'', JInt (vv_staked_amount v)),
      (''staked_amount_npc'', JStr (vv_staked_amount_npc v))]) vs))])"

text \<open>\<open>isoformat\<close> of a time is an argument. Before the snapshot has begun the answer has no times.\<close>

definition json_time :: "(time \<Rightarrow> string) \<Rightarrow> time option \<Rightarrow> json" where
  "json_time isoformat x = (case x of None \<Rightarrow> JNull | Some t \<Rightarrow> JStr (isoformat t))"

definition json_health :: "(time \<Rightarrow> string) \<Rightarrow> health_view \<Rightarrow> json" where
  "json_health isoformat v =
     (if hv_status v = ''uninitialized'' then
        JObj [(''status'', JStr (hv_status v)), (''snapshot_complete'', JBool (hv_snapshot_complete v)),
          (''last_processed_height'', JInt (hv_last_processed_height v))]
      else
        JObj [(''status'', JStr (hv_status v)), (''snapshot_complete'', JBool (hv_snapshot_complete v)),
          (''snapshot_started_at'', json_time isoformat (hv_snapshot_started_at v)),
          (''snapshot_finished_at'', json_time isoformat (hv_snapshot_finished_at v)),
          (''last_processed_height'', JInt (hv_last_processed_height v))])"

definition json_unstaked :: "unstake_response \<Rightarrow> json" where
  "json_unstaked v = JObj [(''status'', JStr (ur_status v)), (''request_id'', JInt (ur_request_id v)),
     (''amount'', JInt (ur_amount v)), (''amount_npc'', JStr (ur_amount_npc v)),
     (''request_height'', JInt (ur_request_height v)), (''unlock_height'', JInt (ur_unlock_height v)),
     (''blocks_until_unlock'', JInt (ur_blocks_until_unlock v)),
     (''new_staked_amount'', JInt (ur_new_staked_amount v)), (''new_tier'', JStr (ur_new_tier v))]"

definition json_cancelled :: "cancel_response \<Rightarrow> json" where
  "json_cancelled v = JObj [(''status'', JStr (cr_status v)), (''request_id'', JInt (cr_request_id v)),
     (''amount_restored'', JInt (cr_amount_restored v)),
     (''amount_restored_npc'', JStr (cr_amount_restored_npc v)),
     (''new_staked_amount'', JInt (cr_new_staked_amount v)), (''new_tier'', JStr (cr_new_tier v))]"

definition json_claimed :: "claim_response \<Rightarrow> json" where
  "json_claimed v = JObj [(''status'', JStr (cl_status v)), (''amount'', JInt (cl_amount v)),
     (''amount_npc'', JStr (cl_amount_npc v)), (''payout_id'', json_opt (cl_payout_id v)),
     (''ref'', JStr (cl_ref v)), (''claimed_at_height'', JInt (cl_claimed_at_height v))]"

section \<open>Requests\<close>

text \<open>A request as its handler gets it.\<close>

datatype web_request =
    GetRoot
  | GetStake string
  | GetPendingRewards string
  | GetRewardsPoolStats
  | GetLeaderboard int
  | GetHealth
  | GetValidators
  | PostRequestUnstake RequestUnstake
  | PostCancelUnstake CancelUnstake
  | PostClaimRewards SignedRequest

fun route :: "web_request \<Rightarrow> string \<times> string" where
  "route GetRoot = (''GET'', ''/'')"
| "route (GetStake a) = (''GET'', ''/api/v1/stake/{address}'')"
| "route (GetPendingRewards a) = (''GET'', ''/api/v1/pending-rewards/{address}'')"
| "route GetRewardsPoolStats = (''GET'', ''/api/v1/rewards-pool/stats'')"
| "route (GetLeaderboard n) = (''GET'', ''/api/v1/leaderboard'')"
| "route GetHealth = (''GET'', ''/api/v1/health'')"
| "route GetValidators = (''GET'', ''/api/v1/validators'')"
| "route (PostRequestUnstake r) = (''POST'', ''/api/v1/stake/request-unstake'')"
| "route (PostCancelUnstake r) = (''POST'', ''/api/v1/stake/cancel-unstake'')"
| "route (PostClaimRewards r) = (''POST'', ''/api/v1/stake/claim-rewards'')"

text \<open>
  The session of a read-only handler: it is opened for the request and closed after it. The first
  statement connects; it raises when the database is not \<open>up\<close>, which no handler catches. \<open>check\<close> is
  what the handler checks before that.
\<close>

definition reading :: "readings \<Rightarrow> bool \<Rightarrow> unit res \<Rightarrow> (db \<Rightarrow> 'a res) \<Rightarrow> (app, 'a) exec" where
  "reading k up check f = (\<lambda>s.
     case get_session
         (andthen (lift check)
         (andthen (raise_unless up OperationalError)
         (bind (gets working) (\<lambda>d. lift (f d))))) (clock3 k) (database s) of
       (r, d) \<Rightarrow> (r, s\<lparr>database := d\<rparr>))"

text \<open>
  A signed request when the database fails: the signature is checked before the first statement, and a
  statement or a commit that fails leaves nothing behind, so it is the same whichever it is.
\<close>

definition unavailable :: "bool \<Rightarrow> crypto \<Rightarrow> readings \<Rightarrow> string \<Rightarrow> int \<Rightarrow> 'r SignedRequest_scheme \<Rightarrow> (app, 'a) exec" where
  "unavailable valid c k action n r = endpoint valid c k action n r (raise OperationalError)"

definition answering :: "('a \<Rightarrow> json) \<Rightarrow> ('s, 'a) exec \<Rightarrow> ('s, json) exec" where
  "answering to_json m = bind m (\<lambda>v. return (to_json v))"

fun serve :: "crypto \<Rightarrow> (time \<Rightarrow> string) \<Rightarrow> readings \<Rightarrow> bool \<Rightarrow> web_request \<Rightarrow> (app, json) exec" where
  "serve c fmt k up GetRoot = return root"
| "serve c fmt k up (GetStake a) = answering json_stake (reading k up (Inr ()) (\<lambda>d. get_stake d a))"
| "serve c fmt k up (GetPendingRewards a) =
     answering json_rewards (reading k up (Inr ()) (\<lambda>d. get_pending_rewards d a))"
| "serve c fmt k up GetRewardsPoolStats =
     answering json_stats (reading k up (Inr ()) (\<lambda>d. Inr (get_rewards_pool_stats d)))"
| "serve c fmt k up (GetLeaderboard n) =
     answering json_leaders (reading k up (leaderboard_limit n) (\<lambda>d. leaderboard d n))"
| "serve c fmt k up GetHealth = answering (json_health fmt) (reading k up (Inr ()) (\<lambda>d. Inr (health d)))"
| "serve c fmt k up GetValidators =
     answering json_validators (reading k up (Inr ()) (\<lambda>d. Inr (list_validators d)))"
| "serve c fmt k up (PostRequestUnstake r) = answering json_unstaked
     (if up then request_unstake c k r
      else unavailable (request_unstake_valid r) c k ''UNSTAKE'' (req_amount r) r)"
| "serve c fmt k up (PostCancelUnstake r) = answering json_cancelled
     (if up then cancel_unstake c k r
      else unavailable (cancel_unstake_valid r) c k ''CANCEL_UNSTAKE'' (req_request_id r) r)"
| "serve c fmt k up (PostClaimRewards r) = answering json_claimed
     (if up then claim_rewards c k r
      else unavailable (signed_fields_valid r) c k ''CLAIM_REWARDS'' 0 r)"

definition error_status :: "py_error \<Rightarrow> int" where
  "error_status e = (case e of HTTPException code detail \<Rightarrow> code | _ \<Rightarrow> 500)"

definition http_status :: "'a res \<Rightarrow> int" where
  "http_status r = (case r of Inl e \<Rightarrow> error_status e | Inr v \<Rightarrow> 200)"

lemma http_status_simps [simp]:
  "http_status (Inr v) = 200" "http_status (Inl e) = error_status e"
  "error_status (HTTPException code detail) = code"
  by (simp_all add: http_status_def error_status_def)

lemma route_is_mounted: "route req \<in> set app_routes"
proof -
  have "set app_routes = set [route GetRoot, route (GetStake []), route (GetPendingRewards []),
      route GetRewardsPoolStats, route (GetLeaderboard 0), route GetHealth, route GetValidators,
      (''POST'', ''/api/v1/stake/request-unstake''), (''POST'', ''/api/v1/stake/cancel-unstake''),
      (''POST'', ''/api/v1/stake/claim-rewards'')]" by code_simp
  then show ?thesis by (cases req) simp_all
qed

section \<open>Which exceptions a handler raises\<close>

text \<open>\<open>raises_in S m\<close>: an exception of \<open>m\<close> is answered with 500 or a status of \<open>S\<close>.\<close>

definition raises_in :: "int set \<Rightarrow> ('s, 'a) exec \<Rightarrow> bool" where
  "raises_in S m \<longleftrightarrow> (\<forall>s e s'. m s = (Inl e, s') \<longrightarrow> error_status e \<in> insert 500 S)"

named_theorems raises_intros

lemma raises_inD: "raises_in S m \<Longrightarrow> m s = (Inl e, s') \<Longrightarrow> error_status e \<in> insert 500 S"
  unfolding raises_in_def by blast

lemma raises_in_return [raises_intros]: "raises_in S (return a)"
  by (simp add: raises_in_def return_exec)

lemma raises_in_gets [raises_intros]: "raises_in S (gets f)"
  by (simp add: raises_in_def gets_exec)

lemma raises_in_modify [raises_intros]: "raises_in S (modify f)"
  by (simp add: raises_in_def modify_exec)

lemma raises_in_raise [raises_intros]: "error_status e \<in> insert 500 S \<Longrightarrow> raises_in S (raise e)"
  by (simp add: raises_in_def raise_exec)

lemma raises_in_bind [raises_intros]:
  assumes "raises_in S m" and "\<And>a. raises_in S (f a)"
  shows "raises_in S (bind m f)"
  using assms unfolding raises_in_def bind_def by (fastforce split: prod.splits sum.splits)

lemma raises_in_if [raises_intros]:
  "(b \<Longrightarrow> raises_in S m) \<Longrightarrow> (\<not> b \<Longrightarrow> raises_in S m') \<Longrightarrow> raises_in S (if b then m else m')"
  by simp

lemma raises_in_raise_unless [raises_intros]: "error_status e \<in> insert 500 S \<Longrightarrow> raises_in S (raise_unless b e)"
  by (simp add: raises_in_def raise_unless_exec)

lemma raises_in_option [raises_intros]:
  "raises_in S m \<Longrightarrow> (\<And>a. raises_in S (f a)) \<Longrightarrow> raises_in S (case x of None \<Rightarrow> m | Some a \<Rightarrow> f a)"
  by (cases x) simp_all

lemma raises_in_flush [raises_intros]: "error_status e \<in> insert 500 S \<Longrightarrow> raises_in S (flush_unless ok e)"
  unfolding flush_unless_def rollback_def by (intro raises_intros)


lemma current_height_raises [raises_intros]: "503 \<in> S \<Longrightarrow> raises_in S current_height"
  unfolding current_height_def by (intro raises_intros) simp_all




text \<open>The frame of the signed endpoints adds the two statuses of its own.\<close>

lemma verify_signed_request_raises:
  "verify_signed_request c t t' action a n nonce ts sg pk seen = (Inl e, seen') \<Longrightarrow> \<exists>m. e = SignatureError m"
  by (auto simp: verify_signed_request_def check_replay_def bind_def Let_def exec_run
      split: if_splits prod.splits sum.splits)

lemma endpoint_raises:
  assumes "raises_in S body"
  shows "raises_in (insert 401 (insert 422 S)) (endpoint valid c k action n req body)"
  unfolding raises_in_def
proof (intro allI impI)
  fix s :: app and e s'
  assume run: "endpoint valid c k action n req body s = (Inl e, s')"
  let ?v = "verify_signed_request c (clock1 k) (clock2 k) action (req_address req) n
    (req_nonce req) (req_timestamp req) (req_signature req) (req_pubkey req) (nonces s)"
  obtain r seen where v: "?v = (r, seen)" by fastforce
  obtain r0 s0 where b: "body (begin_session (clock3 k) (database s)) = (r0, s0)" by fastforce
  show "error_status e \<in> insert 500 (insert 401 (insert 422 S))"
  proof (cases r)
    case (Inl e0)
    with v verify_signed_request_raises obtain m where "e0 = SignatureError m" by blast
    with v Inl run show ?thesis by (auto simp: endpoint_def validation_error_def split: if_splits)
  next
    case (Inr u)
    with run v b have "e = validation_error \<or> r0 = Inl e"
      by (auto simp: endpoint_def get_session_def split: if_splits)
    with raises_inD [OF assms] b show ?thesis by (auto simp: validation_error_def)
  qed
qed

lemma reading_run: "reading k up check f s =
    (rbind check (\<lambda>_. if up then f (database s) else Inl OperationalError), s)"
  by (cases check) (simp_all add: reading_def get_session_def bind_gets bind_lift bind_raise_unless lift_exec
      committed_rolled_back_begin)

lemma unavailable_run:
  fixes r :: "'r SignedRequest_scheme"
  shows "database (snd (unavailable valid c k action n r s :: 'a res \<times> app)) = database s"
    and "http_status (fst (unavailable valid c k action n r s :: 'a res \<times> app)) \<in> {401, 422, 500}"
proof -
  have "get_session (raise OperationalError) t d = (Inl OperationalError :: 'a res, d)" for t d
    by (simp add: get_session_def raise_exec committed_rolled_back_begin)
  then show "database (snd (unavailable valid c k action n r s :: 'a res \<times> app)) = database s"
    by (simp add: unavailable_def endpoint_def split: prod.split sum.split)
  obtain r' s' where run: "unavailable valid c k action n r s = (r' :: 'a res, s')" by fastforce
  have down: "get_session (raise OperationalError) t d = (Inl OperationalError :: 'a res, d)" for t d
    by (simp add: get_session_def raise_exec committed_rolled_back_begin)
  with run obtain e where "r' = Inl e"
    by (cases r') (auto simp: unavailable_def endpoint_def split: prod.splits sum.splits if_splits)
  note run = run [unfolded this]
  have "raises_in (insert 401 (insert 422 {})) (unavailable valid c k action n r :: (app, 'a) exec)"
    unfolding unavailable_def
    by (intro endpoint_raises) (simp add: raises_in_def raise_exec error_status_def)
  from raises_inD [OF this run]
  show "http_status (fst (unavailable valid c k action n r s :: 'a res \<times> app)) \<in> {401, 422, 500}"
    unfolding run by auto
qed

lemma answering_run:
  "answering to_json m s = (case m s of (r, s') \<Rightarrow> (case r of Inl e \<Rightarrow> Inl e | Inr v \<Rightarrow> Inr (to_json v), s'))"
  by (simp add: answering_def bind_def return_exec split: prod.split sum.split)

lemma answering_status: "http_status (fst (answering to_json m s)) = http_status (fst (m s))"
  by (simp add: answering_run split: prod.split sum.split)

lemma answering_state [simp]: "snd (answering to_json m s) = snd (m s)"
  by (simp add: answering_run split: prod.split)




lemma claim_keeps: "database (snd (claim_rewards c k req s)) = database s"
  using claims_never_succeed [where c = c and k = k and req = req and s = s] by (simp split: prod.splits)


section \<open>What an answer says\<close>

text \<open>The statuses of an answer, for a database that is up and for one that is not.\<close>

fun statuses :: "bool \<Rightarrow> web_request \<Rightarrow> int set" where
  "statuses up GetRoot = {200}"
| "statuses up (GetStake a) = (if up \<and> sql_text (canonicalize a) then {200} else {500})"
| "statuses up (GetPendingRewards a) = (if up \<and> sql_text (canonicalize a) then {200} else {500})"
| "statuses up (GetLeaderboard n) = (if n < 1 \<or> 500 < n then {400} else if up then {200} else {500})"
| "statuses up (PostRequestUnstake r) = (if up then {200, 400, 401, 404, 422, 500, 503} else {401, 422, 500})"
| "statuses up (PostCancelUnstake r) = (if up then {200, 400, 401, 403, 404, 422, 500, 503} else {401, 422, 500})"
| "statuses up (PostClaimRewards r) = (if up then {400, 401, 422, 500, 503} else {401, 422, 500})"
| "statuses up req = (if up then {200} else {500})"

lemma serve_down:
  "http_status (fst (serve c fmt k False req s)) \<in> statuses False req"
  "database (snd (serve c fmt k False req s)) = database s"
proof -
  show "http_status (fst (serve c fmt k False req s)) \<in> statuses False req"
  proof (cases req)
    case (PostRequestUnstake r)
    show ?thesis unfolding PostRequestUnstake by (simp only: serve.simps statuses.simps if_False answering_status unavailable_run(2))
  next
    case (PostCancelUnstake r)
    show ?thesis unfolding PostCancelUnstake by (simp only: serve.simps statuses.simps if_False answering_status unavailable_run(2))
  next
    case (PostClaimRewards r)
    show ?thesis unfolding PostClaimRewards by (simp only: serve.simps statuses.simps if_False answering_status unavailable_run(2))
  qed (simp_all add: answering_status reading_run return_exec leaderboard_limit_def rbind_def error_status_def)
  show "database (snd (serve c fmt k False req s)) = database s"
    by (cases req) (simp_all add: reading_run return_exec unavailable_run(1))
qed


text \<open>
  C30. Only the owner of a key changes anything. Whatever request is sent to whatever route, when
  the database has changed after it, the database was up and it was a request to unstake or to
  cancel whose signature was accepted for this action, this address and this amount (or request
  id), and the account of no other address has changed.
\<close>

theorem only_signed_requests_change_the_database:
  assumes "database (snd (serve c fmt k up req s)) \<noteq> database s"
  shows "up \<and>
    ((\<exists>r. req = PostRequestUnstake r \<and> accepted c k ''UNSTAKE'' (req_amount r) r s \<and>
      (\<forall>b. b \<noteq> req_address r \<longrightarrow> get_staker (database (snd (serve c fmt k up req s))) b = get_staker (database s) b)) \<or>
    (\<exists>r. req = PostCancelUnstake r \<and> accepted c k ''CANCEL_UNSTAKE'' (req_request_id r) r s \<and>
      (\<forall>b. b \<noteq> req_address r \<longrightarrow> get_staker (database (snd (serve c fmt k up req s))) b = get_staker (database s) b)))"
proof -
  have up: "up = True" using assms serve_down(2) by (cases up) auto
  show ?thesis
  proof (cases req)
    case (PostRequestUnstake r)
    with assms only_signed_requests_change_accounts [of c k r s] show ?thesis by (simp add: up)
  next
    case (PostCancelUnstake r)
    with assms only_signed_requests_change_accounts [of c k _ s r] show ?thesis by (simp add: up)
  next
    case (PostClaimRewards r)
    with assms claim_keeps show ?thesis by (simp add: up)
  qed (use assms in \<open>simp_all add: reading_run return_exec\<close>)
qed

lemma only_signed_requests_change_the_database_witness:
  "accepted ex_crypto ex_readings ''UNSTAKE'' 100 ex_request \<lparr>nonces = Map.empty, database = ex_ready\<rparr>"
proof -
  let ?s = "\<lparr>nonces = Map.empty, database = ex_ready\<rparr>"
  have "ex_requested \<noteq> ex_ready" by (auto simp: ex_states ex_staker_def dest: arg_cong [of _ _ stakers])
  then have "database (snd (serve ex_crypto (\<lambda>_. []) ex_readings True (PostRequestUnstake ex_request) ?s)) \<noteq> database ?s"
    using ex_request_step(2) by (simp add: ex_after_request_def ex_app_def)
  from only_signed_requests_change_the_database [OF this] show ?thesis by (simp add: ex_request_def)
qed



text \<open>Every change that a request makes is one that a process of the machine can make.\<close>

lemma serve_answers:
  assumes "serve c fmt k True req s = (r, s')"
  shows "answers c s s' \<or> s' = s"
proof -
  have "s' = snd (serve c fmt k True req s)" using assms by simp
  then show ?thesis
    by (cases req)
      (auto simp: reading_run return_exec intro: answers.unstake answers.cancel answers.claim surjective_pairing)
qed

section \<open>What the owner of an account is shown\<close>

lemma sum_list_filter_if: "sum_list (map f (filter P xs)) = sum_list (map (\<lambda>x. if P x then f x else (0::int)) xs)"
  by (induction xs) simp_all

lemma mset_eq_sum_list: "mset xs = mset ys \<Longrightarrow> sum_list (map f xs) = sum_list (map (f :: 'a \<Rightarrow> int) ys)"
  by (metis mset_map sum_mset_sum_list)

text \<open>No request ever becomes COMPLETED, so those that are shown are those that are not cancelled.\<close>

lemma pending_query_reachable:
  assumes "service_ok d"
  shows "mset (pending_query d a) =
      mset (filter (\<lambda>u. request_address u = a \<and> request_status u \<noteq> CANCELLED) (unstake_requests d))"
    and "sum_list (map request_amount (pending_query d a)) = locked_total a d"
proof -
  have "request_status u \<noteq> COMPLETED" if "u \<in> set (unstake_requests d)" for u
    using assms that by (simp add: service_ok_def accounts_ok_def request_ok_def)
  then have "request_status u \<in> {PENDING, READY} \<longleftrightarrow> request_status u \<noteq> CANCELLED" if "u \<in> set (unstake_requests d)" for u
    using that by (cases "request_status u") auto
  then have eq: "filter (\<lambda>u. request_address u = a \<and> request_status u \<in> {PENDING, READY}) (unstake_requests d) =
      filter (\<lambda>u. request_address u = a \<and> request_status u \<noteq> CANCELLED) (unstake_requests d)"
    by (intro filter_cong) auto
  show shown: "mset (pending_query d a) =
      mset (filter (\<lambda>u. request_address u = a \<and> request_status u \<noteq> CANCELLED) (unstake_requests d))"
    unfolding pending_query_def eq by (rule mset_sort)
  show "sum_list (map request_amount (pending_query d a)) = locked_total a d"
    unfolding mset_eq_sum_list [OF shown] sum_list_filter_if locked_total_def locked_amount_def ..
qed

lemma no_account_no_requests:
  assumes "service_ok d" and "get_staker d a = None"
  shows "pending_query d a = []"
proof -
  have "a \<notin> staker_address ` set (stakers d)" using assms(2) by (simp add: get_staker_def row_get_None_iff)
  moreover have "\<forall>u \<in> set (unstake_requests d). request_address u \<in> staker_address ` set (stakers d)"
    using assms by (simp add: service_ok_def accounts_ok_def)
  ultimately have "filter (\<lambda>u. request_address u = a \<and> request_status u \<in> {PENDING, READY})
      (unstake_requests d) = []" unfolding filter_empty_conv by metis
  then show ?thesis unfolding pending_query_def by simp
qed

lemma get_stake_shows:
  assumes "service_ok d" and "get_stake d a = Inr v"
  shows "sv_address v = canonicalize a \<and> sv_staked_amount v = stake_of (canonicalize a) d \<and>
    sv_pending_unstakes v = map view_request (pending_query d (canonicalize a)) \<and>
    0 \<le> sv_staked_amount v \<and> sv_tier v = tier_name (tier_for (sv_staked_amount v))"
proof (cases "get_staker d (canonicalize a)")
  case None
  with assms(2) no_account_no_requests [OF assms(1) None] show ?thesis
    by (auto simp: get_stake_def Let_def stake_of_def ex_tier_none split: if_splits)
next
  case (Some st)
  have "staker_ok st" using assms(1) accounts_okD(3) [OF _ Some] by (simp add: service_ok_def)
  with assms(2) Some show ?thesis
    by (auto simp: get_stake_def Let_def stake_of_def staker_ok_def split: if_splits)
qed

text \<open>
  C19. The page of an account. In every reachable state the page is refused exactly when PostgreSQL does
  not take the address. Otherwise, whether it is asked for under an old or the current address, it
  shows the account of the current one: the stake of the account (0 when there is none) and its
  tier, and each unstake request of the owner that is not cancelled, once, with its id, amount, heights and
  status, in the order in which they unlock. The amounts that it shows add up to the stake and what is
  locked in requests, which is what was recorded as staked as long as no refund was recorded, and in any
  case at most that and at least that less the recorded refunds (a refund is not taken below a stake of 0).
\<close>

theorem stake_page_shows_the_account:
  assumes "reachable s"
  shows "let d = database s; b = canonicalize a in
    case get_stake d a of
      Inl e \<Rightarrow> e = DataError \<and> CHR 0x00 \<in> set b
    | Inr v \<Rightarrow> CHR 0x00 \<notin> set b \<and> get_stake d b = Inr (v\<lparr>sv_input_address := b\<rparr>) \<and> sv_address v = b \<and>
        sv_staked_amount v = stake_of b d \<and> 0 \<le> stake_of b d \<and> sv_tier v = tier_name (tier_for (stake_of b d)) \<and>
        sorted (map pv_unlock_height (sv_pending_unstakes v)) \<and>
        mset (sv_pending_unstakes v) = mset (map (\<lambda>u. \<lparr>pv_id = request_id u, pv_amount = request_amount u,
            pv_amount_npc = to_npc (request_amount u), pv_request_height = request_height u,
            pv_unlock_height = unlock_height u, pv_status = request_status u\<rparr>)
          (filter (\<lambda>u. request_address u = b \<and> request_status u \<noteq> CANCELLED) (unstake_requests d))) \<and>
        (let total = sv_staked_amount v + sum_list (map pv_amount (sv_pending_unstakes v)) in
          total = stake_of b d + locked_total b d \<and> total \<le> event_total ''STAKE'' b d \<and>
          event_total ''STAKE'' b d - event_total ''UNSTAKE'' b d \<le> total \<and>
          (event_total ''UNSTAKE'' b d = 0 \<longrightarrow> total = event_total ''STAKE'' b d))"
proof -
  let ?d = "database s" and ?b = "canonicalize a"
  have ok: "service_ok ?d" by (rule reachable_ok [OF assms])
  have flow: "event_total ''STAKE'' ?b ?d - event_total ''UNSTAKE'' ?b ?d \<le> stake_of ?b ?d + locked_total ?b ?d"
    "stake_of ?b ?d + locked_total ?b ?d \<le> event_total ''STAKE'' ?b ?d"
    using ok by (simp_all add: service_ok_def flow_ok_def)
  show ?thesis
  proof (cases "get_stake ?d a")
    case (Inl e)
    then show ?thesis
      by (auto simp: get_stake_def Let_def sql_text_def split: if_splits option.splits)
  next
    case (Inr v)
    have again: "CHR 0x00 \<notin> set ?b" "get_stake ?d ?b = Inr (v\<lparr>sv_input_address := ?b\<rparr>)"
      using Inr by (auto simp: get_stake_def Let_def sql_text_def split: if_splits option.splits)
    have page: "sv_address v = ?b" "sv_staked_amount v = stake_of ?b ?d"
      "sv_pending_unstakes v = map view_request (pending_query ?d ?b)"
      "0 \<le> sv_staked_amount v" "sv_tier v = tier_name (tier_for (sv_staked_amount v))"
      using get_stake_shows [OF ok Inr] by simp_all
    have view: "view_request = (\<lambda>u. \<lparr>pv_id = request_id u, pv_amount = request_amount u,
        pv_amount_npc = to_npc (request_amount u), pv_request_height = request_height u,
        pv_unlock_height = unlock_height u, pv_status = request_status u\<rparr>)"
      by (rule ext) (simp add: view_request_def)
    have "mset (sv_pending_unstakes v) = mset (map view_request
        (filter (\<lambda>u. request_address u = ?b \<and> request_status u \<noteq> CANCELLED) (unstake_requests ?d)))"
      using pending_query_reachable(1) [OF ok, of ?b] unfolding page(3) by simp
    moreover have "sorted (map pv_unlock_height (sv_pending_unstakes v))"
      unfolding page(3) by (simp add: view_request_def comp_def pending_query_def)
    moreover have "sum_list (map pv_amount (sv_pending_unstakes v)) = locked_total ?b ?d"
      using pending_query_reachable(2) [OF ok, of ?b] unfolding page(3) by (simp add: view_request_def comp_def)
    ultimately show ?thesis
      unfolding Let_def Inr sum.case view [symmetric] using again page(1,2,4,5) flow by simp
  qed
qed

lemma stake_page_shows_the_account_witness:
  "\<exists>v. get_stake ex_requested ex_addr = Inr v \<and> sv_staked_amount v = 200 \<and>
     map pv_amount (sv_pending_unstakes v) = [100] \<and>
     sv_staked_amount v + sum_list (map pv_amount (sv_pending_unstakes v)) = event_total ''STAKE'' ex_addr ex_requested"
proof -
  have parts: "event_total ''UNSTAKE'' ex_addr ex_requested = 0" "stake_of ex_addr ex_requested = 200"
    "filter (\<lambda>u. request_address u = ex_addr \<and> request_status u \<noteq> CANCELLED) (unstake_requests ex_requested) =
      [ex_unstake PENDING]" "request_amount (ex_unstake PENDING) = 100"
    by (simp_all add: event_total_def stake_of_def get_staker_def ex_states row_get_Cons) (simp_all add: ex_parts)
  have "CHR 0x00 \<notin> set ex_addr" using length_ex_addr(2) by (simp add: sql_text_def)
  moreover have "canonicalize ex_addr = ex_addr" by (rule ex_addr_canonical)
  ultimately show ?thesis
    using stake_page_shows_the_account [OF ex_reachable(1), of ex_addr] parts
    by (cases "get_stake ex_requested ex_addr") (auto simp: ex_app_def Let_def)
qed

end
