(* ===== verification/Interleaving.thy ===== *)
theory Interleaving
  imports Endpoints
begin

text \<open>
  Two handlers at once. Elsewhere a handler is one transition of the database; in the program it
  awaits its reads and its commit, and other requests of the same process run in between. The
  reads take no lock and the sessions run at PostgreSQL's default isolation level, so what is
  written may rest on rows that have changed since. This theory cuts \<open>request_unstake\<close> and
  \<open>cancel_unstake\<close> between their reads and their writes, and shows when the cut does no harm and
  what it allows otherwise.
\<close>

section \<open>The handler in two phases\<close>

text \<open>From the start of the handler to the last await before its first assignment.\<close>

definition unstake_reads :: "string \<Rightarrow> int \<Rightarrow> (session, Staker \<times> int) exec" where
  "unstake_reads a n =
     bind (gets (\<lambda>s. get_staker (working s) a)) (\<lambda>found.
     case found of
       None \<Rightarrow> raise (HTTPException 404 ''staker_not_found'')
     | Some staker \<Rightarrow>
         if staked_amount staker < n then
           raise (HTTPException 400 (''insufficient_stake (have '' @ int_str (staked_amount staker) @
             '', requested '' @ int_str n @ '')''))
         else bind current_height (\<lambda>height. return (staker, height)))"

text \<open>
  The flush of a row that was loaded as \<open>old\<close> and assigned to \<open>new\<close>: the session's UPDATE names the
  columns whose values differ, and leaves the others as they are stored by then.
\<close>

definition changed_columns :: "Staker \<Rightarrow> Staker \<Rightarrow> Staker \<Rightarrow> Staker" where
  "changed_columns old new row = row\<lparr>
     staked_amount := (if staked_amount new = staked_amount old then staked_amount row else staked_amount new),
     tier := (if tier new = tier old then tier row else tier new),
     first_stake_height := (if first_stake_height new = first_stake_height old
       then first_stake_height row else first_stake_height new),
     last_activity_height := (if last_activity_height new = last_activity_height old
       then last_activity_height row else last_activity_height new)\<rparr>"

definition flush_staker :: "Staker \<Rightarrow> Staker \<Rightarrow> (session, unit) exec" where
  "flush_staker old new =
     bind (gets (\<lambda>s. get_staker (working s) (staker_address old))) (\<lambda>row.
       write_staker (case row of None \<Rightarrow> new | Some r \<Rightarrow> changed_columns old new r))"

text \<open>From the assignments, which use the loaded row, to the answer.\<close>

definition unstake_writes :: "string \<Rightarrow> int \<Rightarrow> Staker \<times> int \<Rightarrow> (session, unstake_response) exec" where
  "unstake_writes a n = (\<lambda>(staker, height).
     let unlock = height + unstake_cooldown_blocks;
         new_staked = staked_amount staker - n
     in andthen (flush_staker staker (set_stake new_staked height staker))
       (bind (insert_request (new_request a n height unlock)) (\<lambda>u.
        andthen commit
          (return \<lparr>ur_status = ''queued'', ur_request_id = request_id u, ur_amount = n,
             ur_amount_npc = to_npc n, ur_request_height = height,
             ur_unlock_height = unlock, ur_blocks_until_unlock = unlock - height,
             ur_new_staked_amount = new_staked,
             ur_new_tier = tier_name (tier_for new_staked)\<rparr>))))"

lemma changed_columns_loaded:
  "staker_address new = staker_address old \<Longrightarrow> changed_columns old new old = new"
  by (intro Staker.equality) (simp_all add: changed_columns_def)

lemma changed_columns_address [simp]: "staker_address (changed_columns old new row) = staker_address row"
  by (simp add: changed_columns_def)

lemma bind_flush_staker:
  assumes "get_staker (working s) (staker_address old) = Some row"
  shows "bind (flush_staker old new) f s =
    (if staker_columns (changed_columns old new row)
     then f () (s\<lparr>working := put_staker (changed_columns old new row) (working s)\<rparr>)
     else (Inl DataError, rolled_back s))"
  by (simp add: flush_staker_def bind_assoc bind_gets assms bind_write_staker)

text \<open>Run one after the other, the phases are the handler.\<close>

lemma request_unstake_phases:
  "request_unstake_body a n s = bind (unstake_reads a n) (unstake_writes a n) s"
proof (cases "get_staker (working s) a")
  case None
  then show ?thesis by (simp add: request_unstake_body_def unstake_reads_def bind_assoc bind_gets)
next
  case (Some st)
  have "staker_address st = a" using staker_table.get_key [OF Some] .
  with Some have flush: "bind (flush_staker st (set_stake k h st)) f s =
      bind (write_staker (set_stake k h st)) f s" for k h and f :: "unit \<Rightarrow> (session, unstake_response) exec"
    by (subst bind_flush_staker [of _ _ st])
      (simp_all add: bind_write_staker changed_columns_loaded set_stake_def)
  show ?thesis
    using Some flush
    by (auto simp: request_unstake_body_def unstake_reads_def unstake_writes_def bind_assoc bind_gets
        bind_current_height Let_def split: option.split)
qed

text \<open>\<open>cancel_unstake\<close>, cut at the same place.\<close>

definition cancel_reads :: "string \<Rightarrow> int \<Rightarrow> (session, UnstakeRequest \<times> Staker \<times> int) exec" where
  "cancel_reads a i =
     andthen (raise_unless (big_integer i) DataError)
    (bind (gets (\<lambda>s. get_request (working s) i)) (\<lambda>found.
     case found of
       None \<Rightarrow> raise (HTTPException 404 ''request_not_found'')
     | Some u \<Rightarrow>
         if request_address u \<noteq> a then raise (HTTPException 403 ''not_your_request'')
         else if request_status u \<notin> {PENDING, READY} then
           raise (HTTPException 400 (''cannot_cancel (status='' @ status_name (request_status u) @ '')''))
         else
           bind (gets (\<lambda>s. get_staker (working s) a)) (\<lambda>owner.
           case owner of
             None \<Rightarrow> raise (HTTPException 404 ''staker_not_found'')
           | Some staker \<Rightarrow> bind current_height (\<lambda>height. return (u, staker, height)))))"

text \<open>The columns of a request that \<open>cancel_unstake\<close> assigns.\<close>

definition changed_request :: "UnstakeRequest \<Rightarrow> UnstakeRequest \<Rightarrow> UnstakeRequest \<Rightarrow> UnstakeRequest" where
  "changed_request old new row = row\<lparr>
     request_status := (if request_status new = request_status old then request_status row else request_status new),
     completed_height := (if completed_height new = completed_height old
       then completed_height row else completed_height new)\<rparr>"

definition flush_request :: "UnstakeRequest \<Rightarrow> UnstakeRequest \<Rightarrow> (session, unit) exec" where
  "flush_request old new =
     bind (gets (\<lambda>s. get_request (working s) (request_id old))) (\<lambda>row.
       write_request (case row of None \<Rightarrow> new | Some r \<Rightarrow> changed_request old new r))"

definition cancel_writes :: "int \<Rightarrow> UnstakeRequest \<times> Staker \<times> int \<Rightarrow> (session, cancel_response) exec" where
  "cancel_writes i = (\<lambda>(u, staker, height).
     let new_staked = staked_amount staker + request_amount u
     in andthen (flush_staker staker (set_stake new_staked height staker))
       (andthen (flush_request u (u\<lparr>request_status := CANCELLED, completed_height := Some height\<rparr>))
       (andthen commit
          (return \<lparr>cr_status = ''cancelled'', cr_request_id = i,
             cr_amount_restored = request_amount u,
             cr_amount_restored_npc = to_npc (request_amount u),
             cr_new_staked_amount = new_staked,
             cr_new_tier = tier_name (tier_for new_staked)\<rparr>))))"

lemma changed_request_loaded:
  "changed_request u (u\<lparr>request_status := x, completed_height := h\<rparr>) u = u\<lparr>request_status := x, completed_height := h\<rparr>"
  by (simp add: changed_request_def)

lemma bind_flush_request:
  assumes "get_request (working s) (request_id old) = Some row"
  shows "bind (flush_request old new) f s =
    (if request_columns (changed_request old new row)
     then f () (s\<lparr>working := put_request (changed_request old new row) (working s)\<rparr>)
     else (Inl DataError, rolled_back s))"
  by (simp add: flush_request_def bind_assoc bind_gets assms bind_write_request)

lemma get_request_put_staker [simp]: "get_request (put_staker st d) i = get_request d i"
  by (simp add: get_request_def put_staker_def)

lemma cancel_unstake_phases:
  "cancel_unstake_body a i s = bind (cancel_reads a i) (cancel_writes i) s"
proof (cases "get_request (working s) i")
  case None
  then show ?thesis by (simp add: cancel_unstake_body_def cancel_reads_def bind_assoc bind_raise_unless bind_gets)
next
  case (Some u)
  have id: "request_id u = i" using Some by (simp add: get_request_def request_table.get_key)
  show ?thesis
  proof (cases "get_staker (working s) a")
    case None
    with Some show ?thesis by (simp add: cancel_unstake_body_def cancel_reads_def bind_assoc bind_raise_unless bind_gets)
  next
    case (Some st)
    have "staker_address st = a" using staker_table.get_key [OF Some] .
    with Some have first: "bind (flush_staker st (set_stake k h st)) f s =
        bind (write_staker (set_stake k h st)) f s" for k h and f :: "unit \<Rightarrow> (session, cancel_response) exec"
      by (subst bind_flush_staker [of _ _ st])
        (simp_all add: bind_write_staker changed_columns_loaded set_stake_def)
    have second: "bind (flush_request u (u\<lparr>request_status := x, completed_height := h\<rparr>)) f
          (s\<lparr>working := put_staker st' (working s)\<rparr>) =
        bind (write_request (u\<lparr>request_status := x, completed_height := h\<rparr>)) f
          (s\<lparr>working := put_staker st' (working s)\<rparr>)"
      for x h st' and f :: "unit \<Rightarrow> (session, cancel_response) exec"
      using \<open>get_request (working s) i = Some u\<close> id
      by (subst bind_flush_request [of _ _ u]) (simp_all add: bind_write_request changed_request_loaded)
    show ?thesis
      using Some \<open>get_request (working s) i = Some u\<close>
      by (auto simp: cancel_unstake_body_def cancel_reads_def cancel_writes_def bind_assoc bind_raise_unless bind_gets first
          bind_write_staker second bind_current_height Let_def split: option.split)
  qed
qed

section \<open>Interleavings that do no harm\<close>

definition phase_one :: "(session, 'p) exec \<Rightarrow> time \<Rightarrow> db \<Rightarrow> 'p res" where
  "phase_one m t d = fst (m (begin_session t d))"

text \<open>
  A handler that reads, and then writes what it computed from the read. If what it read is as it
  was when it writes, the handler has the effect of one that ran at the end, all at once.
\<close>

locale two_phase =
  fixes body :: "(session, 'a) exec" and reads :: "(session, 'p) exec"
    and writes :: "'p \<Rightarrow> (session, 'a) exec" and unchanged :: "db \<Rightarrow> db \<Rightarrow> bool"
  assumes phases: "body s = bind reads writes s"
    and pure: "snd (reads s) = s"
    and depends: "unchanged d d' \<Longrightarrow> phase_one reads t d = phase_one reads t' d'"
begin

lemma serial:
  assumes "phase_one reads t d = Inr x" and "unchanged d d'"
  shows "get_session (writes x) t' d' = get_session body t' d'"
proof -
  have "fst (reads (begin_session t' d')) = Inr x"
    using depends [OF assms(2), of t t'] assms(1) by (simp add: phase_one_def)
  moreover have "snd (reads (begin_session t' d')) = begin_session t' d'" by (rule pure)
  ultimately have "reads (begin_session t' d') = (Inr x, begin_session t' d')" by (simp add: prod_eq_iff)
  then show ?thesis by (simp add: get_session_def phases bind_def)
qed

lemma serial_scope:
  assumes "phase_one reads t d = Inr x" and "unchanged d d'"
  shows "session_scope (writes x) t' d' = session_scope body t' d'"
proof -
  have "fst (reads (begin_session t' d')) = Inr x"
    using depends [OF assms(2), of t t'] assms(1) by (simp add: phase_one_def)
  then have "reads (begin_session t' d') = (Inr x, begin_session t' d')"
    using pure [of "begin_session t' d'"] by (simp add: prod_eq_iff)
  then show ?thesis by (simp add: session_scope_def phases bind_assoc bind_def)
qed

lemma refused:
  assumes "phase_one reads t d = Inl e"
  shows "get_session body t d = (Inl e, d)"
proof -
  have "reads (begin_session t d) = (Inl e, begin_session t d)"
    using assms pure [of "begin_session t d"] by (simp add: phase_one_def prod_eq_iff)
  then show ?thesis by (simp add: get_session_def phases bind_def)
qed

end

definition unstake_unchanged :: "string \<Rightarrow> db \<Rightarrow> db \<Rightarrow> bool" where
  "unstake_unchanged a d d' \<longleftrightarrow> get_staker d' a = get_staker d a \<and> watcher d' = watcher d"

definition cancel_unchanged :: "string \<Rightarrow> int \<Rightarrow> db \<Rightarrow> db \<Rightarrow> bool" where
  "cancel_unchanged a i d d' \<longleftrightarrow> unstake_unchanged a d d' \<and> get_request d' i = get_request d i"

interpretation unstake: two_phase "request_unstake_body a n" "unstake_reads a n" "unstake_writes a n"
  "unstake_unchanged a" for a n
proof
  show "request_unstake_body a n s = bind (unstake_reads a n) (unstake_writes a n) s" for s
    by (rule request_unstake_phases)
  show "snd (unstake_reads a n s) = s" for s
    by (simp add: unstake_reads_def bind_gets bind_current_height raise_exec return_exec split: option.split)
  show "phase_one (unstake_reads a n) t d = phase_one (unstake_reads a n) t' d'"
    if "unstake_unchanged a d d'" for d d' t t'
    using that by (simp add: unstake_unchanged_def phase_one_def unstake_reads_def bind_gets bind_current_height
        raise_exec return_exec split: option.split)
qed

interpretation cancel: two_phase "cancel_unstake_body a i" "cancel_reads a i" "cancel_writes i"
  "cancel_unchanged a i" for a i
proof
  show "cancel_unstake_body a i s = bind (cancel_reads a i) (cancel_writes i) s" for s
    by (rule cancel_unstake_phases)
  show "snd (cancel_reads a i s) = s" for s
    by (simp add: cancel_reads_def bind_raise_unless bind_gets bind_current_height raise_exec return_exec split: option.split)
  show "phase_one (cancel_reads a i) t d = phase_one (cancel_reads a i) t' d'"
    if "cancel_unchanged a i d d'" for d d' t t'
    using that by (simp add: cancel_unchanged_def unstake_unchanged_def phase_one_def cancel_reads_def bind_raise_unless bind_gets
        bind_current_height raise_exec return_exec split: option.split)
qed

text \<open>
  Interleavings that do no harm. Let a request to unstake, or to cancel, have read its rows, and
  let other sessions then change whatever they like but the account, the request, and the row of
  the watcher. What it then writes and answers is what it would have done running at that moment
  all at once; and when it was refused by what it read, nothing has changed.
\<close>

theorem undisturbed_handlers_serialize:
  "(phase_one (unstake_reads a n) t d = Inr x \<longrightarrow> unstake_unchanged a d d' \<longrightarrow>
      get_session (unstake_writes a n x) t' d' = get_session (request_unstake_body a n) t' d') \<and>
   (phase_one (cancel_reads a i) t d = Inr y \<longrightarrow> cancel_unchanged a i d d' \<longrightarrow>
      get_session (cancel_writes i y) t' d' = get_session (cancel_unstake_body a i) t' d') \<and>
   (phase_one (unstake_reads a n) t d = Inl e \<longrightarrow> get_session (request_unstake_body a n) t d = (Inl e, d)) \<and>
   (phase_one (cancel_reads a i) t d = Inl e \<longrightarrow> get_session (cancel_unstake_body a i) t d = (Inl e, d))"
  by (blast intro: unstake.serial cancel.serial unstake.refused cancel.refused)

text \<open>While the owner's request waits for its rows, an account is opened for somebody else.\<close>

lemma undisturbed_handlers_serialize_witness:
  "\<exists>d' v. d' \<noteq> ex_unlocked \<and> phase_one (cancel_reads ex_addr 1) 3000 ex_unlocked = Inr v \<and>
     get_session (cancel_writes 1 v) 3001 d' = get_session (cancel_unstake_body ex_addr 1) 3001 d'"
proof -
  let ?d = "ex_unlocked\<lparr>stakers := row_insert (new_staker ''NPCother'') (stakers ex_unlocked)\<rparr>"
    and ?v = "(ex_unstake READY, ex_staker 200, 10081)"
  have "phase_one (cancel_reads ex_addr 1) 3000 ex_unlocked = Inr ?v"
    using ex_cancellable
    by (auto simp: phase_one_def cancel_reads_def bind_raise_unless bind_gets bind_current_height raise_exec return_exec
        watcher_ready_def cancellable_def)
  moreover have "get_staker ex_unlocked ex_addr = Some (ex_staker 200)"
    using ex_cancellable by (simp add: cancellable_def)
  then have "cancel_unchanged ex_addr 1 ex_unlocked ?d"
    by (auto simp: cancel_unchanged_def unstake_unchanged_def get_staker_def get_request_def row_insert_def
        row_get_append)
  moreover have "?d \<noteq> ex_unlocked" by (auto simp: row_insert_def dest: arg_cong [of _ _ "\<lambda>d. length (stakers d)"])
  ultimately show ?thesis using undisturbed_handlers_serialize [where a = ex_addr and i = 1] by blast
qed

section \<open>What another session does in between is overwritten\<close>

lemma unstake_reads_iff:
  "phase_one (unstake_reads a n) t d = Inr (st, h) \<longleftrightarrow>
     get_staker d a = Some st \<and> n \<le> staked_amount st \<and> watcher_ready d h"
  by (auto simp: phase_one_def unstake_reads_def bind_gets bind_current_height raise_exec return_exec
      watcher_ready_def split: option.split)

lemma unstake_writes_run:
  assumes row: "get_staker d a = Some row" and st: "staker_address st = a" and n: "0 < n"
    and cols: "staker_columns (changed_columns st (set_stake (staked_amount st - n) h st) row)"
    and req: "request_columns (new_request a n h (h + unstake_cooldown_blocks) (next_request_id d))"
  obtains v where "get_session (unstake_writes a n (st, h)) t d =
    (Inr v, lock_unstake (changed_columns st (set_stake (staked_amount st - n) h st) row)
      (new_request a n h (h + unstake_cooldown_blocks) (next_request_id d)) d)"
  using assms that
  by (auto simp: get_session_def unstake_writes_def Let_def bind_flush_staker bind_insert_request bind_commit
      return_exec committed_rolled_back_same lock_unstake_def)

lemma locked_total_lock:
  assumes "request_address u = a" and "request_status u = PENDING"
  shows "locked_total a (lock_unstake row u d) = locked_total a d + request_amount u"
  using assms by (simp add: locked_total_def lock_unstake_def locked_amount_def)

text \<open>
  C27. A request to unstake overwrites what happened since it read the account. Let it read the
  account with a stake that covers the amount, and let other sessions commit whatever they like
  before it commits, as long as its values fit their columns. It succeeds, the amount is locked,
  and the stake is the one it had read less the amount: a deposit that was credited in between
  is lost, an amount that another request has locked in between stays staked.
\<close>

theorem stale_unstake_overwrites:
  assumes "phase_one (unstake_reads a n) t d = Inr (st, h)" and "0 < n"
    and "get_staker d' a = Some row"
    and "staker_columns (changed_columns st (set_stake (staked_amount st - n) h st) row)"
    and "request_columns (new_request a n h (h + unstake_cooldown_blocks) (next_request_id d'))"
  shows "case get_session (unstake_writes a n (st, h)) t' d' of (r, d'') \<Rightarrow>
    (\<exists>v. r = Inr v) \<and> stake_of a d'' = stake_of a d - n \<and> locked_total a d'' = locked_total a d' + n"
proof -
  let ?row = "changed_columns st (set_stake (staked_amount st - n) h st) row"
  let ?u = "new_request a n h (h + unstake_cooldown_blocks) (next_request_id d')"
  have st: "get_staker d a = Some st" using assms(1) by (simp add: unstake_reads_iff)
  have "staker_address st = a" using staker_table.get_key [OF st] .
  then obtain v where run: "get_session (unstake_writes a n (st, h)) t' d' = (Inr v, lock_unstake ?row ?u d')"
    by (rule unstake_writes_run [OF assms(3) _ assms(2,4,5)])
  have "staker_address ?row = a" using staker_table.get_key [OF assms(3)] by simp
  then have "get_staker (put_staker ?row d') a = Some ?row"
    using staker_table.get_put_same [of d' ?row row] assms(3) by simp
  then have "get_staker (lock_unstake ?row ?u d') a = Some ?row"
    by (simp add: lock_unstake_def get_staker_def)
  moreover have "staked_amount ?row = staked_amount st - n"
    using assms(2) by (simp add: changed_columns_def set_stake_def)
  ultimately have "stake_of a (lock_unstake ?row ?u d') = stake_of a d - n"
    using st by (simp add: stake_of_def)
  moreover have "locked_total a (lock_unstake ?row ?u d') = locked_total a d' + n"
    using locked_total_lock [of ?u a ?row d'] by (simp add: new_request_def)
  ultimately show ?thesis using run by simp
qed

text \<open>
  A cancellation overwrites likewise, and cancels a request whatever has become of it since: one
  whose refund a block has queued in between as well.
\<close>

lemma cancel_reads_iff:
  "phase_one (cancel_reads a i) t d = Inr (u, st, h) \<longleftrightarrow> cancellable d a i u st h"
  by (auto simp: phase_one_def cancel_reads_def bind_raise_unless bind_gets bind_current_height raise_exec return_exec
      watcher_ready_def cancellable_def split: option.split)

theorem stale_cancel_overwrites:
  assumes "phase_one (cancel_reads a i) t d = Inr (u, st, h)" and "request_amount u \<noteq> 0"
    and "get_staker d' a = Some row" and "get_request d' i = Some urow"
    and "staker_columns (changed_columns st (set_stake (staked_amount st + request_amount u) h st) row)"
    and "request_columns (changed_request u (cancelled_request h u) urow)"
  shows "case get_session (cancel_writes i (u, st, h)) t' d' of (r, d'') \<Rightarrow>
    (\<exists>v. r = Inr v) \<and> stake_of a d'' = stake_of a d + request_amount u \<and>
    (case get_request d'' i of None \<Rightarrow> False
     | Some u'' \<Rightarrow> request_status u'' = CANCELLED \<and> request_amount u'' = request_amount urow)"
proof -
  let ?row = "changed_columns st (set_stake (staked_amount st + request_amount u) h st) row"
  let ?urow = "changed_request u (cancelled_request h u) urow"
  let ?d = "put_request ?urow (put_staker ?row d')"
  from assms(1) have read: "get_staker d a = Some st" "get_request d i = Some u" "request_status u \<in> {PENDING, READY}"
    by (simp_all add: cancel_reads_iff cancellable_def)
  have key: "staker_address st = a" "staker_address ?row = a" "request_id u = i" "request_id ?urow = i"
    using staker_table.get_key [OF read(1)] staker_table.get_key [OF assms(3)] read(2) assms(4)
    by (simp_all add: get_request_def request_table.get_key changed_request_def)
  have "get_session (cancel_writes i (u, st, h)) t' d' = (Inr v, ?d)"
    if "v = \<lparr>cr_status = ''cancelled'', cr_request_id = i, cr_amount_restored = request_amount u,
         cr_amount_restored_npc = to_npc (request_amount u),
         cr_new_staked_amount = staked_amount st + request_amount u,
         cr_new_tier = tier_name (tier_for (staked_amount st + request_amount u))\<rparr>" for v
    using that assms(3-6) key
    by (simp add: get_session_def cancel_writes_def Let_def bind_flush_staker bind_flush_request bind_commit
        return_exec committed_rolled_back_same flip: cancelled_request_def)
  moreover have "get_staker ?d a = Some ?row"
    using staker_table.get_put_same [of d' ?row row] assms(3) key(2) by (simp add: get_staker_def put_request_def)
  moreover have "get_request ?d i = Some ?urow"
    using assms(4) key(4) by (simp add: get_request_def put_request_def row_get_put put_staker_def)
  moreover have "staked_amount ?row = staked_amount st + request_amount u"
    using assms(2) by (simp add: changed_columns_def set_stake_def)
  moreover have "request_status ?urow = CANCELLED" "request_amount ?urow = request_amount urow"
    using read(3) by (auto simp: changed_request_def cancelled_request_def)
  ultimately show ?thesis using read(1) by (simp add: stake_of_def)
qed

section \<open>More than the stake is locked\<close>

text \<open>Two requests for the whole stake of 300: both read, then both write.\<close>

definition ex_first :: db where
  "ex_first = snd (get_session (unstake_writes ex_addr 300 (ex_staker 300, 1)) 1000 ex_ready)"

lemma ex_ready_fields:
  "get_staker ex_ready ex_addr = Some (ex_staker 300)" "watcher_ready ex_ready 1" "next_request_id ex_ready = 1"
  "unstake_requests ex_ready = []" "stake_events ex_ready = [ex_event]"
  by (simp_all add: get_staker_def watcher_ready_def ex_states row_get_Cons) (simp_all add: ex_staker_def)

lemma ex_columns_unstaked:
  "staker_columns (changed_columns (ex_staker 300) (set_stake 0 1 (ex_staker 300)) (ex_staker k))"
  "request_columns (new_request ex_addr 300 1 (1 + unstake_cooldown_blocks) 1)"
  "request_columns (new_request ex_addr 300 1 (1 + unstake_cooldown_blocks) 2)"
  by (simp_all add: columns_defs changed_columns_def set_stake_def ex_staker_def ex_tier_none new_request_def
      varchar_def big_integer_def sql_integer_def length_ex_addr unstake_cooldown_blocks_def)

lemma ex_first_run:
  "\<exists>v. get_session (unstake_writes ex_addr 300 (ex_staker 300, 1)) 1000 ex_ready =
     (Inr v, lock_unstake (ex_staker 0) (new_request ex_addr 300 1 (1 + unstake_cooldown_blocks) 1) ex_ready)"
proof -
  have "changed_columns (ex_staker 300) (set_stake 0 1 (ex_staker 300)) (ex_staker 300) = ex_staker 0"
    "staker_address (ex_staker 300) = ex_addr"
    by (simp_all add: changed_columns_def set_stake_def ex_staker_def ex_tier_none)
  then show ?thesis
    using unstake_writes_run [OF ex_ready_fields(1), of "ex_staker 300" 300 1 1000]
      ex_columns_unstaked(1) [of 300] ex_columns_unstaked(2) ex_ready_fields(3) by auto
qed

lemma ex_first_eq:
  "ex_first = lock_unstake (ex_staker 0) (new_request ex_addr 300 1 (1 + unstake_cooldown_blocks) 1) ex_ready"
  using ex_first_run by (auto simp: ex_first_def)

lemma ex_first_fields:
  "get_staker ex_first ex_addr = Some (ex_staker 0)" "next_request_id ex_first = 2"
  "locked_total ex_addr ex_first = 300" "stake_events ex_first = [ex_event]"
proof -
  let ?u = "new_request ex_addr 300 1 (1 + unstake_cooldown_blocks) 1"
  note first = ex_first_eq
  have "get_staker (put_staker (ex_staker 0) ex_ready) ex_addr = Some (ex_staker 0)"
    using staker_table.get_put_same [of ex_ready "ex_staker 0" "ex_staker 300"] ex_ready_fields(1)
    by (simp add: ex_staker_def)
  then show "get_staker ex_first ex_addr = Some (ex_staker 0)"
    by (simp add: first lock_unstake_def get_staker_def)
  show "next_request_id ex_first = 2" "stake_events ex_first = [ex_event]"
    by (simp_all add: first lock_unstake_def ex_ready_fields)
  show "locked_total ex_addr ex_first = 300"
    using locked_total_lock [of ?u ex_addr "ex_staker 0" ex_ready]
    by (simp add: first new_request_def locked_total_def ex_ready_fields)
qed

lemma stale_unstake_overwrites_witness:
  "stake_of ex_addr ex_ready = 300 \<and> locked_total ex_addr ex_first = 300 \<and>
   (case get_session (unstake_writes ex_addr 300 (ex_staker 300, 1)) 2000 ex_first of (r, d'') \<Rightarrow>
      stake_of ex_addr d'' = 0 \<and> locked_total ex_addr d'' = 600)"
proof -
  have reads: "phase_one (unstake_reads ex_addr 300) 1000 ex_ready = Inr (ex_staker 300, 1)"
    using ex_ready_fields by (simp add: unstake_reads_iff)
  have stake: "stake_of ex_addr ex_ready = 300" by (simp add: stake_of_def ex_ready_fields)
  have "case get_session (unstake_writes ex_addr 300 (ex_staker 300, 1)) 2000 ex_first of (r, d'') \<Rightarrow>
      (\<exists>v. r = Inr v) \<and> stake_of ex_addr d'' = stake_of ex_addr ex_ready - 300 \<and>
      locked_total ex_addr d'' = locked_total ex_addr ex_first + 300"
    by (rule stale_unstake_overwrites [OF reads _ ex_first_fields(1)])
      (use ex_columns_unstaked ex_first_fields(2) in simp_all)
  then show ?thesis using stake ex_first_fields(3) by (auto split: prod.splits)
qed

text \<open>
  Stake is not conserved between concurrent requests. There is a reachable state in which an
  address has 300 staked and two requests of its owner for all of it, both of which read the
  account before either commits, both succeed: 600 are then locked for refunds, while only 300 were
  ever staked.
\<close>

theorem concurrent_unstakes_overdraw:
  "\<exists>s a st h v1 v2 d1 d2. reachable s \<and> event_total ''STAKE'' a (database s) = 300 \<and>
     phase_one (unstake_reads a 300) 1000 (database s) = Inr (st, h) \<and>
     get_session (unstake_writes a 300 (st, h)) 1000 (database s) = (Inr v1, d1) \<and>
     get_session (unstake_writes a 300 (st, h)) 1000 d1 = (Inr v2, d2) \<and>
     event_total ''STAKE'' a d2 = 300 \<and> locked_total a d2 = 600"
proof -
  let ?w = "unstake_writes ex_addr 300 (ex_staker 300, 1)"
  have addr: "staker_address (ex_staker 300) = ex_addr" by (simp add: ex_staker_def)
  have reads: "phase_one (unstake_reads ex_addr 300) 1000 ex_ready = Inr (ex_staker 300, 1)"
    using ex_ready_fields by (simp add: unstake_reads_iff)
  obtain v1 where 1: "get_session ?w 1000 ex_ready = (Inr v1, ex_first)"
    using ex_first_run ex_first_eq by auto
  let ?row = "changed_columns (ex_staker 300) (set_stake 0 1 (ex_staker 300)) (ex_staker 0)"
  let ?u = "new_request ex_addr 300 1 (1 + unstake_cooldown_blocks) 2"
  obtain v2 where 2: "get_session ?w 1000 ex_first = (Inr v2, lock_unstake ?row ?u ex_first)"
    using unstake_writes_run [OF ex_first_fields(1) addr, of 300 1 1000] ex_columns_unstaked ex_first_fields(2) by auto
  have "locked_total ex_addr (lock_unstake ?row ?u ex_first) = 600"
    using locked_total_lock [of ?u ex_addr ?row ex_first] ex_first_fields(3) by (simp add: new_request_def)
  moreover have "event_total ''STAKE'' ex_addr (lock_unstake ?row ?u ex_first) = 300"
    "event_total ''STAKE'' ex_addr ex_ready = 300"
    by (simp_all add: event_total_def lock_unstake_def ex_first_fields ex_ready_fields) (simp_all add: ex_event_def)
  ultimately show ?thesis
    using reads 1 2 ex_reachable_ready
    by (intro exI [of _ "\<lparr>nonces = Map.empty, database = ex_ready\<rparr>"] exI [of _ ex_addr] exI [of _ "ex_staker 300"]
        exI [of _ 1] exI [of _ v1] exI [of _ v2] exI [of _ ex_first] exI [of _ "lock_unstake ?row ?u ex_first"]) simp
qed

end
