(* ===== verification/Deposits.thy ===== *)
theory Deposits
  imports Interleaving
begin

text \<open>
  A deposit and a signed request at once. The watcher loads the account in \<open>_get_or_create_staker\<close>,
  awaits the flush of the event, and adds the deposit to the stake that it loaded; the request may
  have committed in between. This theory cuts the stake case of \<open>_apply_single_tx\<close> after the load.
\<close>

section \<open>The deposit in two phases\<close>

definition credit_reads :: "string \<Rightarrow> (session, Staker option) exec" where
  "credit_reads a = gets (\<lambda>s. get_staker (working s) a)"

text \<open>The row found, or none; then the new row is inserted at once, and the event after it.\<close>

definition credit_writes :: "string \<Rightarrow> int \<Rightarrow> int \<Rightarrow> json \<Rightarrow> string \<Rightarrow> Staker option \<Rightarrow> (session, unit) exec" where
  "credit_writes a n height tx_hash memo found =
     bind (case found of
             Some staker \<Rightarrow> return staker
           | None \<Rightarrow> andthen (insert_staker (new_staker a)) (return (new_staker a))) (\<lambda>staker.
     bind (record_event a ''STAKE'' n height tx_hash memo) (\<lambda>inserted.
       if inserted then flush_staker staker (staker_credit n height staker) else return ()))"

lemma staker_credit_address [simp]: "staker_address (staker_credit n h st) = staker_address st"
  by (simp add: staker_credit_def refresh_tier_cache_def)

text \<open>The event's flush leaves the account alone, so the row that is flushed is the one loaded.\<close>

lemma credit_after_event:
  assumes "get_staker (working s) a = Some st"
  shows "bind (record_event a ''STAKE'' n h tx_hash memo)
      (\<lambda>inserted. if inserted then flush_staker st (staker_credit n h st) else return ()) s =
    bind (record_event a ''STAKE'' n h tx_hash memo)
      (\<lambda>inserted. if inserted then write_staker (staker_credit n h st) else return ()) s"
proof -
  obtain r s' where run: "record_event a ''STAKE'' n h tx_hash memo s = (r, s')" by fastforce
  have address: "staker_address st = a" using staker_table.get_key [OF assms] .
  from run show ?thesis
  proof (cases rule: record_event_cases)
    case (new x e)
    then have "get_staker (working s') (staker_address st) = Some st"
      using assms address by (simp add: get_staker_def)
    then have "flush_staker st (staker_credit n h st) s' = write_staker (staker_credit n h st) s'"
      by (simp add: flush_staker_def bind_gets changed_columns_loaded)
    with run new show ?thesis by (simp add: bind_def)
  qed (simp_all add: run bind_def)
qed

lemma apply_stake_phases:
  "apply_stake_event ''STAKE'' (staker_credit n h) (JStr a) n h tx_hash memo s =
     bind (credit_reads a) (credit_writes a n h tx_hash memo) s"
proof (cases "get_staker (working s) a")
  case None
  let ?s = "s\<lparr>working := (working s)\<lparr>stakers := row_insert (new_staker a) (stakers (working s))\<rparr>\<rparr>"
  have "get_staker (working ?s) a = Some (new_staker a)"
    using None by (simp add: get_staker_def row_get_insert)
  from credit_after_event [OF this, of n h tx_hash memo] show ?thesis
    using None
    by (simp add: apply_stake_event_def credit_reads_def credit_writes_def bind_lift bind_gets
        bind_assoc get_or_create_staker_def)
      (simp add: bind_def insert_staker_run)
next
  case (Some st)
  with credit_after_event [OF Some, of n h tx_hash memo] show ?thesis
    by (simp add: apply_stake_event_def credit_reads_def credit_writes_def bind_lift bind_gets
        bind_assoc get_or_create_staker_def)
qed

interpretation deposit: two_phase
  "apply_stake_event ''STAKE'' (staker_credit n h) (JStr a) n h tx_hash memo" "credit_reads a"
  "credit_writes a n h tx_hash memo" "\<lambda>d d'. get_staker d' a = get_staker d a" for a n h tx_hash memo
proof
  show "apply_stake_event ''STAKE'' (staker_credit n h) (JStr a) n h tx_hash memo s =
      bind (credit_reads a) (credit_writes a n h tx_hash memo) s" for s
    by (rule apply_stake_phases)
qed (simp_all add: credit_reads_def phase_one_def gets_exec)

text \<open>A deposit into an account that nobody else touches meanwhile is the one of the ledger.\<close>

lemma undisturbed_deposit:
  "get_staker d' a = get_staker d a \<Longrightarrow>
   session_scope (credit_writes a n h tx_hash memo (get_staker d a)) t d' =
   session_scope (apply_stake_event ''STAKE'' (staker_credit n h) (JStr a) n h tx_hash memo) t d'"
  by (rule deposit.serial_scope) (simp_all add: phase_one_def credit_reads_def gets_exec)

section \<open>What is locked in between stays staked\<close>

text \<open>
  C28. A deposit overwrites what happened since its account was loaded. Let the account have been
  loaded, and let other sessions commit whatever they like before the event is flushed, as long as
  the event is new and the values fit. The stake becomes the one that was loaded plus the deposit,
  and what a request to unstake has locked in between is locked still: it is staked and on its way
  out at once.
\<close>

theorem stale_deposit_overwrites:
  assumes "phase_one (credit_reads a) t d = Inr (Some st)" and "0 < n"
    and "get_staker d' a = Some row"
    and "e = \<lparr>event_address = a, event_type = ''STAKE'', event_amount = n, event_block_height = h,
           event_tx_hash = Some x, event_note = Some memo\<rparr>"
    and "event_columns e" and "\<not> event_clash e d'"
    and "staker_columns (changed_columns st (staker_credit n h st) row)"
  shows "case session_scope (credit_writes a n h (JStr x) memo (Some st)) t' d' of (r, d'') \<Rightarrow>
    r = Inr () \<and> stake_of a d'' = stake_of a d + n \<and> locked_total a d'' = locked_total a d' \<and>
    event_total ''STAKE'' a d'' = event_total ''STAKE'' a d' + n"
proof -
  let ?row = "changed_columns st (staker_credit n h st) row"
  let ?d = "put_staker ?row (d'\<lparr>stake_events := row_insert e (stake_events d')\<rparr>)"
  have st: "get_staker d a = Some st" using assms(1) by (simp add: phase_one_def credit_reads_def gets_exec)
  have key: "staker_address st = a" "staker_address ?row = a"
    using staker_table.get_key [OF st] staker_table.get_key [OF assms(3)] by simp_all
  have found: "get_staker (d'\<lparr>stake_events := es\<rparr>) a = Some row" for es
    using assms(3) by (simp add: get_staker_def)
  have "session_scope (credit_writes a n h (JStr x) memo (Some st)) t' d' = (Inr (), ?d)"
    using assms(4-7) key found
    by (simp add: session_scope_def credit_writes_def record_event_run
        flush_staker_def gets_exec write_staker_run commit_run return_exec Let_def bind_def)
  moreover have "get_staker ?d a = Some ?row"
    using staker_table.get_put_same [of _ ?row row] found key(2) by simp
  moreover have "staked_amount ?row = staked_amount st + n"
    using assms(2) by (simp add: changed_columns_def staker_credit_def refresh_tier_cache_def)
  moreover have "event_total ''STAKE'' a ?d = event_total ''STAKE'' a d' + n"
    by (simp add: event_total_def put_staker_def assms(4))
  moreover have "locked_total a ?d = locked_total a d'" by (simp add: locked_total_def put_staker_def)
  ultimately show ?thesis using st by (simp add: stake_of_def)
qed

text \<open>
  A request for the whole stake of 300 is answered while a deposit of 50 is between its load and
  its event: afterwards 350 are staked and 300 locked, and 350 were ever deposited.
\<close>

lemma stale_deposit_overwrites_witness:
  "locked_total ex_addr ex_first = 300 \<and>
   (case session_scope (credit_writes ex_addr 50 2 (JStr ''hash-50'') ''transfer_to_escrow'' (Some (ex_staker 300)))
       1000 ex_first of (r, d) \<Rightarrow>
     stake_of ex_addr d = 350 \<and> locked_total ex_addr d = 300 \<and> event_total ''STAKE'' ex_addr d = 350)"
proof -
  let ?e = "\<lparr>event_address = ex_addr, event_type = ''STAKE'', event_amount = 50, event_block_height = 2,
      event_tx_hash = Some ''hash-50'', event_note = Some ''transfer_to_escrow''\<rparr>"
  have load: "phase_one (credit_reads ex_addr) 1000 ex_ready = Inr (Some (ex_staker 300))"
    using ex_ready_fields(1) by (simp add: phase_one_def credit_reads_def gets_exec)
  have "event_columns ?e" by (simp add: columns_defs varchar_def big_integer_def sql_integer_def length_ex_addr)
  moreover have "\<not> event_clash ?e ex_first"
    by (simp add: event_clash_def event_key_def ex_first_fields) (simp add: ex_event_def)
  moreover have "staker_columns (changed_columns (ex_staker 300) (staker_credit 50 2 (ex_staker 300)) (ex_staker 0))"
    by (simp add: columns_defs changed_columns_def staker_credit_def refresh_tier_cache_def ex_staker_def
        ex_tier_none varchar_def big_integer_def sql_integer_def length_ex_addr)
  ultimately have "case session_scope (credit_writes ex_addr 50 2 (JStr ''hash-50'') ''transfer_to_escrow''
      (Some (ex_staker 300))) 1000 ex_first of (r, d) \<Rightarrow> r = Inr () \<and> stake_of ex_addr d = stake_of ex_addr ex_ready + 50 \<and>
      locked_total ex_addr d = locked_total ex_addr ex_first \<and>
      event_total ''STAKE'' ex_addr d = event_total ''STAKE'' ex_addr ex_first + 50"
    by (intro stale_deposit_overwrites [OF load _ ex_first_fields(1) refl]) simp_all
  moreover have "stake_of ex_addr ex_ready = 300" by (simp add: stake_of_def ex_ready_fields)
  moreover have "event_total ''STAKE'' ex_addr ex_first = 300"
    by (simp add: event_total_def ex_first_fields) (simp add: ex_event_def)
  ultimately show ?thesis using ex_first_fields(3) by (auto split: prod.splits)
qed

end
