(* ===== verification/KeyGen.thy ===== *)
theory KeyGen
  imports Example
begin

text \<open>
  \<open>native/pool_keygen.cpp\<close>, the tool that makes the pool's key, and the way of its file into the
  service: \<open>openssl enc\<close> encrypts it (\<open>signing/pool_key.py\<close> says with which options), and
  \<open>load\<close> decrypts and checks it.
\<close>

section \<open>The tool\<close>

text \<open>
  The files of the host, which of them can be opened for reading and for writing, and how many
  bytes of a file the disk takes: the tool does not look at what \<open>fwrite\<close> and \<open>fclose\<close> return.
\<close>

record host =
  files :: "string \<Rightarrow> bytes option"
  readable :: "string \<Rightarrow> bool"
  writable :: "string \<Rightarrow> bool"
  space :: nat

text \<open>The exit code, the address that is printed on success, and the host after it.\<close>

definition pool_keygen :: "crypto \<Rightarrow> nat \<Rightarrow> string list \<Rightarrow> host \<Rightarrow> (int \<times> string option) \<times> host" where
  "pool_keygen c seed argv h =
     (if length argv \<noteq> 2 then ((1, None), h)
      else
        let path = argv ! 1
        in if files h path \<noteq> None \<and> readable h path then ((1, None), h)
           else case npc_dil3_keygen c seed PK_SIZE SK_SIZE of
               None \<Rightarrow> ((1, None), h)
             | Some (pk, sk) \<Rightarrow>
                 (case npc_dil3_derive_address c pk 48 of
                    None \<Rightarrow> ((1, None), h)
                  | Some addr \<Rightarrow>
                      if \<not> writable h path then ((1, None), h)
                      else ((0, Some addr), h\<lparr>files := (files h)(path \<mapsto> take (space h) (pk @ sk))\<rparr>)))"

section \<open>From the tool to the service\<close>

text \<open>
  \<open>openssl enc -aes-256-cbc -salt -pbkdf2\<close> with the salt it has drawn. The cipher and the padding
  are arguments; \<open>cipher_laws\<close> is what is documented of them: PBKDF2 gives as many bytes as it is
  asked for, PKCS7 pads to whole blocks of 16 bytes and can be undone, and AES-256 in CBC mode
  decrypts what it encrypted under a key of 32 bytes and an IV of 16, for a plaintext of whole blocks.
  Of other sizes nothing is assumed.
\<close>

record encryption =
  cbc_encrypt :: "bytes \<Rightarrow> bytes \<Rightarrow> bytes \<Rightarrow> bytes"
  pkcs7_pad :: "bytes \<Rightarrow> bytes"

definition cipher_laws :: "encryption \<Rightarrow> decryption \<Rightarrow> bool" where
  "cipher_laws enc dec \<longleftrightarrow>
     (\<forall>passphrase salt. length (kdf dec passphrase salt) = 48) \<and>
     (\<forall>m. 16 dvd length (pkcs7_pad enc m) \<and> unpad dec (pkcs7_pad enc m) = Inr m) \<and>
     (\<forall>key iv m. length key = 32 \<longrightarrow> length iv = 16 \<longrightarrow> 16 dvd length m \<longrightarrow>
        cbc_decrypt dec key iv (cbc_encrypt enc key iv m) = Inr m)"

definition openssl_enc :: "encryption \<Rightarrow> decryption \<Rightarrow> bytes \<Rightarrow> string \<Rightarrow> bytes \<Rightarrow> bytes" where
  "openssl_enc enc dec salt passphrase plain =
     (let dk = kdf dec passphrase salt
      in map char_byte ''Salted__'' @ salt @
           cbc_encrypt enc (take 32 dk) (take 16 (drop 32 dk)) (pkcs7_pad enc plain))"

lemma decrypt_openssl_enc:
  assumes "cipher_laws enc dec" and "length salt = 8"
  shows "decrypt_openssl_cbc_pbkdf2 dec (openssl_enc enc dec salt passphrase plain) passphrase = Inr plain"
  using assms by (simp add: decrypt_openssl_cbc_pbkdf2_def openssl_enc_def cipher_laws_def Let_def rbind_def)

text \<open>What loading from a file with a known plaintext does, with nothing cached.\<close>

lemma load_key_plaintext:
  assumes "decrypt_openssl_cbc_pbkdf2 dec file passphrase = Inr kb" and "passphrase \<noteq> []"
  shows "load_key c dec (Some passphrase) (Some file) None =
    (if length kb \<noteq> PK_SIZE + SK_SIZE then
       (Inl (PoolKeyError (''unexpected plaintext size '' @ nat_str (length kb))), None)
     else case derive_address c (take PK_SIZE kb) of
         Inl e \<Rightarrow> (Inl e, None)
       | Inr a \<Rightarrow>
           if a \<noteq> pool_address then
             (Inl (PoolKeyError (''derived address '' @ a @ '' does not match settings.pool_address'')), None)
           else let key = \<lparr>key_address = a, public_key = take PK_SIZE kb, secret_key = drop PK_SIZE kb\<rparr>
                in (Inr key, Some key))"
  using assms
  by (simp add: load_key_def bind_def gets_exec lift_exec return_exec raise_exec modify_exec Let_def
      split: sum.split)

lemma pool_keygen_success:
  assumes "pool_keygen c seed [prog, path] h = ((0, Some addr), h')" and "signature_scheme c"
  obtains pk sk where "keygen c seed = Inr (pk, sk)" "length pk = PK_SIZE" "length sk = SK_SIZE"
    "derive_address c pk = Inr addr" "files h' path = Some (take (space h) (pk @ sk))"
  using assms that
  by (auto simp: pool_keygen_def Let_def npc_dil3_keygen_def keygen_def signature_scheme_def derive_address_def
      split: if_splits option.splits)

text \<open>
  C38. The key file round trip. Let the tool succeed and print an address, and let the file it left
  be encrypted with \<open>openssl enc\<close>. If the disk took all of it, and the printed address is the
  pool's, the service loads the key from it: the pair that was generated, under that address, and
  what it signs verifies under the pair's public key. In every other case, a file cut
  short by a full disk included, which the tool does not report, the service refuses it.
\<close>

theorem key_file_round_trip:
  assumes "pool_keygen c seed [prog, path] h = ((0, Some addr), h')" and "signature_scheme c"
    and "cipher_laws enc dec" and "length salt = 8" and "passphrase \<noteq> []"
  shows "\<exists>pk sk plain. keygen c seed = Inr (pk, sk) \<and> files h' path = Some plain \<and>
    (case load_key c dec (Some passphrase) (Some (openssl_enc enc dec salt passphrase plain)) None of
       (Inr key, cache) \<Rightarrow> addr = pool_address \<and> PK_SIZE + SK_SIZE \<le> space h \<and> cache = Some key \<and>
         key = \<lparr>key_address = addr, public_key = pk, secret_key = sk\<rparr> \<and>
         (\<forall>msg sig. pool_key_sign c key msg = Inr sig \<longrightarrow> verify c msg sig (public_key key))
     | (Inl e, cache) \<Rightarrow> (addr \<noteq> pool_address \<or> space h < PK_SIZE + SK_SIZE) \<and> cache = None)"
proof -
  from pool_keygen_success [OF assms(1,2)] obtain pk sk where gen: "keygen c seed = Inr (pk, sk)"
    "length pk = PK_SIZE" "length sk = SK_SIZE" "derive_address c pk = Inr addr"
    "files h' path = Some (take (space h) (pk @ sk))" by blast
  define plain where "plain = take (space h) (pk @ sk)"
  note load = load_key_plaintext [OF decrypt_openssl_enc [OF assms(3,4)] assms(5), of c plain]
  have signs: "\<forall>msg sig. pool_key_sign c \<lparr>key_address = addr, public_key = pk, secret_key = sk\<rparr> msg = Inr sig \<longrightarrow>
      verify c msg sig pk"
    using keygen_sign_verify(1) [OF assms(2) gen(1)] by (simp add: pool_key_sign_def)
  have "case load_key c dec (Some passphrase) (Some (openssl_enc enc dec salt passphrase plain)) None of
       (Inr key, cache) \<Rightarrow> addr = pool_address \<and> PK_SIZE + SK_SIZE \<le> space h \<and> cache = Some key \<and>
         key = \<lparr>key_address = addr, public_key = pk, secret_key = sk\<rparr> \<and>
         (\<forall>msg sig. pool_key_sign c key msg = Inr sig \<longrightarrow> verify c msg sig (public_key key))
     | (Inl e, cache) \<Rightarrow> (addr \<noteq> pool_address \<or> space h < PK_SIZE + SK_SIZE) \<and> cache = None"
  proof (cases "PK_SIZE + SK_SIZE \<le> space h")
    case True
    then have "plain = pk @ sk" using gen(2,3) by (simp add: plain_def)
    with True gen(2-4) signs show ?thesis unfolding load by (simp add: Let_def)
  next
    case False
    then have "length plain \<noteq> PK_SIZE + SK_SIZE" by (simp add: plain_def)
    with False show ?thesis by (simp add: load)
  qed
  then show ?thesis using gen(1) gen(5) [folded plain_def] by (intro exI conjI)
qed

text \<open>
  An instance of the laws: the PKCS7 padding, and the CBC mode of a block cipher that reverses a block
  and adds the key to it. As the library does, its decryption raises on other sizes.
\<close>

unbundle bit_operations_syntax

definition xor_bytes :: "bytes \<Rightarrow> bytes \<Rightarrow> bytes" where
  "xor_bytes = map2 (\<lambda>x y. x XOR y)"

lemma length_xor_bytes [simp]: "length (xor_bytes xs ys) = min (length xs) (length ys)"
  by (simp add: xor_bytes_def)

lemma xor_bytes_twice: "length ys = length xs \<Longrightarrow> xor_bytes xs (xor_bytes xs ys) = ys"
  by (rule nth_equalityI) (simp_all add: xor_bytes_def flip: xor.assoc)

function cbc_blocks :: "(bytes \<Rightarrow> bytes) \<Rightarrow> bytes \<Rightarrow> bytes \<Rightarrow> bytes" where
  "cbc_blocks e iv m =
     (if length m < 16 then []
      else e (xor_bytes iv (take 16 m)) @ cbc_blocks e (e (xor_bytes iv (take 16 m))) (drop 16 m))"
  by auto
termination by (relation "measure (\<lambda>(e, iv, m). length m)") auto

function cbc_unblocks :: "(bytes \<Rightarrow> bytes) \<Rightarrow> bytes \<Rightarrow> bytes \<Rightarrow> bytes" where
  "cbc_unblocks d iv ct =
     (if length ct < 16 then []
      else xor_bytes iv (d (take 16 ct)) @ cbc_unblocks d (take 16 ct) (drop 16 ct))"
  by auto
termination by (relation "measure (\<lambda>(d, iv, ct). length ct)") auto

declare cbc_blocks.simps [simp del] cbc_unblocks.simps [simp del]

lemma cbc_round_trip:
  assumes block: "\<And>b. length b = 16 \<Longrightarrow> length (e b) = 16 \<and> d (e b) = b"
    and "16 dvd length m" and "length iv = 16"
  shows "cbc_unblocks d iv (cbc_blocks e iv m) = m \<and> 16 dvd length (cbc_blocks e iv m)"
  using assms(2,3)
proof (induction "length m" arbitrary: m iv rule: less_induct)
  case less
  show ?case
  proof (cases "length m < 16")
    case True
    with less.prems(1) have "m = []" by (auto dest: dvd_imp_le)
    then show ?thesis by (simp add: cbc_blocks.simps cbc_unblocks.simps)
  next
    case False
    define c where "c = e (xor_bytes iv (take 16 m))"
    have c: "length c = 16" "xor_bytes iv (d c) = take 16 m"
      using block [of "xor_bytes iv (take 16 m)"] False less.prems(2) by (simp_all add: c_def xor_bytes_twice)
    have step: "cbc_blocks e iv m = c @ cbc_blocks e c (drop 16 m)"
      using False unfolding c_def by (subst cbc_blocks.simps) simp
    have rest: "cbc_unblocks d c (cbc_blocks e c (drop 16 m)) = drop 16 m \<and>
        16 dvd length (cbc_blocks e c (drop 16 m))"
      using less.hyps [of "drop 16 m" c] less.prems(1) False c(1) by (auto intro: dvd_diff_nat)
    with c have "cbc_unblocks d iv (c @ cbc_blocks e c (drop 16 m)) = take 16 m @ drop 16 m"
      by (subst cbc_unblocks.simps) simp
    with step rest c(1) show ?thesis by simp
  qed
qed

definition ex_encryption :: encryption where
  "ex_encryption = \<lparr>cbc_encrypt = (\<lambda>key. cbc_blocks (\<lambda>b. xor_bytes (take 16 key) (rev b))),
     pkcs7_pad = (\<lambda>m. m @ replicate (16 - length m mod 16) (of_nat (16 - length m mod 16)))\<rparr>"

definition ex_cipher :: decryption where
  "ex_cipher = \<lparr>kdf = (\<lambda>passphrase salt. take 48 (map char_byte passphrase @ salt @ replicate 48 42)),
     cbc_decrypt = (\<lambda>key iv ct.
       if length key \<noteq> 32 \<or> length iv \<noteq> 16 \<or> \<not> 16 dvd length ct then Inl (ValueError ''invalid size'')
       else Inr (cbc_unblocks (\<lambda>b. rev (xor_bytes (take 16 key) b)) iv ct)),
     unpad = (\<lambda>m. let k = unat (last m) in
       if m = [] \<or> \<not> 16 dvd length m \<or> k < 1 \<or> 16 < k \<or> drop (length m - k) m \<noteq> replicate k (last m) then
         Inl (ValueError ''invalid padding'')
       else Inr (take (length m - k) m))\<rparr>"

lemma ex_pad_round_trip:
  "16 dvd length (pkcs7_pad ex_encryption m)" "unpad ex_cipher (pkcs7_pad ex_encryption m) = Inr m"
proof -
  define k where "k = 16 - length m mod 16"
  have k: "1 \<le> k" "k \<le> 16" by (simp_all add: k_def Suc_le_eq)
  have pad: "pkcs7_pad ex_encryption m = m @ replicate k (of_nat k)" by (simp add: ex_encryption_def k_def)
  have "length m + k = 16 * (length m div 16 + 1)"
    unfolding k_def by presburger
  then have dvd: "16 dvd length m + k" by simp
  then show "16 dvd length (pkcs7_pad ex_encryption m)" by (simp add: pad)
  have "last (m @ replicate k (of_nat k)) = (of_nat k :: byte)" using k by simp
  moreover have "unat (of_nat k :: byte) = k" using k by (simp add: unat_of_nat)
  ultimately show "unpad ex_cipher (pkcs7_pad ex_encryption m) = Inr m"
    using k dvd unfolding pad by (simp add: ex_cipher_def Let_def)
qed

lemma ex_cipher_laws: "cipher_laws ex_encryption ex_cipher"
proof -
  have "cbc_decrypt ex_cipher key iv (cbc_encrypt ex_encryption key iv m) = Inr m"
    if "length key = 32" "length iv = 16" "16 dvd length m" for key iv m
    using that cbc_round_trip [of "\<lambda>b. xor_bytes (take 16 key) (rev b)" "\<lambda>b. rev (xor_bytes (take 16 key) b)" m iv]
    by (simp add: ex_cipher_def ex_encryption_def xor_bytes_twice)
  moreover have "length (kdf ex_cipher passphrase salt) = 48" for passphrase salt by (simp add: ex_cipher_def)
  ultimately show ?thesis using ex_pad_round_trip unfolding cipher_laws_def by simp
qed

text \<open>A key for the pool's address, made on a disk with room for it.\<close>

definition ex_host :: host where
  "ex_host = \<lparr>files = Map.empty, readable = (\<lambda>_. True), writable = (\<lambda>_. True), space = 10000\<rparr>"

lemma key_file_round_trip_witness:
  "\<exists>h' plain. pool_keygen ex_crypto 1 [''pool_keygen'', ''pool.key''] ex_host = ((0, Some pool_address), h') \<and>
     files h' ''pool.key'' = Some plain \<and>
     fst (load_key ex_crypto ex_cipher (Some ''pass'')
       (Some (openssl_enc ex_encryption ex_cipher (replicate 8 7) ''pass'' plain)) None) =
       Inr ex_key"
proof -
  have scheme: "signature_scheme ex_crypto" by (simp add: signature_scheme_def ex_crypto_def dilithium_sizes)
  have derived: "npc_dil3_derive_address ex_crypto ex_pool_pk 48 = Some pool_address"
    using ex_pool_derived by (simp add: npc_dil3_derive_address_def dilithium_sizes)
  have pair: "ref_keypair ex_crypto 1 = Some (ex_pool_pk, replicate 4032 0)" by (simp add: ex_crypto_def)
  obtain h' where run: "pool_keygen ex_crypto 1 [''pool_keygen'', ''pool.key''] ex_host = ((0, Some pool_address), h')"
    using derived pair by (simp add: pool_keygen_def npc_dil3_keygen_def ex_host_def)
  from key_file_round_trip [OF run scheme ex_cipher_laws, of "replicate 8 7" "''pass''"] obtain pk sk plain where
    gen: "keygen ex_crypto 1 = Inr (pk, sk)" and stored: "files h' ''pool.key'' = Some plain"
    and load: "case load_key ex_crypto ex_cipher (Some ''pass'')
        (Some (openssl_enc ex_encryption ex_cipher (replicate 8 7) ''pass'' plain)) None of
       (Inr key, cache) \<Rightarrow> pool_address = pool_address \<and> PK_SIZE + SK_SIZE \<le> space ex_host \<and> cache = Some key \<and>
         key = \<lparr>key_address = pool_address, public_key = pk, secret_key = sk\<rparr> \<and>
         (\<forall>msg sig. pool_key_sign ex_crypto key msg = Inr sig \<longrightarrow> verify ex_crypto msg sig (public_key key))
     | (Inl e, cache) \<Rightarrow> (pool_address \<noteq> pool_address \<or> space ex_host < PK_SIZE + SK_SIZE) \<and> cache = None"
    by auto
  have "pk = ex_pool_pk" "sk = replicate 4032 0"
    using gen pair by (simp_all add: keygen_def npc_dil3_keygen_def dilithium_sizes)
  with load have "fst (load_key ex_crypto ex_cipher (Some ''pass'')
      (Some (openssl_enc ex_encryption ex_cipher (replicate 8 7) ''pass'' plain)) None) = Inr ex_key"
    by (auto simp: ex_host_def dilithium_sizes ex_key_def split: prod.splits sum.splits)
  with run stored show ?thesis by blast
qed

end
