(* ===== verification/Spec2Isabelle.thy ===== *)
theory Spec2Isabelle
  imports Rewards Walks Schema Smoke Crashes Retries App Deposits KeyGen
begin

text \<open>
  The NPChain staking service (Python, FastAPI with SQLAlchemy, \<open>src/\<close>) follows a chain by polling
  its node, keeps the accounts of stakers in a PostgreSQL database, answers signed requests to
  unstake, and pays refunds with transfers that it signs with the hot key of the pool. This
  development models it as a shallow embedding: every function is a HOL function with the
  source's name, in the order and with the branches of the source.

  \<^bold>\<open>Parts and how they interact.\<close> Four loops share one database. The snapshot and then the watcher
  (\<open>chain/\<close>) fetch blocks with the client and hand their transactions to the ledger
  (\<open>staking/ledger.py\<close>), which credits and debits stakers and divides inflows of the rewards
  pool. The endpoints (\<open>api/\<close>) authenticate a request (\<open>staking/auth.py\<close>) and create or cancel
  unstake requests. The runner (\<open>signing/\<close>) turns unlocked requests into payouts, and signs and
  submits these. Each of these runs in a transaction of its own.

  \<^bold>\<open>Theories.\<close>
  \<^item> \<open>Prelude\<close>: results (\<open>'a res\<close>, an error or a value), programs \<open>('s, 'a) exec\<close> that pass a state and
    may raise, their laws and rules. \<open>PyValues\<close>: JSON values, \<open>int()\<close>, \<open>str()\<close>, hexadecimal.
    \<open>PyFloat\<close>: the binary64 operations the source uses, and how accurate the displayed amounts are. \<open>Tables\<close>: a table as its list of rows in
    the order of insertion, with a key.
  \<^item> \<open>Migrations\<close> (\<open>migrations.py\<close>), \<open>Tiers\<close> (\<open>staking/tiers.py\<close>, \<open>config.py\<close>), \<open>Models\<close>
    (\<open>db/models.py\<close>, \<open>db/session.py\<close>: the tables as records with their column and uniqueness
    constraints; a session is a working copy beside the committed database, and sequences survive
    a roll back), \<open>Ledger\<close> (\<open>staking/ledger.py\<close>).
  \<^item> \<open>Dilithium\<close> (\<open>signing/dilithium.py\<close> over \<open>native/dilithium3_capi.cpp\<close>), \<open>Auth\<close>
    (\<open>staking/auth.py\<close>), \<open>Queue\<close>, \<open>UnstakeProcessor\<close>, \<open>HotKeySigner\<close> (with \<open>pool_key.py\<close>), \<open>Runner\<close>
    (\<open>signing/\<close>), \<open>Client\<close>, \<open>Watcher\<close> (with \<open>snapshot.py\<close>; \<open>chain/\<close>), \<open>WriteApi\<close>, \<open>ReadApi\<close> (\<open>api/\<close>).
  \<^item> \<open>Schema\<close> (\<open>alembic/\<close>: the statements of the revisions, executed on a schema, and \<open>env.py\<close>), \<open>Smoke\<close>
    (\<open>scripts/smoke_pool_l1.py\<close>).
  \<^item> \<open>Transitions\<close> is the abstract specification: the transitions \<open>db_step\<close> that a database may
    make, each a guard and an update. \<open>Simulation\<close> proves that every operation of the model, error
    paths and roll backs included, makes such transitions only. \<open>Invariants\<close> proves invariants of
    the transitions, through the locales \<open>db_invariant\<close> and \<open>relative_invariant\<close>. \<open>Service\<close> puts the
    parts together: \<open>service_step\<close> is one transaction of any of the loops or endpoints with any
    input, \<open>reachable\<close> what an empty database can become. \<open>Example\<close> runs a concrete life of the
    service; its states are the witnesses' inputs.
  \<^item> Properties of the parts together: \<open>Blocks\<close> and \<open>Rewards\<close> (a block applied twice, the division of an
    inflow), \<open>Sessions\<close> (what holds at every point of a session that processes a block) and \<open>Walks\<close>
    (the order and the end of the two walks over the chain), \<open>Endpoints\<close> (the exact effect of the
    signed requests), \<open>Payouts\<close> and \<open>PayoutLife\<close> (from a request to a payment: that it can be paid, and
    the state machine of its row), and this theory (the invariants of the reachable states, and what a payment is).
  \<^item> \<open>Process\<close> (\<open>main.py\<close>) is the program over time: a process with its start, its shut down and its
    two background loops, \<open>watcher_loop\<close> and \<open>loop_forever\<close>, session by session, and the machine on
    which processes run, are killed and start again. \<open>Lifetimes\<close> and \<open>Crashes\<close> show what survives
    this and what does not. \<open>Retries\<close> shows what the runner's retry is to the chain, \<open>Interleaving\<close>
    when the statements of two signed requests interleave without harm, and what happens when
    they do not, \<open>Deposits\<close> the same of a deposit that the watcher credits.
  \<^item> \<open>App\<close> is the application as its clients see it: the routes, one request to each of them, its
    status and its JSON, and what these say. \<open>KeyGen\<close> (\<open>native/pool_keygen.cpp\<close>) follows the key of
    the pool from the tool that makes it into the service.

  \<^bold>\<open>Parameters.\<close> The record \<open>crypto\<close> holds the functions that the native code links (Dilithium3,
  SHA3-256), \<open>decryption\<close> and \<open>encryption\<close> those of the \<open>cryptography\<close> package and of OpenSSL (PBKDF2,
  AES-CBC, padding); \<open>signature_scheme\<close> and \<open>cipher_laws\<close> state what is relied on, the latter for keys,
  initialisation vectors and plaintexts of the sizes that AES-256-CBC takes only. The record of
  the environment holds, per request number, what the node answers, and the clock. Whether the
  database is \<open>up\<close> is an argument of a web request (\<open>serve\<close>). Where a statement quantifies over
  these, it holds for every node, every clock and every outage.

  \<^bold>\<open>Bounds and fuel.\<close> The retry loops are structural recursions over the attempts left. The catch-up
  loop of the snapshot runs while the node reports a higher tip, so it may not end: it takes fuel,
  and \<open>None\<close> means that the fuel did not suffice. When the heights that the node reports are at most
  \<open>limit\<close>, fuel of \<open>limit + 1\<close> suffices, and more changes nothing (\<open>snapshot_terminates\<close>). Columns of
  type INTEGER, BIGINT and VARCHAR(n) check their bounds on every flush and raise \<open>DataError\<close>, as does a
  text with the code point 0, which PostgreSQL does not store. A parameter of a query that is out of
  these bounds is refused likewise: the address of a page, the id of a cancellation, the height of
  the unlocked requests. Strings are lists of the 256 characters of the type \<open>char\<close>.

  \<^bold>\<open>Not modelled.\<close> Logging and printing; what the HTTP framework does itself: it matches paths, reads
  parameters and bodies, and \<open>uvicorn\<close> runs it (\<open>App\<close> states the routes and the documented statuses of
  exceptions); the engine and the connection pool; sleeping, and the time stamps of rows other than
  those that order the payouts. A transaction is atomic here: its statements interleave with
  another's in \<open>Interleaving\<close> and \<open>Deposits\<close> only, for the signed requests and a deposit. So the
  conservation of stake is that of transactions that run one after another; the two theories show
  how it is lost when they overlap. Rows that a query leaves unordered (the unlocked requests have no
  \<open>ORDER BY\<close>, and the other orders have ties) come in the order of insertion, and no row is locked by
  another session (\<open>SKIP LOCKED\<close> in \<open>Runner\<close>). An outage that hits a commit counts as before it.
  \<open>l1_patches/\<close> is to be pasted into the node, whose types are not here; \<open>tests/\<close> and \<open>deploy/\<close> hold
  no logic of the service.
\<close>

section \<open>Reachable states\<close>

text \<open>
  C1. Stake is conserved. In every state that the service reaches by transactions that run one after
  another, and for every address, what
  the address has staked plus what it has in unstake requests not cancelled is at most the
  stake recorded for it and at least that stake less the refunds recorded for it. No stake is
  negative and every account carries the tier of its stake.
\<close>

theorem stake_is_conserved:
  assumes "reachable s"
  shows "event_total ''STAKE'' a (database s) - event_total ''UNSTAKE'' a (database s)
      \<le> stake_of a (database s) + locked_total a (database s) \<and>
    stake_of a (database s) + locked_total a (database s) \<le> event_total ''STAKE'' a (database s) \<and>
    (\<forall>st. get_staker (database s) a = Some st \<longrightarrow>
      0 \<le> staked_amount st \<and> tier st = tier_name (tier_for (staked_amount st)))"
  using reachable_ok [OF assms] accounts_okD(3) [of "database s" a]
  by (auto simp: service_ok_def flow_ok_def staker_ok_def)

lemma stake_is_conserved_witness:
  "stake_of ex_addr ex_requested + locked_total ex_addr ex_requested \<le> event_total ''STAKE'' ex_addr ex_requested
   \<and> stake_of ex_addr ex_requested = 200 \<and> locked_total ex_addr ex_requested = 100"
proof -
  have "stake_of ex_addr ex_requested = 200" "locked_total ex_addr ex_requested = 100"
    by (simp_all add: stake_of_def get_staker_def locked_total_def locked_amount_def ex_states row_get_Cons)
      (simp_all add: ex_parts)
  then show ?thesis using stake_is_conserved [OF ex_reachable(1), of ex_addr] by (simp add: ex_app_def)
qed

text \<open>
  C2. Rewards are conserved. In every reachable state the figures that the statistics endpoint
  reports add up: what came into the pool is what is pending, claimed or kept as dust; nothing
  is negative.
\<close>

theorem rewards_are_conserved:
  assumes "reachable s"
  shows "ps_total_inflow (get_rewards_pool_stats (database s)) =
      ps_total_pending (get_rewards_pool_stats (database s)) +
      ps_total_claimed_lifetime (get_rewards_pool_stats (database s)) +
      ps_total_dust (get_rewards_pool_stats (database s)) \<and>
    (\<forall>r \<in> set (validator_rewards (database s)). 0 \<le> pending_rewards r \<and> 0 \<le> total_claimed r) \<and>
    (\<forall>i \<in> set (reward_pool_inflows (database s)).
       0 < inflow_amount i \<and> 0 \<le> dust_remaining i \<and> dust_remaining i \<le> inflow_amount i)"
  using reachable_ok [OF assms]
  by (auto simp: service_ok_def rewards_ok_def reward_ok_def inflow_ok_def get_rewards_pool_stats_def
      Let_def total_inflow_def total_pending_def total_claims_def total_dust_def)

lemma rewards_are_conserved_witness:
  "ps_total_inflow (get_rewards_pool_stats ex_claimed) = 7 \<and>
   ps_total_pending (get_rewards_pool_stats ex_claimed) = 7"
proof -
  have "ps_total_inflow (get_rewards_pool_stats ex_claimed) = 7"
    "ps_total_claimed_lifetime (get_rewards_pool_stats ex_claimed) = 0"
    "ps_total_dust (get_rewards_pool_stats ex_claimed) = 0"
    by (simp_all add: get_rewards_pool_stats_def Let_def ex_states) (simp_all add: ex_parts)
  then show ?thesis using rewards_are_conserved [OF ex_reachable(3)] by (simp add: ex_app_def)
qed

text \<open>
  C3. One account per user. In every reachable state no account, stake event or unstake request
  is kept under an address that the migration table replaces: whatever old address a transaction
  names, the stake is booked under the user's current one.
\<close>

theorem accounts_are_current:
  assumes "reachable s"
  shows "(\<forall>st \<in> set (stakers (database s)). prefix_match ADDRESS_MIGRATIONS (staker_address st) = None) \<and>
    (\<forall>e \<in> set (stake_events (database s)). prefix_match ADDRESS_MIGRATIONS (event_address e) = None) \<and>
    (\<forall>u \<in> set (unstake_requests (database s)). prefix_match ADDRESS_MIGRATIONS (request_address u) = None)"
proof -
  have "canonical_accounts (database s)"
    using canonical.reachable_keeps [OF assms] by (simp add: canonical_accounts_def empty_db_def)
  then have "\<forall>a \<in> staker_address ` set (stakers (database s)). prefix_match ADDRESS_MIGRATIONS a = None"
    by (simp add: canonical_accounts_def canonical_not_migrated)
  moreover have "accounts_ok (database s)" using reachable_ok [OF assms] by (simp add: service_ok_def)
  ultimately show ?thesis unfolding accounts_ok_def by blast
qed

lemma accounts_are_current_witness: "prefix_match ADDRESS_MIGRATIONS ex_addr = None"
proof -
  have "ex_staker 200 \<in> set (stakers (database (ex_app ex_requested)))" "staker_address (ex_staker 200) = ex_addr"
    by (simp_all add: ex_app_def ex_requested_def) (simp add: ex_staker_def)
  then show ?thesis using accounts_are_current [OF ex_reachable(1)] by metis
qed

text \<open>
  C4. Payouts are refunds. In every reachable state each payout refunds exactly one unstake
  request, to its owner and of its amount, and no request has two payouts. A payout has at
  most five attempts, a transaction hash exactly when it is SUBMITTED, and is FAILED only
  after the fifth attempt; a READY request has its payout.
\<close>

theorem payouts_are_refunds:
  assumes "reachable s"
  shows "(\<forall>p \<in> set (pending_payouts (database s)).
      (\<exists>u \<in> set (unstake_requests (database s)). refunds p u) \<and>
      payout_kind p = ''UNSTAKE_REFUND'' \<and> 0 < payout_amount p \<and> 0 \<le> attempts p \<and> attempts p \<le> 5 \<and>
      (payout_status p = SUBMITTED \<longleftrightarrow> payout_tx_hash p \<noteq> None) \<and>
      (payout_status p = FAILED \<longrightarrow> attempts p = 5)) \<and>
    (\<forall>p \<in> set (pending_payouts (database s)). \<forall>q \<in> set (pending_payouts (database s)). \<forall>u.
      refunds p u \<longrightarrow> refunds q u \<longrightarrow> p = q) \<and>
    (\<forall>u \<in> set (unstake_requests (database s)). request_status u = READY \<longrightarrow>
      (\<exists>p \<in> set (pending_payouts (database s)). refunds p u))"
proof -
  let ?d = "database s"
  from reachable_ok [OF assms] have keys: "wf_keys ?d" and ok: "payouts_ok ?d"
    by (simp_all add: service_ok_def)
  have "p = q" if "p \<in> set (pending_payouts ?d)" "q \<in> set (pending_payouts ?d)" "refunds p u" "refunds q u" for p q u
  proof -
    have "payout_ref p = payout_ref q" using that by (simp add: refunds_def)
    moreover have "inj_on payout_ref (set (pending_payouts ?d))"
      using keys by (simp add: wf_keys_def distinct_map)
    ultimately show ?thesis using that(1,2) by (simp add: inj_on_eq_iff)
  qed
  then show ?thesis using ok by (auto simp: payouts_ok_def payout_ok_def MAX_ATTEMPTS_def)
qed

lemma payouts_are_refunds_witness:
  "\<exists>u \<in> set (unstake_requests ex_claimed). refunds (ex_payout SIGNING) u"
proof -
  have "ex_payout SIGNING \<in> set (pending_payouts ex_claimed)" by (simp add: ex_claimed_def)
  then show ?thesis using payouts_are_refunds [OF ex_reachable(3)] by (simp add: ex_app_def)
qed

text \<open>
  C5. A refund is paid once. A payout that is SUBMITTED (or FAILED) stays exactly as it is,
  whatever the service does afterwards: it is never queued, signed or submitted again.
\<close>

theorem finished_payouts_are_final:
  assumes "reachable s" and "service_step\<^sup>*\<^sup>* s s'"
    and "get_payout (database s) i = Some p" and "payout_status p \<in> {SUBMITTED, FAILED}"
  shows "get_payout (database s') i = Some p"
  using assms(2)
proof (induction rule: rtranclp_induct)
  case base
  show ?case by (rule assms(3))
next
  case (step s1 s2)
  have "reachable s1" using assms(1) step(1) by (simp add: reachable_def)
  then have "wf_keys (database s1)" using reachable_ok by (auto simp: service_ok_def)
  with step(3) have "wf_keys (database s2) \<and> get_payout (database s2) i = Some p"
    by (intro db_invariant.service_step_keeps [OF final_payout_invariant [OF assms(4)] step(2)]) simp_all
  then show ?case by simp
qed

lemma finished_payouts_are_final_witness:
  "get_payout ex_paid 1 = Some ((ex_payout SUBMITTED)\<lparr>payout_tx_hash := Some ex_hash, attempts := 1\<rparr>) \<and>
   (\<exists>s'. service_step (ex_app ex_paid) s' \<and>
      get_payout (database s') 1 = Some ((ex_payout SUBMITTED)\<lparr>payout_tx_hash := Some ex_hash, attempts := 1\<rparr>))"
proof -
  let ?p = "(ex_payout SUBMITTED)\<lparr>payout_tx_hash := Some ex_hash, attempts := 1\<rparr>"
  have get: "get_payout ex_paid 1 = Some ?p" "payout_status ?p \<in> {SUBMITTED, FAILED}"
    by (simp_all add: get_payout_def ex_paid_def row_get_Cons) (simp_all add: ex_payout_def)
  obtain r d where "session_scope claim_batch 3000 ex_paid = (r, d)" by fastforce
  then have step: "service_step (ex_app ex_paid) (ex_app d)"
    using service_step.runner_claims [of 3000 "ex_app ex_paid" r d] by (simp add: ex_app_def)
  then have "get_payout (database (ex_app d)) 1 = Some ?p"
    using finished_payouts_are_final [OF ex_reachable_paid r_into_rtranclp [of service_step, OF step], of 1 ?p] get
    by (simp add: ex_app_def)
  with step get show ?thesis by blast
qed

text \<open>
  C6. Every transaction of the service refines the specification: its effect on the database,
  errors and rollbacks included, is that of a session which makes transitions of \<open>db_step\<close>,
  commits and rollbacks only.
\<close>

theorem transactions_refine_specification:
  assumes "reachable s" and "service_step s s'"
  shows "\<exists>t S. sess_steps (begin_session t (database s)) S \<and> committed S = database s'"
  using service_step_commits [OF assms(2)] reachable_ok [OF assms(1)]
  by (simp add: service_ok_def commits_to_def)

lemma transactions_refine_specification_witness:
  "\<exists>t S. sess_steps (begin_session t ex_claimed) S \<and> committed S = ex_paid"
  using transactions_refine_specification [OF ex_reachable(3) ex_pay_step] by (simp add: ex_app_def)

text \<open>
  The loops are made of these transactions: whatever the chain and the clock answer, a tick
  of the watcher, a run of the snapshot that ends, and a tick of the payout runner take the
  database from reachable states to reachable states.
\<close>

theorem loops_stay_reachable:
  assumes "reachable s"
  shows "(\<forall>env t n. reachable (s\<lparr>database := walk_db (snd (tick env t \<lparr>rpc_state = n, walk_db = database s\<rparr>))\<rparr>)) \<and>
    (\<forall>env t fuel n r w. run_snapshot env t fuel \<lparr>rpc_state = n, walk_db = database s\<rparr> = Some (r, w) \<longrightarrow>
       reachable (s\<lparr>database := walk_db w\<rparr>)) \<and>
    (\<forall>c env show_json key exc_str t n. reachable (s\<lparr>database :=
       fst (snd (runner_tick (sign_and_submit c env show_json key) exc_str t (database s, n)))\<rparr>))"
proof -
  have go: "reachable (s\<lparr>database := d\<rparr>)" if "steps_to (database s) d" for d
    using that assms unfolding steps_to_def reachable_def by (blast intro: rtranclp_trans)
  show ?thesis
  proof (intro conjI allI impI go)
    show "steps_to (database s) (walk_db (snd (tick env t \<lparr>rpc_state = n, walk_db = database s\<rparr>)))" for env t n
      using tick_steps [of env t "\<lparr>rpc_state = n, walk_db = database s\<rparr>", OF surjective_pairing] by simp
    show "steps_to (database s) (walk_db w)"
      if "run_snapshot env t fuel \<lparr>rpc_state = n, walk_db = database s\<rparr> = Some (r, w)" for env t fuel n r w
      using run_snapshot_steps [OF that] by simp
    show "steps_to (database s)
        (fst (snd (runner_tick (sign_and_submit c env show_json key) exc_str t (database s, n))))"
      for c env show_json key exc_str t n
    proof -
      let ?x = "runner_tick (sign_and_submit c env show_json key) exc_str t (database s, n)"
      have "?x = (fst ?x, (fst (snd ?x), snd (snd ?x)))" by simp
      then show ?thesis by (rule runner_tick_steps)
    qed
  qed
qed

lemma loops_stay_reachable_witness:
  "reachable ((ex_app ex_unlocked)\<lparr>database :=
     fst (snd (runner_tick (sign_and_submit ex_crypto ex_env (\<lambda>_. []) ex_key) (\<lambda>_. []) 2010
       (ex_unlocked, \<lparr>requests = 0, slept = 0\<rparr>)))\<rparr>)"
  using loops_stay_reachable [OF ex_reachable(2)] by (simp add: ex_app_def)

section \<open>Payments\<close>

text \<open>
  C24. What a successful submission is. When the signer returns a hash, it is the SHA3-256 hash
  of the canonical bytes of a transfer from the pool to the payout's recipient, of the payout's
  amount; exactly that transfer was posted to the node, with a signature over the hash that
  verifies under the pool's public key; and the node's answer had no error.
\<close>

theorem submitted_payment:
  assumes run: "sign_and_submit c env show_json key p w = (Inr h, w')"
    and scheme: "signature_scheme c" "keygen c seed = Inr (public_key key, secret_key key)"
  shows "\<exists>nonce now canon sig w1 resp. let t = payout_tx key p nonce now; m = digest (sha3_256 c canon) in
    serialize_canonical t = Inr canon \<and> h = hex m \<and>
    tx_to t = recipient p \<and> tx_amount t = payout_amount p \<and> tx_from t = key_address key \<and>
    verify c m sig (public_key key) \<and>
    submit_tx env (submit_payload key t sig) w1 = (Inr resp, w') \<and> response_error resp = Inr None"
proof -
  from run obtain nonce w1 canon sig resp where nonce: "next_nonce env key w = (Inr nonce, w1)"
    and canon: "serialize_canonical (payout_tx key p nonce (trunc_int (wall_clock env (requests w1)))) = Inr canon"
    and sig: "pool_key_sign c key (digest (sha3_256 c canon)) = Inr sig"
    and post: "submit_tx env (submit_payload key (payout_tx key p nonce
        (trunc_int (wall_clock env (requests w1)))) sig) w1 = (Inr resp, w')"
    and err: "response_error resp = Inr None" and h: "h = hex (digest (sha3_256 c canon))"
    by (auto simp: sign_and_submit_def bind_eq_Inr gets_exec lift_exec Let_def return_def raise_def
        split: option.splits)
  have "verify c (digest (sha3_256 c canon)) sig (public_key key)"
    using keygen_sign_verify(1) [OF scheme] sig by (simp add: pool_key_sign_def)
  with canon post err h show ?thesis
    unfolding Let_def by (intro exI conjI) (assumption | simp add: payout_tx_def)+
qed

lemma submitted_payment_witness:
  "\<exists>canon sig. verify ex_crypto (digest (sha3_256 ex_crypto canon)) sig (public_key ex_key) \<and>
     ex_hash = hex (digest (sha3_256 ex_crypto canon))"
proof -
  have "signature_scheme ex_crypto"
    by (simp add: signature_scheme_def ex_crypto_def dilithium_sizes)
  moreover have "keygen ex_crypto 1 = Inr (public_key ex_key, secret_key ex_key)"
    by (simp add: keygen_def npc_dil3_keygen_def ex_crypto_def ex_key_def dilithium_sizes)
  moreover obtain w' where "sign_and_submit ex_crypto ex_env (\<lambda>_. []) ex_key (ex_payout SIGNING)
      \<lparr>requests = 0, slept = 0\<rparr> = (Inr ex_hash, w')"
    using ex_submit by blast
  ultimately show ?thesis
    using submitted_payment [of ex_crypto ex_env "\<lambda>_. []" ex_key "ex_payout SIGNING"] unfolding Let_def by blast
qed

end
